(* ===== verification/Prelude.thy ===== *)
theory Prelude
  imports Complex_Main "HOL-Library.Word" "HOL-Library.Multiset" "HOL-Library.List_Lexorder"
    "HOL-Library.Char_ord" "HOL-Library.Product_Lexorder"
begin

text \<open>
  Shared vocabulary of the development: the value types every component uses, the generic facts
  on lists, stable sorting and tables of rows, and the collections of simplification rules the
  component theories fill.

  \<^item> \<open>decimal\<close> stands for the exact value of a \<open>decimal.Decimal\<close> of github.com/shopspring/decimal.
    That package is not part of the repository: the code relies on \<open>Add\<close>, \<open>Sub\<close>, \<open>Mul\<close> and \<open>Neg\<close>
    being exact and on comparisons going by value, which is the ordered field of rationals, and
    every definition that rounds takes the rounding function as an argument.
  \<^item> \<open>uuid\<close> is the 16 byte array of github.com/google/uuid, compared with \<open>==\<close>; generating one
    and its textual form are arguments of the definitions that use them.
  \<^item> \<open>int16\<close> keeps the width of the Go enums (\<open>OrderSide\<close>, \<open>OrderType\<close>, \<open>OrderStatus\<close>), so that a
    value outside the declared constants takes the \<open>else\<close> or \<open>default\<close> branch as in the code.
  \<^item> Unix milliseconds and fencing tokens (\<open>int64\<close>) are \<open>int\<close>; where the database could
    overflow them the bound is written out.
\<close>

type_synonym decimal = rat
type_synonym uuid = "128 word"
type_synonym int16 = "16 word"
type_synonym millis = int

named_theorems book_simps \<open>projections of the order book operations\<close>
named_theorems table_simps \<open>rows of a table after an update\<close>
named_theorems stmt_simps \<open>outcome of a statement when the server answers\<close>
named_theorems frames \<open>what part of the tables a computation leaves alone\<close>

section \<open>Lists\<close>

lemma takeWhile_all_le: "\<lbrakk>\<And>y. y \<in> set ys \<Longrightarrow> P y\<rbrakk> \<Longrightarrow> takeWhile P ys = ys"
  by (induction ys) auto

lemma insort_key_head:
  "(\<And>y. y \<in> set ys \<Longrightarrow> f x \<le> f y) \<Longrightarrow> insort_key f x ys = x # ys"
  by (cases ys) auto

text \<open>
  Appending one element and sorting stably puts it behind every element that is not greater:
  this is what \<open>append\<close> followed by \<open>sort.SliceStable\<close> does to a sorted slice.
\<close>

lemma sort_key_snoc:
  fixes f :: "'a \<Rightarrow> 'k::linorder"
  assumes "sorted (map f xs)"
  shows "sort_key f (xs @ [x]) =
         takeWhile (\<lambda>y. f y \<le> f x) xs @ x # dropWhile (\<lambda>y. f y \<le> f x) xs"
  using assms
proof (induction xs)
  case Nil
  then show ?case by simp
next
  case (Cons y ys)
  then have IH: "sort_key f (ys @ [x]) =
      takeWhile (\<lambda>y. f y \<le> f x) ys @ x # dropWhile (\<lambda>y. f y \<le> f x) ys"
    and le: "\<forall>z \<in> set ys. f y \<le> f z"
    by auto
  show ?case
  proof (cases "f y \<le> f x")
    case True
    let ?zs = "takeWhile (\<lambda>y. f y \<le> f x) ys @ x # dropWhile (\<lambda>y. f y \<le> f x) ys"
    have "f y \<le> f z" if "z \<in> set ?zs" for z
      using that le True by (auto dest: set_takeWhileD set_dropWhileD)
    then have "insort_key f y ?zs = y # ?zs"
      by (rule insort_key_head)
    with True IH show ?thesis by simp
  next
    case False
    then have "takeWhile (\<lambda>y. f y \<le> f x) ys = []" and "dropWhile (\<lambda>y. f y \<le> f x) ys = ys"
      using le by (cases ys; fastforce)+
    with False IH le show ?thesis
      by (simp add: insort_key_head)
  qed
qed

text \<open>Stable sorting in two steps: sorting a prefix first makes no difference.\<close>

lemma sort_key_append_sorted: "sort_key f (sort_key f xs @ ys) = sort_key f (xs @ ys)"
proof -
  have st: "filter (\<lambda>x. f k = f x) (sort_key f zs) = filter (\<lambda>x. f k = f x) zs" for k zs
    using sort_key_stable [of f "f k" zs] by (simp add: eq_commute)
  show ?thesis
    by (rule properties_for_sort_key [symmetric]) (simp_all add: st)
qed

lemma takeWhile_le_sorted:
  fixes f :: "'a \<Rightarrow> 'k::linorder"
  shows "sorted (map f xs) \<Longrightarrow> takeWhile (\<lambda>y. f y \<le> c) xs = filter (\<lambda>y. f y \<le> c) xs"
  by (induction xs) (auto simp: filter_empty_conv dest: order_trans intro!: sym [OF filter_False])

lemma dropWhile_le_sorted:
  fixes f :: "'a \<Rightarrow> 'k::linorder"
  shows "sorted (map f xs) \<Longrightarrow> dropWhile (\<lambda>y. f y \<le> c) xs = filter (\<lambda>y. c < f y) xs"
  by (induction xs) (auto dest: order_trans less_le_trans intro!: sym [OF filter_True])

lemma sorted_map_tl: "sorted (map f xs) \<Longrightarrow> sorted (map f (tl xs))"
  by (cases xs) auto

lemma sum_list_update_hd:
  fixes f :: "'a \<Rightarrow> 'b::comm_monoid_add"
  shows "xs \<noteq> [] \<Longrightarrow> sum_list (map f xs) = f (hd xs) + sum_list (map f (tl xs))"
  by (cases xs) auto

lemma sum_list_nonneg_rat:
  fixes f :: "'a \<Rightarrow> rat"
  shows "(\<And>x. x \<in> set xs \<Longrightarrow> 0 \<le> f x) \<Longrightarrow> 0 \<le> sum_list (map f xs)"
  by (induction xs) auto

lemma list_all2_step:
  assumes "list_all2 P xs ys" and "list_all2 R ys zs" and "\<And>x y z. P x y \<Longrightarrow> R y z \<Longrightarrow> P x z"
  shows "list_all2 P xs zs"
  by (rule list_all2_trans [OF _ assms(1,2)]) (rule assms(3))

lemma list_all2_member: "list_all2 P xs ys \<Longrightarrow> x \<in> set xs \<Longrightarrow> \<exists>y \<in> set ys. P x y"
  by (induction rule: list_all2_induct) auto

lemma list_all2_member': "list_all2 P xs ys \<Longrightarrow> y \<in> set ys \<Longrightarrow> \<exists>x \<in> set xs. P x y"
  by (induction rule: list_all2_induct) auto

text \<open>\<open>m[k] = f(m[k])\<close> on a Go map as an association list: an absent key reads as the zero value \<open>d\<close>.\<close>

fun alist_upd :: "'k \<Rightarrow> ('v \<Rightarrow> 'v) \<Rightarrow> 'v \<Rightarrow> ('k \<times> 'v) list \<Rightarrow> ('k \<times> 'v) list" where
  "alist_upd k f d [] = [(k, f d)]"
| "alist_upd k f d ((k', v) # m) = (if k = k' then (k', f v) # m else (k', v) # alist_upd k f d m)"

lemma alist_upd_keys [simp]: "fst ` set (alist_upd k f d m) = insert k (fst ` set m)"
  by (induction k f d m rule: alist_upd.induct) auto

lemma alist_upd_distinct: "distinct (map fst m) \<Longrightarrow> distinct (map fst (alist_upd k f d m))"
proof (induction k f d m rule: alist_upd.induct)
  case (2 k f d k' v m)
  then show ?case using alist_upd_keys [of k f d m] by auto
qed simp

lemma map_of_alist_upd:
  "map_of (alist_upd k f d m) k' =
     (if k' = k then Some (f (case map_of m k of None \<Rightarrow> d | Some v \<Rightarrow> v)) else map_of m k')"
  by (induction k f d m rule: alist_upd.induct) auto

section \<open>Tables of rows\<close>

text \<open>
  A database table is the list of its rows in insertion order. \<open>UPDATE ... WHERE\<close> is
  \<open>update_where\<close>, its command tag is \<open>rows_affected\<close>, \<open>DELETE ... WHERE\<close> is \<open>filter\<close> and a
  lookup by key is \<open>find\<close>.
\<close>

definition update_where :: "('r \<Rightarrow> bool) \<Rightarrow> ('r \<Rightarrow> 'r) \<Rightarrow> 'r list \<Rightarrow> 'r list" where
  "update_where P f rows = map (\<lambda>r. if P r then f r else r) rows"

definition rows_affected :: "('r \<Rightarrow> bool) \<Rightarrow> 'r list \<Rightarrow> nat" where
  "rows_affected P rows = length (filter P rows)"

lemma update_where_simps [simp, table_simps]:
  "update_where P f [] = []"
  "update_where P f (r # rs) = (if P r then f r else r) # update_where P f rs"
  "update_where P f (rs @ ss) = update_where P f rs @ update_where P f ss"
  by (simp_all add: update_where_def)

lemma length_update_where [simp]: "length (update_where P f rows) = length rows"
  by (simp add: update_where_def)

lemma set_update_where:
  "set (update_where P f rows) = f ` {r \<in> set rows. P r} \<union> {r \<in> set rows. \<not> P r}"
  by (auto simp: update_where_def)

lemma update_where_none:
  "(\<And>r. r \<in> set rows \<Longrightarrow> \<not> P r) \<Longrightarrow> update_where P f rows = rows"
  by (induction rows) auto

lemma map_update_where_same:
  "(\<And>r. r \<in> set rows \<Longrightarrow> P r \<Longrightarrow> g (f r) = g r) \<Longrightarrow> map g (update_where P f rows) = map g rows"
  by (induction rows) auto

lemma sum_list_update_where_same:
  fixes g :: "'r \<Rightarrow> 'b::comm_monoid_add"
  shows "(\<And>r. r \<in> set rows \<Longrightarrow> P r \<Longrightarrow> g (f r) = g r) \<Longrightarrow>
         sum_list (map g (update_where P f rows)) = sum_list (map g rows)"
  by (simp add: map_update_where_same)

lemma rows_affected_zero [simp]:
  "rows_affected P rows = 0 \<longleftrightarrow> (\<forall>r \<in> set rows. \<not> P r)"
  by (auto simp: rows_affected_def filter_empty_conv)

text \<open>Looking a row up after an update that keeps the search condition.\<close>

lemma find_update_where:
  assumes "\<And>x. Q x \<Longrightarrow> P (f x) = P x"
  shows "find P (update_where Q f xs) = map_option (\<lambda>x. if Q x then f x else x) (find P xs)"
  by (induction xs) (auto simp: assms)

lemma map_find_update_where:
  assumes "\<And>x. Q x \<Longrightarrow> P (f x) = P x" and "\<And>x. Q x \<Longrightarrow> g (f x) = g x"
  shows "map_option g (find P (update_where Q f xs)) = map_option g (find P xs)"
  by (induction xs) (auto simp: assms)

lemma find_snoc: "find P xs = None \<Longrightarrow> find P (xs @ [x]) = (if P x then Some x else None)"
  by (induction xs) (auto split: if_splits)

text \<open>Adding an amount to one column of the single row with a key adds it to the column's sum.\<close>

lemma sum_list_update_where_key:
  fixes g :: "'r \<Rightarrow> rat"
  assumes "distinct (map key rows)" and "r0 \<in> set rows" and "key r0 = k"
    and "\<And>r. r \<in> set rows \<Longrightarrow> key r = k \<Longrightarrow> g (f r) = g r + d"
  shows "sum_list (map g (update_where (\<lambda>r. key r = k) f rows)) = sum_list (map g rows) + d"
  using assms
proof (induction rows)
  case Nil
  then show ?case by simp
next
  case (Cons r rows)
  show ?case
  proof (cases "key r = k")
    case True
    have other: "key s \<noteq> k" if "s \<in> set rows" for s
      using that Cons.prems(1) True by (auto simp: image_iff)
    then have "update_where (\<lambda>r. key r = k) f rows = rows"
      by (rule update_where_none)
    with True Cons.prems(4) show ?thesis by simp
  next
    case False
    with Cons.prems have "r0 \<in> set rows" by auto
    with Cons False show ?thesis by simp
  qed
qed

lemma find_update_where_other:
  "(\<And>r. P r \<Longrightarrow> \<not> Q r) \<Longrightarrow> (\<And>r. P r \<Longrightarrow> \<not> Q (f r)) \<Longrightarrow>
   find Q (update_where P f rows) = find Q rows"
  by (induction rows) auto

lemma find_update_where_key:
  "(\<And>r. key (f r) = key r) \<Longrightarrow>
   find (\<lambda>r. key r = k) (update_where (\<lambda>r. key r = k) f rows) =
   map_option f (find (\<lambda>r. key r = k) rows)"
  by (induction rows) auto

lemma find_update_where_frame:
  "(\<And>r. key (f r) = key r) \<Longrightarrow> k \<noteq> k' \<Longrightarrow>
   find (\<lambda>r. key r = k) (update_where (\<lambda>r. key r = k') f rows) = find (\<lambda>r. key r = k) rows"
  by (induction rows) auto

lemma find_SomeD: "find P rows = Some r \<Longrightarrow> r \<in> set rows \<and> P r"
  by (induction rows) (auto split: if_splits)

lemma find_None_iff': "find P rows = None \<longleftrightarrow> (\<forall>r \<in> set rows. \<not> P r)"
  by (auto simp: find_None_iff)

section \<open>Loops over a ticker\<close>

text \<open>
  A goroutine that selects between its context and a ticker: the branches it takes, one after the other. It
  returns at \<open>CtxDone\<close> and does one unit of work at each \<open>Ticked\<close>; the flag says whether it has returned.
\<close>

datatype branch = CtxDone | Ticked

fun ticker_loop :: "('s \<Rightarrow> 's) \<Rightarrow> ('s \<Rightarrow> 's) \<Rightarrow> branch list \<Rightarrow> 's \<Rightarrow> 's \<times> bool" where
  "ticker_loop fin work [] s = (s, False)"
| "ticker_loop fin work (CtxDone # bs) s = (fin s, True)"
| "ticker_loop fin work (Ticked # bs) s = ticker_loop fin work bs (work s)"

lemma ticker_loop_returns: "snd (ticker_loop fin work bs s) \<longleftrightarrow> CtxDone \<in> set bs"
  by (induction fin work bs s rule: ticker_loop.induct) auto

lemma ticker_loop_state:
  "fst (ticker_loop fin work bs s) =
     (let s' = (work ^^ length (takeWhile (\<lambda>b. b = Ticked) bs)) s in if CtxDone \<in> set bs then fin s' else s')"
  by (induction fin work bs s rule: ticker_loop.induct) (auto simp: Let_def funpow_swap1)

section \<open>At least once, in order\<close>

text \<open>\<open>rs\<close> holds the records \<open>xs\<close> in their order, each at least once: a lost acknowledgement repeats a record.\<close>

inductive at_least_once :: "'a list \<Rightarrow> 'a list \<Rightarrow> bool" where
  none [intro]: "at_least_once [] []"
| more: "0 < k \<Longrightarrow> at_least_once rs xs \<Longrightarrow> at_least_once (replicate k x @ rs) (x # xs)"

inductive_simps at_least_once_Nil [simp]: "at_least_once rs []"

lemma at_least_once_set: "at_least_once rs xs \<Longrightarrow> set rs = set xs"
  by (induction rule: at_least_once.induct) auto

lemma at_least_once_append:
  "at_least_once rs xs \<Longrightarrow> at_least_once rs' ys \<Longrightarrow> at_least_once (rs @ rs') (xs @ ys)"
proof (induction rule: at_least_once.induct)
  case (more k rs xs x)
  from at_least_once.more [OF more.hyps(1) more.IH [OF more.prems], of x] show ?case by simp
qed simp

lemma at_least_once_replicate: "0 < k \<Longrightarrow> at_least_once (replicate k x) [x]"
  using at_least_once.more [OF _ at_least_once.none] by simp

end
