(* ===== verification/OrderBook.thy ===== *)
theory OrderBook
  imports Prelude
begin

text \<open>
  The order book of one trading pair: src/internal/matching/engine/types.go and orderbook.go.
  A book is two price ladders of resting orders; \<open>AddOrder\<close> appends and sorts stably, so each
  ladder is ordered by price and, at one price, by arrival. The locale \<open>price_ladder\<close> states what
  the rest of the engine relies on and is interpreted on both sides of the code's book.
\<close>

section \<open>types.go\<close>

type_synonym OrderSide = int16
type_synonym OrderType = int16

definition eSideBuy :: OrderSide where [simp]: "eSideBuy = 1"
definition eSideSell :: OrderSide where [simp]: "eSideSell = 2"
definition eTypeLimit :: OrderType where [simp]: "eTypeLimit = 1"
definition eTypeMarket :: OrderType where [simp]: "eTypeMarket = 2"

text \<open>\<open>engine.Order\<close>; its fields carry the prefix \<open>e\<close>, those of \<open>domain.Order\<close> carry \<open>d\<close>.\<close>

record EOrder =
  eID :: uuid
  eUserID :: uuid
  eSide :: OrderSide
  eType :: OrderType
  ePrice :: decimal
  eQuantity :: decimal

definition NewOrder :: "uuid \<Rightarrow> uuid \<Rightarrow> OrderSide \<Rightarrow> decimal \<Rightarrow> decimal \<Rightarrow> EOrder" where
  "NewOrder oid userID side price quantity =
     \<lparr>eID = oid, eUserID = userID, eSide = side, eType = eTypeLimit, ePrice = price,
      eQuantity = quantity\<rparr>"

definition NewMarketOrder :: "uuid \<Rightarrow> uuid \<Rightarrow> OrderSide \<Rightarrow> decimal \<Rightarrow> EOrder" where
  "NewMarketOrder oid userID side quantity =
     \<lparr>eID = oid, eUserID = userID, eSide = side, eType = eTypeMarket, ePrice = 0,
      eQuantity = quantity\<rparr>"

record Trade =
  tID :: uuid
  tSymbol :: string
  tMakerOrderID :: uuid
  tTakerOrderID :: uuid
  tPrice :: decimal
  tQuantity :: decimal
  tCreatedAt :: millis

record OrderBookLevel =
  lvlPrice :: decimal
  lvlQuantity :: decimal

record OrderBookSnapshot =
  snSymbol :: string
  snBids :: "OrderBookLevel list"
  snAsks :: "OrderBookLevel list"
  snFencingToken :: int

definition NewOrderBookSnapshot :: "string \<Rightarrow> OrderBookSnapshot" where
  "NewOrderBookSnapshot symbol =
     \<lparr>snSymbol = symbol, snBids = [], snAsks = [], snFencingToken = 0\<rparr>"

section \<open>orderbook.go\<close>

record OrderBook =
  obSymbol :: string
  bids :: "EOrder list"
  asks :: "EOrder list"

definition NewOrderBook :: "string \<Rightarrow> OrderBook" where
  "NewOrderBook symbol = \<lparr>obSymbol = symbol, bids = [], asks = []\<rparr>"

definition BidCount :: "OrderBook \<Rightarrow> nat" where
  "BidCount ob = length (bids ob)"

definition AskCount :: "OrderBook \<Rightarrow> nat" where
  "AskCount ob = length (asks ob)"

text \<open>
  \<open>append\<close> and \<open>sort.SliceStable\<close>: \<open>sort_key\<close> is the stable sort by a key, and the comparison
  \<open>Price.GreaterThan\<close> of the bids is the order by the negated price.
\<close>

definition bid_key :: "EOrder \<Rightarrow> decimal" where
  "bid_key o1 = - ePrice o1"

definition ask_key :: "EOrder \<Rightarrow> decimal" where
  "ask_key o1 = ePrice o1"

definition AddOrder :: "OrderBook \<Rightarrow> EOrder \<Rightarrow> OrderBook" where
  "AddOrder ob order =
     (if eSide order = eSideBuy
      then ob\<lparr>bids := sort_key bid_key (bids ob @ [order])\<rparr>
      else ob\<lparr>asks := sort_key ask_key (asks ob @ [order])\<rparr>)"

definition BestBid :: "OrderBook \<Rightarrow> EOrder option" where
  "BestBid ob = (case bids ob of [] \<Rightarrow> None | o1 # _ \<Rightarrow> Some o1)"

definition BestAsk :: "OrderBook \<Rightarrow> EOrder option" where
  "BestAsk ob = (case asks ob of [] \<Rightarrow> None | o1 # _ \<Rightarrow> Some o1)"

definition RemoveBestBid :: "OrderBook \<Rightarrow> OrderBook" where
  "RemoveBestBid ob = (if length (bids ob) > 0 then ob\<lparr>bids := drop 1 (bids ob)\<rparr> else ob)"

definition RemoveBestAsk :: "OrderBook \<Rightarrow> OrderBook" where
  "RemoveBestAsk ob = (if length (asks ob) > 0 then ob\<lparr>asks := drop 1 (asks ob)\<rparr> else ob)"

text \<open>
  The two loops of \<open>RemoveOrder\<close> scan for the first order with the identifier and splice it out;
  the slice that remains and whether the scan found anything.
\<close>

fun splice_order :: "uuid \<Rightarrow> EOrder list \<Rightarrow> EOrder list \<times> bool" where
  "splice_order oid [] = ([], False)"
| "splice_order oid (o1 # os) =
     (if eID o1 = oid then (os, True)
      else (let (rest, found) = splice_order oid os in (o1 # rest, found)))"

definition RemoveOrder :: "OrderBook \<Rightarrow> uuid \<Rightarrow> OrderSide \<Rightarrow> OrderBook \<times> bool" where
  "RemoveOrder ob orderID side =
     (if side = eSideBuy
      then (let (os, found) = splice_order orderID (bids ob) in (ob\<lparr>bids := os\<rparr>, found))
      else (let (os, found) = splice_order orderID (asks ob) in (ob\<lparr>asks := os\<rparr>, found)))"

text \<open>
  \<open>EstimateMarketBuyRequiredFunds\<close>: the loop over the asks with its two running totals. The error
  carries the quantity that no ask could fill, as its message does.
\<close>

datatype estimate_error = InsufficientLiquidity decimal

fun estimate_loop :: "EOrder list \<Rightarrow> decimal \<Rightarrow> decimal \<Rightarrow> estimate_error + decimal" where
  "estimate_loop [] remainingQty totalCost = Inl (InsufficientLiquidity remainingQty)"
| "estimate_loop (ask # as) remainingQty totalCost =
     (let matchQty = (if eQuantity ask < remainingQty then eQuantity ask else remainingQty);
          totalCost' = totalCost + ePrice ask * matchQty;
          remainingQty' = remainingQty - matchQty
      in if remainingQty' = 0 then Inr totalCost' else estimate_loop as remainingQty' totalCost')"

definition EstimateMarketBuyRequiredFunds :: "OrderBook \<Rightarrow> decimal \<Rightarrow> estimate_error + decimal" where
  "EstimateMarketBuyRequiredFunds ob quantity = estimate_loop (asks ob) quantity 0"

section \<open>Projections\<close>

lemma book_projections [simp, book_simps]:
  "bids (AddOrder ob x) = (if eSide x = eSideBuy then sort_key bid_key (bids ob @ [x]) else bids ob)"
  "asks (AddOrder ob x) = (if eSide x = eSideBuy then asks ob else sort_key ask_key (asks ob @ [x]))"
  "obSymbol (AddOrder ob x) = obSymbol ob"
  "bids (RemoveBestBid ob) = tl (bids ob)" "asks (RemoveBestBid ob) = asks ob"
  "asks (RemoveBestAsk ob) = tl (asks ob)" "bids (RemoveBestAsk ob) = bids ob"
  "obSymbol (RemoveBestBid ob) = obSymbol ob" "obSymbol (RemoveBestAsk ob) = obSymbol ob"
  by (simp_all add: AddOrder_def RemoveBestBid_def RemoveBestAsk_def drop_Suc)

lemma best_unfold:
  "BestBid ob = (if bids ob = [] then None else Some (hd (bids ob)))"
  "BestAsk ob = (if asks ob = [] then None else Some (hd (asks ob)))"
  by (simp_all add: BestBid_def BestAsk_def split: list.splits)

lemma RemoveBest_eq:
  "RemoveBestBid ob = ob\<lparr>bids := tl (bids ob)\<rparr>"
  "RemoveBestAsk ob = ob\<lparr>asks := tl (asks ob)\<rparr>"
  by (simp_all add: RemoveBestBid_def RemoveBestAsk_def drop_Suc)

lemma splice_order_eq:
  "splice_order oid os =
     (takeWhile (\<lambda>x. eID x \<noteq> oid) os @ tl (dropWhile (\<lambda>x. eID x \<noteq> oid) os),
      \<exists>x \<in> set os. eID x = oid)"
  by (induction os) (auto split: prod.splits)

lemma splice_order_absent:
  "oid \<notin> eID ` set os \<Longrightarrow> splice_order oid os = (os, False)"
  by (induction os) auto

lemma splice_order_mid:
  "oid \<notin> eID ` set xs \<Longrightarrow> eID x = oid \<Longrightarrow> splice_order oid (xs @ x # ys) = (xs @ ys, True)"
  by (induction xs) auto

lemma splice_order_subseq: "set (fst (splice_order oid os)) \<subseteq> set os"
  by (induction os) (auto split: prod.splits)

lemma splice_order_sorted:
  "sorted (map f os) \<Longrightarrow> sorted (map f (fst (splice_order oid os)))"
proof (induction os)
  case Nil
  then show ?case by simp
next
  case (Cons x xs)
  with splice_order_subseq [of oid xs] show ?case
    by (auto split: prod.splits)
qed

lemma splice_order_distinct:
  "distinct (map eID os) \<Longrightarrow> distinct (map eID (fst (splice_order oid os)))"
proof (induction os)
  case Nil
  then show ?case by simp
next
  case (Cons x xs)
  with splice_order_subseq [of oid xs] show ?case
    by (auto split: prod.splits)
qed

lemma splice_order_id_gone:
  "distinct (map eID os) \<Longrightarrow> oid \<notin> eID ` set (fst (splice_order oid os))"
  by (induction os) (auto split: prod.splits)

section \<open>The interface of a price ladder\<close>

text \<open>
  What the engine relies on for one side of the book: how \<open>put\<close> places an order, what \<open>best\<close>
  reads and what \<open>drop_best\<close> leaves. \<open>key\<close> orders the ladder, best first.
\<close>

locale price_ladder =
  fixes key :: "EOrder \<Rightarrow> decimal"
    and ladder :: "OrderBook \<Rightarrow> EOrder list"
    and mine :: "EOrder \<Rightarrow> bool"
    and put :: "OrderBook \<Rightarrow> EOrder \<Rightarrow> OrderBook"
    and best :: "OrderBook \<Rightarrow> EOrder option"
    and drop_best :: "OrderBook \<Rightarrow> OrderBook"
  assumes ladder_put: "mine x \<Longrightarrow> ladder (put ob x) = sort_key key (ladder ob @ [x])"
    and ladder_put_other: "\<not> mine x \<Longrightarrow> ladder (put ob x) = ladder ob"
    and best_ladder: "best ob = (case ladder ob of [] \<Rightarrow> None | x # _ \<Rightarrow> Some x)"
    and ladder_drop_best: "ladder (drop_best ob) = tl (ladder ob)"
begin

lemma put_position:
  assumes "mine x" and "sorted (map key (ladder ob))"
  shows "ladder (put ob x) =
         filter (\<lambda>y. key y \<le> key x) (ladder ob) @ x # filter (\<lambda>y. key x < key y) (ladder ob)"
  using assms by (simp add: ladder_put sort_key_snoc takeWhile_le_sorted dropWhile_le_sorted)

lemma put_sorted: "sorted (map key (ladder ob)) \<Longrightarrow> sorted (map key (ladder (put ob x)))"
  by (cases "mine x") (simp_all add: ladder_put ladder_put_other)

lemma put_mset: "mine x \<Longrightarrow> mset (ladder (put ob x)) = add_mset x (mset (ladder ob))"
  by (simp add: ladder_put)

lemma put_set: "mine x \<Longrightarrow> set (ladder (put ob x)) = insert x (set (ladder ob))"
  by (simp add: ladder_put)

lemma best_is_least:
  assumes "sorted (map key (ladder ob))" and "best ob = Some x" and "y \<in> set (ladder ob)"
  shows "key x \<le> key y"
  using assms by (auto simp: best_ladder split: list.splits)

lemma best_in: "best ob = Some x \<Longrightarrow> x \<in> set (ladder ob)"
  by (auto simp: best_ladder split: list.splits)

lemma best_None_iff: "best ob = None \<longleftrightarrow> ladder ob = []"
  by (auto simp: best_ladder split: list.splits)

lemma drop_best_sorted: "sorted (map key (ladder ob)) \<Longrightarrow> sorted (map key (ladder (drop_best ob)))"
  by (simp add: ladder_drop_best sorted_map_tl)

end

interpretation bid: price_ladder bid_key bids "\<lambda>x. eSide x = eSideBuy" AddOrder BestBid RemoveBestBid
  by unfold_locales (auto simp: BestBid_def)

interpretation ask: price_ladder ask_key asks "\<lambda>x. eSide x \<noteq> eSideBuy" AddOrder BestAsk RemoveBestAsk
  by unfold_locales (auto simp: BestAsk_def)

end
