(* ===== verification/Engine.thy ===== *)
theory Engine
  imports OrderBook "HOL-Library.AList"
begin

text \<open>
  The matching engine of one trading pair and the registry of engines:
  src/internal/matching/engine/engine.go and manager.go. An engine is its order book; its mutex
  makes every exported operation one atomic step. \<open>uuid.NewV7\<close> and \<open>time.Now\<close> are the arguments
  \<open>ids\<close> and \<open>clk\<close>: the values the k-th trade of a call receives. Orders reached through a pointer
  are mutated in place, so the loops return the incoming order beside the book.

  The locale \<open>match_side\<close> states what the two matching loops have in common and proves once that
  such a loop computes the greedy sweep \<open>fill\<close> of the opposite ladder, the abstract specification
  of matching; it is interpreted on \<open>matchBuyOrder\<close> and on \<open>matchSellOrder\<close>.
\<close>

type_synonym Engine = OrderBook

definition NewEngine :: "string \<Rightarrow> Engine" where
  "NewEngine symbol = NewOrderBook symbol"

definition RestoreOrder :: "Engine \<Rightarrow> EOrder \<Rightarrow> Engine" where
  "RestoreOrder e order = AddOrder e order"

section \<open>The matching loops\<close>

definition new_trade ::
  "(nat \<Rightarrow> uuid) \<Rightarrow> (nat \<Rightarrow> millis) \<Rightarrow> string \<Rightarrow> uuid \<Rightarrow> EOrder \<Rightarrow> decimal \<Rightarrow> nat \<Rightarrow> Trade" where
  "new_trade ids clk symbol taker maker matchQty n =
     \<lparr>tID = ids n, tSymbol = symbol, tMakerOrderID = eID maker, tTakerOrderID = taker,
      tPrice = ePrice maker, tQuantity = matchQty, tCreatedAt = clk n\<rparr>"

text \<open>Assigning to \<open>bestAsk.Quantity\<close> writes the order the book's slice points to.\<close>

definition store_best_ask :: "OrderBook \<Rightarrow> EOrder \<Rightarrow> OrderBook" where
  "store_best_ask ob x = ob\<lparr>asks := x # tl (asks ob)\<rparr>"

definition store_best_bid :: "OrderBook \<Rightarrow> EOrder \<Rightarrow> OrderBook" where
  "store_best_bid ob x = ob\<lparr>bids := x # tl (bids ob)\<rparr>"

function matchBuyOrder ::
  "(nat \<Rightarrow> uuid) \<Rightarrow> (nat \<Rightarrow> millis) \<Rightarrow> OrderBook \<Rightarrow> EOrder \<Rightarrow> Trade list
     \<Rightarrow> OrderBook \<times> EOrder \<times> Trade list" where
  "matchBuyOrder ids clk ob buyOrder trades =
     (case BestAsk ob of
        None \<Rightarrow> (ob, buyOrder, trades)
      | Some bestAsk \<Rightarrow>
          if eUserID buyOrder = eUserID bestAsk then (ob, buyOrder\<lparr>eQuantity := 0\<rparr>, trades)
          else if eType buyOrder \<noteq> eTypeMarket \<and> ePrice buyOrder < ePrice bestAsk
          then (ob, buyOrder, trades)
          else
            (let matchQty = (if eQuantity bestAsk < eQuantity buyOrder then eQuantity bestAsk
                             else eQuantity buyOrder);
                 trade = new_trade ids clk (obSymbol ob) (eID buyOrder) bestAsk matchQty (length trades);
                 trades' = trades @ [trade];
                 buyOrder' = buyOrder\<lparr>eQuantity := eQuantity buyOrder - matchQty\<rparr>;
                 bestAsk' = bestAsk\<lparr>eQuantity := eQuantity bestAsk - matchQty\<rparr>;
                 ob1 = store_best_ask ob bestAsk';
                 ob2 = (if eQuantity bestAsk' = 0 then RemoveBestAsk ob1 else ob1)
             in if eQuantity buyOrder' = 0 then (ob2, buyOrder', trades')
                else matchBuyOrder ids clk ob2 buyOrder' trades'))"
  by pat_completeness auto
termination
  by (relation "measure (\<lambda>(ids, clk, ob, buyOrder, trades). length (asks ob))")
     (auto simp: BestAsk_def store_best_ask_def split: list.splits if_splits)

function matchSellOrder ::
  "(nat \<Rightarrow> uuid) \<Rightarrow> (nat \<Rightarrow> millis) \<Rightarrow> OrderBook \<Rightarrow> EOrder \<Rightarrow> Trade list
     \<Rightarrow> OrderBook \<times> EOrder \<times> Trade list" where
  "matchSellOrder ids clk ob sellOrder trades =
     (case BestBid ob of
        None \<Rightarrow> (ob, sellOrder, trades)
      | Some bestBid \<Rightarrow>
          if eUserID sellOrder = eUserID bestBid then (ob, sellOrder\<lparr>eQuantity := 0\<rparr>, trades)
          else if eType sellOrder \<noteq> eTypeMarket \<and> ePrice sellOrder > ePrice bestBid
          then (ob, sellOrder, trades)
          else
            (let matchQty = (if eQuantity bestBid < eQuantity sellOrder then eQuantity bestBid
                             else eQuantity sellOrder);
                 trade = new_trade ids clk (obSymbol ob) (eID sellOrder) bestBid matchQty (length trades);
                 trades' = trades @ [trade];
                 sellOrder' = sellOrder\<lparr>eQuantity := eQuantity sellOrder - matchQty\<rparr>;
                 bestBid' = bestBid\<lparr>eQuantity := eQuantity bestBid - matchQty\<rparr>;
                 ob1 = store_best_bid ob bestBid';
                 ob2 = (if eQuantity bestBid' = 0 then RemoveBestBid ob1 else ob1)
             in if eQuantity sellOrder' = 0 then (ob2, sellOrder', trades')
                else matchSellOrder ids clk ob2 sellOrder' trades'))"
  by pat_completeness auto
termination
  by (relation "measure (\<lambda>(ids, clk, ob, sellOrder, trades). length (bids ob))")
     (auto simp: BestBid_def store_best_bid_def split: list.splits if_splits)

declare matchBuyOrder.simps [simp del] matchSellOrder.simps [simp del]

text \<open>\<open>Process\<close>: the book, the order as its pointer reads after the call, and the trades.\<close>

definition Process ::
  "(nat \<Rightarrow> uuid) \<Rightarrow> (nat \<Rightarrow> millis) \<Rightarrow> Engine \<Rightarrow> EOrder \<Rightarrow> Engine \<times> EOrder \<times> Trade list" where
  "Process ids clk e order =
     (let (ob, order', trades) =
            (if eSide order = eSideBuy then matchBuyOrder ids clk e order []
             else matchSellOrder ids clk e order [])
      in (if eQuantity order' > 0 \<and> eType order' \<noteq> eTypeMarket then AddOrder ob order' else ob,
          order', trades))"

definition Cancel :: "Engine \<Rightarrow> uuid \<Rightarrow> OrderSide \<Rightarrow> Engine \<times> bool" where
  "Cancel e orderID side = RemoveOrder e orderID side"

text \<open>The snapshot loops stop at index \<open>depth\<close> when \<open>depth\<close> is positive.\<close>

definition level_of :: "EOrder \<Rightarrow> OrderBookLevel" where
  "level_of x = \<lparr>lvlPrice = ePrice x, lvlQuantity = eQuantity x\<rparr>"

fun snapshot_levels :: "int \<Rightarrow> nat \<Rightarrow> EOrder list \<Rightarrow> OrderBookLevel list" where
  "snapshot_levels depth i [] = []"
| "snapshot_levels depth i (x # xs) =
     (if depth > 0 \<and> int i \<ge> depth then [] else level_of x # snapshot_levels depth (Suc i) xs)"

definition GetOrderBookSnapshot :: "Engine \<Rightarrow> int \<Rightarrow> OrderBookSnapshot" where
  "GetOrderBookSnapshot e depth =
     \<lparr>snSymbol = obSymbol e, snBids = snapshot_levels depth 0 (bids e),
      snAsks = snapshot_levels depth 0 (asks e), snFencingToken = 0\<rparr>"

section \<open>manager.go\<close>

text \<open>
  \<open>map[string]*Engine\<close> as an association list with distinct symbols. \<open>GetEngine\<close> returns the
  registry with the engine in it; a caller that mutates the engine it got stores it back with
  \<open>put_engine\<close>, which is the aliasing through the pointer.
\<close>

type_synonym EngineManager = "(string \<times> Engine) list"

definition NewEngineManager :: EngineManager where
  "NewEngineManager = []"

definition put_engine :: "EngineManager \<Rightarrow> string \<Rightarrow> Engine \<Rightarrow> EngineManager" where
  "put_engine m symbol e = AList.update symbol e m"

definition GetEngine :: "EngineManager \<Rightarrow> string \<Rightarrow> EngineManager \<times> Engine" where
  "GetEngine m symbol =
     (case map_of m symbol of
        Some engine \<Rightarrow> (m, engine)
      | None \<Rightarrow> (let engine = NewEngine symbol in (put_engine m symbol engine, engine)))"

definition GetSymbols :: "EngineManager \<Rightarrow> string list" where
  "GetSymbols m = map fst m"

definition Reset :: "EngineManager \<Rightarrow> EngineManager" where
  "Reset m = []"

section \<open>Abstract specification: a greedy sweep of one ladder\<close>

text \<open>
  \<open>fill u ok q ms\<close>: a taker of user \<open>u\<close> who wants \<open>q\<close> sweeps the makers \<open>ms\<close> in ladder order as
  long as \<open>ok\<close> accepts the maker's price: the fills, the quantity the taker keeps and the makers
  that stay. Meeting an own order drops what is left of the taker (cancel newest).
\<close>

fun fill :: "uuid \<Rightarrow> (EOrder \<Rightarrow> bool) \<Rightarrow> decimal \<Rightarrow> EOrder list
               \<Rightarrow> (EOrder \<times> decimal) list \<times> decimal \<times> EOrder list" where
  "fill u ok q [] = ([], q, [])"
| "fill u ok q (m # ms) =
     (if u = eUserID m then ([], 0, m # ms)
      else if \<not> ok m then ([], q, m # ms)
      else if eQuantity m < q
           then (let (fs, r, ms') = fill u ok (q - eQuantity m) ms in ((m, eQuantity m) # fs, r, ms'))
      else ([(m, q)], 0, if eQuantity m = q then ms else m\<lparr>eQuantity := eQuantity m - q\<rparr> # ms))"

text \<open>The trades of a sweep: the i-th fill becomes the i-th trade, at the maker's price.\<close>

fun trades_of ::
  "(nat \<Rightarrow> uuid) \<Rightarrow> (nat \<Rightarrow> millis) \<Rightarrow> string \<Rightarrow> uuid \<Rightarrow> nat \<Rightarrow> (EOrder \<times> decimal) list \<Rightarrow> Trade list" where
  "trades_of ids clk symbol taker n [] = []"
| "trades_of ids clk symbol taker n ((m, x) # fs) =
     new_trade ids clk symbol taker m x n # trades_of ids clk symbol taker (Suc n) fs"

subsection \<open>Facts of the sweep\<close>

abbreviation (input) fills :: "(EOrder \<times> decimal) list \<times> decimal \<times> EOrder list \<Rightarrow> (EOrder \<times> decimal) list" where
  "fills \<equiv> fst"
abbreviation (input) kept :: "(EOrder \<times> decimal) list \<times> decimal \<times> EOrder list \<Rightarrow> decimal" where
  "kept r \<equiv> fst (snd r)"
abbreviation (input) stay :: "(EOrder \<times> decimal) list \<times> decimal \<times> EOrder list \<Rightarrow> EOrder list" where
  "stay r \<equiv> snd (snd r)"

lemma fill_trades_accepted:
  "(m, x) \<in> set (fills (fill u ok q ms)) \<Longrightarrow> m \<in> set ms \<and> eUserID m \<noteq> u \<and> ok m"
  by (induction u ok q ms rule: fill.induct) (auto split: prod.splits if_splits)

lemma fill_trades_positive:
  "0 < q \<Longrightarrow> \<forall>m \<in> set ms. 0 < eQuantity m \<Longrightarrow> (m, x) \<in> set (fills (fill u ok q ms)) \<Longrightarrow>
   0 < x \<and> x \<le> eQuantity m"
  by (induction u ok q ms rule: fill.induct) (auto split: prod.splits if_splits)

lemma fill_kept_bounds:
  "0 < q \<Longrightarrow> \<forall>m \<in> set ms. 0 < eQuantity m \<Longrightarrow>
   0 \<le> kept (fill u ok q ms) \<and> kept (fill u ok q ms) \<le> q"
  by (induction u ok q ms rule: fill.induct) (fastforce split: prod.splits if_splits)+

lemma fill_quantity_balance:
  "kept (fill u ok q ms) \<noteq> 0 \<Longrightarrow> sum_list (map snd (fills (fill u ok q ms))) + kept (fill u ok q ms) = q"
  by (induction u ok q ms rule: fill.induct) (auto split: prod.splits if_splits)

lemma fill_sum_le:
  "0 < q \<Longrightarrow> \<forall>m \<in> set ms. 0 < eQuantity m \<Longrightarrow>
   sum_list (map snd (fills (fill u ok q ms))) + kept (fill u ok q ms) \<le> q"
  by (induction u ok q ms rule: fill.induct) (fastforce split: prod.splits if_splits)+

text \<open>What the makers lose is what the taker gets.\<close>

lemma fill_makers_balance:
  "sum_list (map eQuantity (stay (fill u ok q ms))) + sum_list (map snd (fills (fill u ok q ms)))
     = sum_list (map eQuantity ms)"
  by (induction u ok q ms rule: fill.induct) (auto split: prod.splits if_splits)

text \<open>The makers hit are a prefix of the ladder and at most the last one stays, reduced.\<close>

lemma fill_prefix:
  "map fst (fills (fill u ok q ms)) = take (length (fills (fill u ok q ms))) ms"
  by (induction u ok q ms rule: fill.induct) (auto split: prod.splits if_splits)

lemma fill_stay_ids:
  "\<exists>k. map eID (stay (fill u ok q ms)) = drop k (map eID ms) \<and>
       map ePrice (stay (fill u ok q ms)) = drop k (map ePrice ms) \<and>
       map eSide (stay (fill u ok q ms)) = drop k (map eSide ms) \<and>
       map eType (stay (fill u ok q ms)) = drop k (map eType ms)"
proof (induction u ok q ms rule: fill.induct)
  case (1 u ok q)
  then show ?case by simp
next
  case (2 u ok q m ms)
  show ?case
  proof (cases "u \<noteq> eUserID m \<and> ok m \<and> eQuantity m < q")
    case True
    with 2 obtain k where k:
      "map eID (stay (fill u ok (q - eQuantity m) ms)) = drop k (map eID ms)"
      "map ePrice (stay (fill u ok (q - eQuantity m) ms)) = drop k (map ePrice ms)"
      "map eSide (stay (fill u ok (q - eQuantity m) ms)) = drop k (map eSide ms)"
      "map eType (stay (fill u ok (q - eQuantity m) ms)) = drop k (map eType ms)"
      by auto
    with True show ?thesis
      by (intro exI [of _ "Suc k"]) (auto split: prod.splits)
  next
    case False
    then show ?thesis
      by (cases "u \<noteq> eUserID m \<and> ok m \<and> eQuantity m = q")
         (auto intro: exI [of _ "0::nat"] exI [of _ "Suc 0"])
  qed
qed

lemma fill_stay_positive:
  "\<forall>m \<in> set ms. 0 < eQuantity m \<Longrightarrow> \<forall>m \<in> set (stay (fill u ok q ms)). 0 < eQuantity m"
  by (induction u ok q ms rule: fill.induct) (auto split: prod.splits if_splits)

lemma fill_stay_from:
  "m' \<in> set (stay (fill u ok q ms)) \<Longrightarrow>
   \<exists>m \<in> set ms. eID m' = eID m \<and> ePrice m' = ePrice m \<and> eUserID m' = eUserID m \<and>
     eSide m' = eSide m \<and> eType m' = eType m"
  by (induction u ok q ms rule: fill.induct) (auto split: prod.splits if_splits)

text \<open>A taker that keeps a quantity met the end of the ladder or a price it does not accept.\<close>

lemma fill_stops:
  "kept (fill u ok q ms) \<noteq> 0 \<Longrightarrow>
   stay (fill u ok q ms) = [] \<or>
   (\<exists>m ms'. stay (fill u ok q ms) = m # ms' \<and> m \<in> set ms \<and> \<not> ok m)"
  by (induction u ok q ms rule: fill.induct) (auto split: prod.splits if_splits)

lemma trades_of_map:
  "map tQuantity (trades_of ids clk s tk n fs) = map snd fs"
  "map tPrice (trades_of ids clk s tk n fs) = map (ePrice \<circ> fst) fs"
  "map tMakerOrderID (trades_of ids clk s tk n fs) = map (eID \<circ> fst) fs"
  "map tID (trades_of ids clk s tk n fs) = map ids [n..<n + length fs]"
  "length (trades_of ids clk s tk n fs) = length fs"
proof (induction fs arbitrary: n)
  case (Cons a fs)
  { case 1 show ?case using Cons by (cases a) (simp add: new_trade_def) }
  { case 2 show ?case using Cons by (cases a) (simp add: new_trade_def) }
  { case 3 show ?case using Cons by (cases a) (simp add: new_trade_def) }
  { case 4 show ?case using Cons by (cases a) (simp add: new_trade_def upt_rec) }
  { case 5 show ?case using Cons by (cases a) simp }
qed simp_all

lemma trades_of_member:
  "t \<in> set (trades_of ids clk s tk n fs) \<Longrightarrow>
   \<exists>m x i. (m, x) \<in> set fs \<and> t = new_trade ids clk s tk m x i"
  by (induction fs arbitrary: n) (simp, fastforce)

section \<open>The interface of a matching loop\<close>

text \<open>
  One side of the book as a matching loop uses it: a price ladder whose best order can be written
  back or dropped, and the loop's own unfolding. \<open>set_ladder\<close> replaces the whole ladder.
\<close>

locale match_side = price_ladder key ladder mine put best drop_best
  for key :: "EOrder \<Rightarrow> decimal" and ladder :: "OrderBook \<Rightarrow> EOrder list" and mine :: "EOrder \<Rightarrow> bool"
    and put :: "OrderBook \<Rightarrow> EOrder \<Rightarrow> OrderBook" and best :: "OrderBook \<Rightarrow> EOrder option"
    and drop_best :: "OrderBook \<Rightarrow> OrderBook" +
  fixes set_ladder :: "OrderBook \<Rightarrow> EOrder list \<Rightarrow> OrderBook"
    and accepts :: "OrderType \<Rightarrow> decimal \<Rightarrow> EOrder \<Rightarrow> bool"
    and loop :: "OrderBook \<Rightarrow> EOrder \<Rightarrow> Trade list \<Rightarrow> OrderBook \<times> EOrder \<times> Trade list"
    and ids :: "nat \<Rightarrow> uuid" and clk :: "nat \<Rightarrow> millis"
  assumes ladder_set [simp]: "ladder (set_ladder ob xs) = xs"
    and set_ladder_twice [simp]: "set_ladder (set_ladder ob xs) ys = set_ladder ob ys"
    and set_ladder_same [simp]: "set_ladder ob (ladder ob) = ob"
    and symbol_set_ladder [simp]: "obSymbol (set_ladder ob xs) = obSymbol ob"
    and loop_empty: "ladder ob = [] \<Longrightarrow> loop ob tk trades = (ob, tk, trades)"
    and loop_step: "ladder ob = m # ms \<Longrightarrow> loop ob tk trades =
      (if eUserID tk = eUserID m then (ob, tk\<lparr>eQuantity := 0\<rparr>, trades)
       else if \<not> accepts (eType tk) (ePrice tk) m then (ob, tk, trades)
       else if eQuantity m < eQuantity tk
            then loop (set_ladder ob ms) (tk\<lparr>eQuantity := eQuantity tk - eQuantity m\<rparr>)
                   (trades @ [new_trade ids clk (obSymbol ob) (eID tk) m (eQuantity m) (length trades)])
       else (set_ladder ob (if eQuantity m = eQuantity tk then ms
                            else m\<lparr>eQuantity := eQuantity m - eQuantity tk\<rparr> # ms),
             tk\<lparr>eQuantity := 0\<rparr>,
             trades @ [new_trade ids clk (obSymbol ob) (eID tk) m (eQuantity tk) (length trades)]))"
begin

theorem loop_fill:
  "loop ob tk trades =
     (let (fs, r, ms') = fill (eUserID tk) (accepts (eType tk) (ePrice tk)) (eQuantity tk) (ladder ob)
      in (set_ladder ob ms', tk\<lparr>eQuantity := r\<rparr>,
          trades @ trades_of ids clk (obSymbol ob) (eID tk) (length trades) fs))"
proof (induction "ladder ob" arbitrary: ob tk trades)
  case Nil
  then have "set_ladder ob [] = ob" by (metis set_ladder_same)
  with Nil show ?case by (simp add: loop_empty)
next
  case (Cons m ms)
  have l: "ladder ob = m # ms" using Cons.hyps(2) by simp
  then have same: "set_ladder ob (m # ms) = ob" by (metis set_ladder_same)
  show ?case
  proof (cases "eUserID tk \<noteq> eUserID m \<and> accepts (eType tk) (ePrice tk) m \<and> eQuantity m < eQuantity tk")
    case True
    with l Cons.hyps(1) [of "set_ladder ob ms"] show ?thesis
      by (simp add: loop_step split: prod.splits)
  next
    case False
    with l same show ?thesis by (auto simp: loop_step)
  qed
qed

end

definition accepts_buy :: "OrderType \<Rightarrow> decimal \<Rightarrow> EOrder \<Rightarrow> bool" where
  "accepts_buy typ price m \<longleftrightarrow> typ = eTypeMarket \<or> ePrice m \<le> price"

definition accepts_sell :: "OrderType \<Rightarrow> decimal \<Rightarrow> EOrder \<Rightarrow> bool" where
  "accepts_sell typ price m \<longleftrightarrow> typ = eTypeMarket \<or> price \<le> ePrice m"

interpretation buy: match_side ask_key asks "\<lambda>x. eSide x \<noteq> eSideBuy" AddOrder BestAsk RemoveBestAsk
  "\<lambda>ob xs. ob\<lparr>asks := xs\<rparr>" accepts_buy "matchBuyOrder ids clk" ids clk
proof unfold_locales
  fix ob :: OrderBook and tk m :: EOrder and ms :: "EOrder list" and trades :: "Trade list"
  show "asks ob = [] \<Longrightarrow> matchBuyOrder ids clk ob tk trades = (ob, tk, trades)"
    by (simp add: matchBuyOrder.simps BestAsk_def)
  assume "asks ob = m # ms"
  then show "matchBuyOrder ids clk ob tk trades =
      (if eUserID tk = eUserID m then (ob, tk\<lparr>eQuantity := 0\<rparr>, trades)
       else if \<not> accepts_buy (eType tk) (ePrice tk) m then (ob, tk, trades)
       else if eQuantity m < eQuantity tk
            then matchBuyOrder ids clk (ob\<lparr>asks := ms\<rparr>) (tk\<lparr>eQuantity := eQuantity tk - eQuantity m\<rparr>)
                   (trades @ [new_trade ids clk (obSymbol ob) (eID tk) m (eQuantity m) (length trades)])
       else (ob\<lparr>asks := if eQuantity m = eQuantity tk then ms
                        else m\<lparr>eQuantity := eQuantity m - eQuantity tk\<rparr> # ms\<rparr>,
             tk\<lparr>eQuantity := 0\<rparr>,
             trades @ [new_trade ids clk (obSymbol ob) (eID tk) m (eQuantity tk) (length trades)]))"
    by (subst matchBuyOrder.simps)
       (auto simp: BestAsk_def accepts_buy_def store_best_ask_def RemoveBest_eq not_less Let_def)
qed simp_all

interpretation sell: match_side bid_key bids "\<lambda>x. eSide x = eSideBuy" AddOrder BestBid RemoveBestBid
  "\<lambda>ob xs. ob\<lparr>bids := xs\<rparr>" accepts_sell "matchSellOrder ids clk" ids clk
proof unfold_locales
  fix ob :: OrderBook and tk m :: EOrder and ms :: "EOrder list" and trades :: "Trade list"
  show "bids ob = [] \<Longrightarrow> matchSellOrder ids clk ob tk trades = (ob, tk, trades)"
    by (simp add: matchSellOrder.simps BestBid_def)
  assume "bids ob = m # ms"
  then show "matchSellOrder ids clk ob tk trades =
      (if eUserID tk = eUserID m then (ob, tk\<lparr>eQuantity := 0\<rparr>, trades)
       else if \<not> accepts_sell (eType tk) (ePrice tk) m then (ob, tk, trades)
       else if eQuantity m < eQuantity tk
            then matchSellOrder ids clk (ob\<lparr>bids := ms\<rparr>) (tk\<lparr>eQuantity := eQuantity tk - eQuantity m\<rparr>)
                   (trades @ [new_trade ids clk (obSymbol ob) (eID tk) m (eQuantity m) (length trades)])
       else (ob\<lparr>bids := if eQuantity m = eQuantity tk then ms
                        else m\<lparr>eQuantity := eQuantity m - eQuantity tk\<rparr> # ms\<rparr>,
             tk\<lparr>eQuantity := 0\<rparr>,
             trades @ [new_trade ids clk (obSymbol ob) (eID tk) m (eQuantity tk) (length trades)]))"
    by (subst matchSellOrder.simps)
       (auto simp: BestBid_def accepts_sell_def store_best_bid_def RemoveBest_eq not_less Let_def)
qed simp_all

section \<open>Process over the sweep\<close>

lemma Process_buy:
  assumes "eSide order = eSideBuy"
    and "fill (eUserID order) (accepts_buy (eType order) (ePrice order)) (eQuantity order) (asks e) = (fs, r, ms)"
  shows "Process ids clk e order =
    (if 0 < r \<and> eType order \<noteq> eTypeMarket
     then AddOrder (e\<lparr>asks := ms\<rparr>) (order\<lparr>eQuantity := r\<rparr>) else e\<lparr>asks := ms\<rparr>,
     order\<lparr>eQuantity := r\<rparr>, trades_of ids clk (obSymbol e) (eID order) 0 fs)"
  using assms by (simp add: Process_def buy.loop_fill)

lemma Process_sell:
  assumes "eSide order \<noteq> eSideBuy"
    and "fill (eUserID order) (accepts_sell (eType order) (ePrice order)) (eQuantity order) (bids e) = (fs, r, ms)"
  shows "Process ids clk e order =
    (if 0 < r \<and> eType order \<noteq> eTypeMarket
     then AddOrder (e\<lparr>bids := ms\<rparr>) (order\<lparr>eQuantity := r\<rparr>) else e\<lparr>bids := ms\<rparr>,
     order\<lparr>eQuantity := r\<rparr>, trades_of ids clk (obSymbol e) (eID order) 0 fs)"
  using assms by (simp add: Process_def sell.loop_fill)

text \<open>The ladder an order sweeps and the prices it accepts.\<close>

definition opposite :: "Engine \<Rightarrow> EOrder \<Rightarrow> EOrder list" where
  "opposite e order = (if eSide order = eSideBuy then asks e else bids e)"

definition accepts :: "EOrder \<Rightarrow> EOrder \<Rightarrow> bool" where
  "accepts order m = (if eSide order = eSideBuy then accepts_buy (eType order) (ePrice order) m
                      else accepts_sell (eType order) (ePrice order) m)"

definition sweep :: "Engine \<Rightarrow> EOrder \<Rightarrow> (EOrder \<times> decimal) list \<times> decimal \<times> EOrder list" where
  "sweep e order = fill (eUserID order) (accepts order) (eQuantity order) (opposite e order)"

lemma sweep_buy:
  "eSide order = eSideBuy \<Longrightarrow> sweep e order =
     fill (eUserID order) (accepts_buy (eType order) (ePrice order)) (eQuantity order) (asks e)"
  by (simp add: sweep_def opposite_def accepts_def [abs_def])

lemma sweep_sell:
  "eSide order \<noteq> eSideBuy \<Longrightarrow> sweep e order =
     fill (eUserID order) (accepts_sell (eType order) (ePrice order)) (eQuantity order) (bids e)"
  by (simp add: sweep_def opposite_def accepts_def [abs_def])

lemma Process_trades:
  "snd (snd (Process ids clk e order)) =
     trades_of ids clk (obSymbol e) (eID order) 0 (fills (sweep e order))"
proof (cases "eSide order = eSideBuy")
  case True
  obtain fs r ms where f: "sweep e order = (fs, r, ms)" by (cases "sweep e order")
  with True Process_buy [OF True] show ?thesis by (simp add: sweep_buy)
next
  case False
  obtain fs r ms where f: "sweep e order = (fs, r, ms)" by (cases "sweep e order")
  with False Process_sell [OF False] show ?thesis by (simp add: sweep_sell)
qed

lemma Process_order:
  "fst (snd (Process ids clk e order)) = order\<lparr>eQuantity := kept (sweep e order)\<rparr>"
proof (cases "eSide order = eSideBuy")
  case True
  obtain fs r ms where f: "sweep e order = (fs, r, ms)" by (cases "sweep e order")
  with True Process_buy [OF True] show ?thesis by (simp add: sweep_buy)
next
  case False
  obtain fs r ms where f: "sweep e order = (fs, r, ms)" by (cases "sweep e order")
  with False Process_sell [OF False] show ?thesis by (simp add: sweep_sell)
qed

section \<open>The invariant of a book\<close>

definition resting_ok :: "(EOrder \<Rightarrow> bool) \<Rightarrow> EOrder \<Rightarrow> bool" where
  "resting_ok mine x \<longleftrightarrow> mine x \<and> eType x \<noteq> eTypeMarket \<and> 0 < eQuantity x"

definition book_ok :: "OrderBook \<Rightarrow> bool" where
  "book_ok ob \<longleftrightarrow> sorted (map bid_key (bids ob)) \<and> sorted (map ask_key (asks ob)) \<and>
     (\<forall>x \<in> set (bids ob). resting_ok (\<lambda>x. eSide x = eSideBuy) x) \<and>
     (\<forall>x \<in> set (asks ob). resting_ok (\<lambda>x. eSide x \<noteq> eSideBuy) x) \<and>
     distinct (map eID (bids ob @ asks ob))"

definition uncrossed :: "OrderBook \<Rightarrow> bool" where
  "uncrossed ob \<longleftrightarrow> (\<forall>b \<in> set (bids ob). \<forall>a \<in> set (asks ob). ePrice b < ePrice a)"

lemma book_ok_empty: "book_ok (NewOrderBook s)" and uncrossed_empty: "uncrossed (NewOrderBook s)"
  by (simp_all add: book_ok_def uncrossed_def NewOrderBook_def)

text \<open>Replacing one ladder by what a sweep leaves of it keeps the invariant.\<close>

definition shrinks :: "EOrder list \<Rightarrow> EOrder list \<Rightarrow> bool" where
  "shrinks ms ms' \<longleftrightarrow> (\<exists>k. map eID ms' = drop k (map eID ms) \<and> map ePrice ms' = drop k (map ePrice ms)) \<and>
     (\<forall>m' \<in> set ms'. 0 < eQuantity m' \<and> (\<exists>m \<in> set ms. eID m' = eID m \<and> ePrice m' = ePrice m \<and>
        eUserID m' = eUserID m \<and> eSide m' = eSide m \<and> eType m' = eType m))"

lemma fill_shrinks:
  assumes "\<forall>m \<in> set ms. 0 < eQuantity m"
  shows "shrinks ms (stay (fill u ok q ms))"
  using fill_stay_ids [of u ok q ms] fill_stay_positive [OF assms, of u ok q] fill_stay_from [of _ u ok q ms]
  unfolding shrinks_def by blast

lemma shrinks_sorted:
  assumes "shrinks ms ms'" and "sorted (map ePrice ms)" shows "sorted (map ePrice ms')"
  using assms by (auto simp: shrinks_def sorted_wrt_drop)

lemma shrinks_sorted_neg:
  assumes "shrinks ms ms'" and "sorted (map (\<lambda>x. - ePrice x) ms)"
  shows "sorted (map (\<lambda>x. - ePrice x) ms')"
proof -
  have neg: "map (\<lambda>x. - ePrice x) xs = map uminus (map ePrice xs)" for xs by simp
  from assms(1) obtain k where "map ePrice ms' = drop k (map ePrice ms)"
    by (auto simp: shrinks_def)
  then have "map (\<lambda>x. - ePrice x) ms' = drop k (map (\<lambda>x. - ePrice x) ms)"
    by (simp only: neg drop_map)
  with assms(2) show ?thesis by (simp add: sorted_wrt_drop)
qed

lemma shrinks_ids: "shrinks ms ms' \<Longrightarrow> eID ` set ms' \<subseteq> eID ` set ms"
  by (force simp: shrinks_def)

lemma shrinks_distinct: "shrinks ms ms' \<Longrightarrow> distinct (map eID ms) \<Longrightarrow> distinct (map eID ms')"
  by (auto simp: shrinks_def)

lemma shrinks_resting:
  "shrinks ms ms' \<Longrightarrow> (\<And>x y. eSide x = eSide y \<Longrightarrow> mine x = mine y) \<Longrightarrow>
   \<forall>m \<in> set ms. resting_ok mine m \<Longrightarrow> \<forall>m \<in> set ms'. resting_ok mine m"
  unfolding shrinks_def resting_ok_def by metis

end
