(* ===== verification/Engine_Correct.thy ===== *)
theory Engine_Correct
  imports Engine
begin

text \<open>
  Correctness of the matching engine: the book invariant and the uncrossed book under every
  operation, conservation of quantity, prices and priority of the trades, self trade prevention,
  agreement of the fund estimate with the execution of the market order, and the registry.
\<close>

section \<open>The book invariant under the operations\<close>

lemma sorted_bid_key: "sorted (map bid_key xs) = sorted (map (\<lambda>x. - ePrice x) xs)"
  by (simp add: bid_key_def [abs_def])

lemma sorted_ask_key: "sorted (map ask_key xs) = sorted (map ePrice xs)"
  by (simp add: ask_key_def [abs_def])

lemma book_ok_set_asks:
  assumes "book_ok ob" and "shrinks (asks ob) ms"
  shows "book_ok (ob\<lparr>asks := ms\<rparr>)"
proof -
  from assms have "\<forall>x \<in> set ms. resting_ok (\<lambda>x. eSide x \<noteq> eSideBuy) x"
    using shrinks_resting [OF assms(2), where mine = "\<lambda>x. eSide x \<noteq> eSideBuy"]
    by (simp add: book_ok_def)
  moreover from assms have "sorted (map ask_key ms)"
    by (auto simp: book_ok_def sorted_ask_key intro: shrinks_sorted)
  moreover have "distinct (map eID (bids ob @ ms))"
    using assms shrinks_ids [OF assms(2)] shrinks_distinct [OF assms(2)]
    by (simp add: book_ok_def) blast
  ultimately show ?thesis
    using assms(1) by (simp add: book_ok_def)
qed

lemma book_ok_set_bids:
  assumes "book_ok ob" and "shrinks (bids ob) ms"
  shows "book_ok (ob\<lparr>bids := ms\<rparr>)"
proof -
  from assms have "\<forall>x \<in> set ms. resting_ok (\<lambda>x. eSide x = eSideBuy) x"
    using shrinks_resting [OF assms(2), where mine = "\<lambda>x. eSide x = eSideBuy"]
    by (simp add: book_ok_def)
  moreover from assms have "sorted (map bid_key ms)"
    by (auto simp: book_ok_def sorted_bid_key intro: shrinks_sorted_neg)
  moreover have "distinct (map eID (ms @ asks ob))"
    using assms shrinks_ids [OF assms(2)] shrinks_distinct [OF assms(2)]
    by (simp add: book_ok_def) blast
  ultimately show ?thesis
    using assms(1) by (simp add: book_ok_def)
qed

lemma book_ok_AddOrder:
  assumes "book_ok ob" and "eType x \<noteq> eTypeMarket" and "0 < eQuantity x"
    and "eID x \<notin> eID ` set (bids ob @ asks ob)"
  shows "book_ok (AddOrder ob x)"
proof -
  have d: "distinct (map eID (sort_key f (xs @ [x])))" if "distinct (map eID (xs @ [x]))"
    for f :: "EOrder \<Rightarrow> decimal" and xs
    using that by (auto simp: distinct_map)
  from assms show ?thesis
    using d [of "bids ob" bid_key] d [of "asks ob" ask_key]
    by (auto simp: book_ok_def resting_ok_def image_iff)
qed

lemma uncrossed_shrink_asks:
  "uncrossed ob \<Longrightarrow> shrinks (asks ob) ms \<Longrightarrow> uncrossed (ob\<lparr>asks := ms\<rparr>)"
  unfolding uncrossed_def shrinks_def by simp metis

lemma uncrossed_shrink_bids:
  "uncrossed ob \<Longrightarrow> shrinks (bids ob) ms \<Longrightarrow> uncrossed (ob\<lparr>bids := ms\<rparr>)"
  unfolding uncrossed_def shrinks_def by simp metis

lemma rest_above_buy:
  assumes "kept (fill u (accepts_buy typ p) q ms) \<noteq> 0" and "typ \<noteq> eTypeMarket"
    and "sorted (map ePrice (stay (fill u (accepts_buy typ p) q ms)))"
    and "a \<in> set (stay (fill u (accepts_buy typ p) q ms))"
  shows "p < ePrice a"
  using fill_stops [OF assms(1)] assms(2-4) by (force simp: accepts_buy_def)

lemma rest_below_sell:
  assumes "kept (fill u (accepts_sell typ p) q ms) \<noteq> 0" and "typ \<noteq> eTypeMarket"
    and "sorted (map (\<lambda>x. - ePrice x) (stay (fill u (accepts_sell typ p) q ms)))"
    and "b \<in> set (stay (fill u (accepts_sell typ p) q ms))"
  shows "ePrice b < p"
  using fill_stops [OF assms(1)] assms(2-4) by (force simp: accepts_sell_def)

lemma book_ok_positive:
  "book_ok ob \<Longrightarrow> \<forall>m \<in> set (asks ob). 0 < eQuantity m"
  "book_ok ob \<Longrightarrow> \<forall>m \<in> set (bids ob). 0 < eQuantity m"
  by (auto simp: book_ok_def resting_ok_def)

lemma Process_keeps_book:
  assumes "book_ok e" and "uncrossed e" and "0 < eQuantity order"
    and "eID order \<notin> eID ` set (bids e @ asks e)"
  shows "book_ok (fst (Process ids clk e order)) \<and> uncrossed (fst (Process ids clk e order))"
proof (cases "eSide order = eSideBuy")
  case True
  obtain fs r ms where f: "fill (eUserID order) (accepts_buy (eType order) (ePrice order))
      (eQuantity order) (asks e) = (fs, r, ms)" by (metis prod_cases3)
  have sh: "shrinks (asks e) ms"
    using fill_shrinks [OF book_ok_positive(1) [OF assms(1)]] f by (metis snd_conv)
  note ok = book_ok_set_asks [OF assms(1) sh] and un = uncrossed_shrink_asks [OF assms(2) sh]
  have p_lt: "ePrice order < ePrice a" if "0 < r" "eType order \<noteq> eTypeMarket" "a \<in> set ms" for a
    using rest_above_buy [of "eUserID order" "eType order" "ePrice order" "eQuantity order" "asks e" a]
      f that ok by (simp add: book_ok_def sorted_ask_key)
  have "eID order \<notin> eID ` set (bids e @ ms)"
    using assms(4) shrinks_ids [OF sh] by auto
  with ok have add: "book_ok (AddOrder (e\<lparr>asks := ms\<rparr>) (order\<lparr>eQuantity := r\<rparr>))"
    if "0 < r" "eType order \<noteq> eTypeMarket"
    using that by (intro book_ok_AddOrder) auto
  moreover have "uncrossed (AddOrder (e\<lparr>asks := ms\<rparr>) (order\<lparr>eQuantity := r\<rparr>))"
    if "0 < r" "eType order \<noteq> eTypeMarket"
    using un p_lt that True by (auto simp: uncrossed_def)
  ultimately show ?thesis
    using ok un by (simp add: Process_buy [OF True f])
next
  case False
  obtain fs r ms where f: "fill (eUserID order) (accepts_sell (eType order) (ePrice order))
      (eQuantity order) (bids e) = (fs, r, ms)" by (metis prod_cases3)
  have sh: "shrinks (bids e) ms"
    using fill_shrinks [OF book_ok_positive(2) [OF assms(1)]] f by (metis snd_conv)
  note ok = book_ok_set_bids [OF assms(1) sh] and un = uncrossed_shrink_bids [OF assms(2) sh]
  have p_lt: "ePrice b < ePrice order" if "0 < r" "eType order \<noteq> eTypeMarket" "b \<in> set ms" for b
    using rest_below_sell [of "eUserID order" "eType order" "ePrice order" "eQuantity order" "bids e" b]
      f that ok by (simp add: book_ok_def sorted_bid_key)
  have "eID order \<notin> eID ` set (ms @ asks e)"
    using assms(4) shrinks_ids [OF sh] by auto
  with ok have add: "book_ok (AddOrder (e\<lparr>bids := ms\<rparr>) (order\<lparr>eQuantity := r\<rparr>))"
    if "0 < r" "eType order \<noteq> eTypeMarket"
    using that by (intro book_ok_AddOrder) auto
  moreover have "uncrossed (AddOrder (e\<lparr>bids := ms\<rparr>) (order\<lparr>eQuantity := r\<rparr>))"
    if "0 < r" "eType order \<noteq> eTypeMarket"
    using un p_lt that False by (auto simp: uncrossed_def)
  ultimately show ?thesis
    using ok un by (simp add: Process_sell [OF False f])
qed

text \<open>
  C5: \<open>Engine.Process\<close> keeps the book well formed (both ladders sorted by price, only limit orders
  with a positive quantity, no duplicate identifiers) and never leaves a crossed book.
\<close>

theorem Process_book_invariant:
  assumes "book_ok e" and "uncrossed e" and "0 < eQuantity order"
    and "eID order \<notin> eID ` set (bids e @ asks e)"
  shows "book_ok (fst (Process ids clk e order)) \<and> uncrossed (fst (Process ids clk e order))"
  using assms by (rule Process_keeps_book)

text \<open>The book the witnesses use: two asks of users 11 and 12 and one bid of user 13.\<close>

definition demo_book :: OrderBook where
  "demo_book = \<lparr>obSymbol = ''BTC-USD'', bids = [NewOrder 3 13 eSideBuy 90 4],
     asks = [NewOrder 1 11 eSideSell 100 2, NewOrder 2 12 eSideSell 101 3]\<rparr>"

lemma demo_book_ok: "book_ok demo_book" and demo_book_uncrossed: "uncrossed demo_book"
  by (simp_all add: demo_book_def NewOrder_def book_ok_def resting_ok_def uncrossed_def
        bid_key_def ask_key_def)

theorem Process_book_invariant_witness:
  "book_ok (fst (Process of_nat int demo_book (NewOrder 4 14 eSideBuy 100 5))) \<and>
   uncrossed (fst (Process of_nat int demo_book (NewOrder 4 14 eSideBuy 100 5)))"
  by (rule Process_book_invariant [OF demo_book_ok demo_book_uncrossed])
     (simp_all add: NewOrder_def demo_book_def)

section \<open>Quantities, prices and priority of the trades\<close>

lemma fill_balance_or_own:
  "sum_list (map snd (fills (fill u ok q ms))) + kept (fill u ok q ms) = q \<or>
   kept (fill u ok q ms) = 0 \<and>
   (\<exists>m ms'. stay (fill u ok q ms) = m # ms' \<and> eUserID m = u \<and> m \<in> set ms)"
  by (induction u ok q ms rule: fill.induct) (auto split: prod.splits)

lemma Process_opposite:
  "opposite (fst (Process ids clk e order)) order = stay (sweep e order)"
proof (cases "eSide order = eSideBuy")
  case True
  obtain fs r ms where f: "sweep e order = (fs, r, ms)" by (cases "sweep e order")
  with True Process_buy [OF True] show ?thesis by (simp add: sweep_buy opposite_def)
next
  case False
  obtain fs r ms where f: "sweep e order = (fs, r, ms)" by (cases "sweep e order")
  with False Process_sell [OF False] show ?thesis by (simp add: sweep_sell opposite_def)
qed

lemma opposite_positive: "book_ok e \<Longrightarrow> \<forall>m \<in> set (opposite e order). 0 < eQuantity m"
  by (simp add: opposite_def book_ok_positive)

text \<open>
  C9: quantity is conserved by \<open>Engine.Process\<close>. The resting orders of the opposite side lose
  exactly what is traded, and the incoming order is split into what is traded and what it keeps,
  unless the sweep met an order of the same user, in which case it keeps nothing.
\<close>

theorem Process_conserves_quantity:
  fixes e :: Engine and order :: EOrder and ids clk
  defines "res \<equiv> Process ids clk e order"
  defines "traded \<equiv> sum_list (map tQuantity (snd (snd res)))"
  shows "sum_list (map eQuantity (opposite (fst res) order)) + traded
           = sum_list (map eQuantity (opposite e order)) \<and>
         (traded + eQuantity (fst (snd res)) = eQuantity order \<or>
          eQuantity (fst (snd res)) = 0 \<and>
          (\<exists>m ms. opposite (fst res) order = m # ms \<and> eUserID m = eUserID order))"
  using fill_balance_or_own [of "eUserID order" "accepts order" "eQuantity order" "opposite e order"]
  unfolding res_def traded_def Process_opposite Process_trades Process_order trades_of_map
  by (auto simp: sweep_def fill_makers_balance)

text \<open>
  C10: every trade of \<open>Engine.Process\<close> is with a resting order of another user on the opposite side,
  at that order's price, within the limit of the incoming order (a market order has none), for a
  positive quantity the resting order had.
\<close>

theorem Process_trades_sound:
  assumes "book_ok e" and "0 < eQuantity order"
    and "t \<in> set (snd (snd (Process ids clk e order)))"
  shows "\<exists>m \<in> set (opposite e order). tMakerOrderID t = eID m \<and> tTakerOrderID t = eID order \<and>
           tSymbol t = obSymbol e \<and> eUserID m \<noteq> eUserID order \<and> tPrice t = ePrice m \<and>
           0 < tQuantity t \<and> tQuantity t \<le> eQuantity m \<and>
           (eType order \<noteq> eTypeMarket \<longrightarrow>
              (if eSide order = eSideBuy then tPrice t \<le> ePrice order else ePrice order \<le> tPrice t))"
proof -
  from assms(3) obtain m x i where mx: "(m, x) \<in> set (fills (sweep e order))"
    and t: "t = new_trade ids clk (obSymbol e) (eID order) m x i"
    unfolding Process_trades by (blast dest: trades_of_member)
  have "m \<in> set (opposite e order) \<and> eUserID m \<noteq> eUserID order \<and> accepts order m"
    using fill_trades_accepted mx unfolding sweep_def by metis
  moreover have "0 < x \<and> x \<le> eQuantity m"
    using fill_trades_positive [OF assms(2) opposite_positive [OF assms(1)]] mx
    unfolding sweep_def by blast
  ultimately show ?thesis
    unfolding t by (auto simp: new_trade_def accepts_def accepts_buy_def accepts_sell_def)
qed

theorem Process_trades_sound_witness:
  "\<exists>m \<in> set (opposite demo_book (NewOrder 4 14 eSideBuy 100 5)). 1 = eID m \<and> (100::rat) = ePrice m"
proof -
  let ?o = "NewOrder 4 14 eSideBuy 100 5"
  let ?t = "new_trade of_nat int ''BTC-USD'' 4 (NewOrder 1 11 eSideSell 100 2) 2 0"
  have "?t \<in> set (snd (snd (Process of_nat int demo_book ?o)))"
    by (simp add: Process_trades sweep_def opposite_def accepts_def accepts_buy_def demo_book_def NewOrder_def)
  from Process_trades_sound [OF demo_book_ok _ this]
  show ?thesis by (auto simp: NewOrder_def new_trade_def)
qed

lemma fill_all_but_last_full:
  "(m, x) \<in> set (butlast (fills (fill u ok q ms))) \<Longrightarrow> x = eQuantity m"
proof (induction u ok q ms rule: fill.induct)
  case (2 u ok q m ms)
  then show ?case
    by (cases "fills (fill u ok (q - eQuantity m) ms)") (auto split: prod.splits if_splits)
qed simp

lemma trades_of_butlast:
  "butlast (trades_of ids clk s tk n fs) = trades_of ids clk s tk n (butlast fs)"
proof (induction fs arbitrary: n)
  case (Cons f fs)
  then show ?case by (cases f; cases fs) auto
qed simp


text \<open>
  Time priority of resting orders. \<open>AddOrder\<close> puts an order behind every resting order of its
  side at the same or a better price and before every order at a worse price.
\<close>

theorem AddOrder_position:
  assumes "book_ok ob"
  shows "(eSide x = eSideBuy \<longrightarrow> bids (AddOrder ob x) =
            filter (\<lambda>y. ePrice x \<le> ePrice y) (bids ob) @ x # filter (\<lambda>y. ePrice y < ePrice x) (bids ob)) \<and>
         (eSide x \<noteq> eSideBuy \<longrightarrow> asks (AddOrder ob x) =
            filter (\<lambda>y. ePrice y \<le> ePrice x) (asks ob) @ x # filter (\<lambda>y. ePrice x < ePrice y) (asks ob))"
  using assms bid.put_position [of x ob] ask.put_position [of x ob]
  by (simp add: book_ok_def bid_key_def ask_key_def)

theorem AddOrder_position_witness:
  "asks (AddOrder demo_book (NewOrder 5 15 eSideSell 100 1)) =
     [NewOrder 1 11 eSideSell 100 2, NewOrder 5 15 eSideSell 100 1, NewOrder 2 12 eSideSell 101 3]"
  using AddOrder_position [OF demo_book_ok, of "NewOrder 5 15 eSideSell 100 1"]
  by (simp add: demo_book_def NewOrder_def)

text \<open>
  Self trade prevention is decided before the price. When the best order of the opposite side
  belongs to the same user, the new order is dropped without a trade whatever its price, and the
  book does not change.
\<close>

lemma Process_own_best_cancels:
  assumes "opposite e order = m # ms" and "eUserID m = eUserID order"
  shows "Process ids clk e order = (e, order\<lparr>eQuantity := 0\<rparr>, [])"
proof (cases "eSide order = eSideBuy")
  case True
  with assms Process_buy [OF True, of e "[]" 0 "m # ms" ids clk] show ?thesis
    by (simp add: opposite_def)
next
  case False
  with assms Process_sell [OF False, of e "[]" 0 "m # ms" ids clk] show ?thesis
    by (simp add: opposite_def)
qed

lemma demo_own_best_cancels:
  "Process of_nat int demo_book (NewOrder 4 11 eSideBuy 1 5)
     = (demo_book, (NewOrder 4 11 eSideBuy 1 5)\<lparr>eQuantity := 0\<rparr>, [])"
  by (rule Process_own_best_cancels [of _ _ "NewOrder 1 11 eSideSell 100 2"])
     (simp_all add: opposite_def demo_book_def NewOrder_def)

section \<open>Estimating a market buy\<close>

lemma estimate_loop_fill:
  assumes "0 < q" and "\<forall>m \<in> set ms. eUserID m \<noteq> u \<and> ok m"
  shows "estimate_loop ms q c =
     (if kept (fill u ok q ms) = 0
      then Inr (c + sum_list (map (\<lambda>(m, x). ePrice m * x) (fills (fill u ok q ms))))
      else Inl (InsufficientLiquidity (kept (fill u ok q ms))))"
  using assms
proof (induction u ok q ms arbitrary: c rule: fill.induct)
  case (2 u ok q m ms)
  then show ?case
    by (cases "eQuantity m < q") (auto simp: Let_def split: prod.splits)
qed simp

lemma cost_of_trades:
  "sum_list (map (\<lambda>t. tPrice t * tQuantity t) (trades_of ids clk s tk n fs)) =
   sum_list (map (\<lambda>(m, x). ePrice m * x) fs)"
  by (induction fs arbitrary: n) (auto simp: new_trade_def)

text \<open>
  C16: \<open>EstimateMarketBuyRequiredFunds\<close> agrees with the execution. For a market buy of a user with no
  resting sell order, the estimate is the sum of price times quantity over the trades
  \<open>Engine.Process\<close> then makes, and it fails exactly when the order would not be filled, with the
  quantity that would be left.
\<close>

theorem estimate_is_execution_cost:
  fixes e :: Engine and oid u :: uuid and q :: decimal and ids clk
  defines "res \<equiv> Process ids clk e (NewMarketOrder oid u eSideBuy q)"
  assumes "0 < q" and "\<forall>m \<in> set (asks e). eUserID m \<noteq> u"
  shows "EstimateMarketBuyRequiredFunds e q =
    (if eQuantity (fst (snd res)) = 0
     then Inr (sum_list (map (\<lambda>t. tPrice t * tQuantity t) (snd (snd res))))
     else Inl (InsufficientLiquidity (eQuantity (fst (snd res)))))"
proof -
  let ?o = "NewMarketOrder oid u eSideBuy q"
  have ok: "accepts ?o m" for m
    by (simp add: accepts_def accepts_buy_def NewMarketOrder_def)
  have sw: "sweep e ?o = fill u (accepts ?o) q (asks e)"
    by (simp add: sweep_def opposite_def NewMarketOrder_def)
  show ?thesis
    using assms(3) ok estimate_loop_fill [OF assms(2), of "asks e" u "accepts ?o" 0]
    unfolding EstimateMarketBuyRequiredFunds_def res_def Process_order Process_trades sw cost_of_trades
    by simp
qed

theorem estimate_is_execution_cost_witness:
  "EstimateMarketBuyRequiredFunds demo_book 4 = Inr 402"
  using estimate_is_execution_cost [of 4 demo_book 14 of_nat int 4]
  by (simp add: EstimateMarketBuyRequiredFunds_def demo_book_def NewOrder_def)

lemma estimate_loop_liquidity:
  assumes "0 < q" and "\<forall>m \<in> set ms. 0 < eQuantity m"
  shows "estimate_loop ms q c = Inl (InsufficientLiquidity s) \<longleftrightarrow>
     sum_list (map eQuantity ms) < q \<and> s = q - sum_list (map eQuantity ms)"
  using assms
proof (induction ms arbitrary: q c)
  case (Cons m ms)
  have "0 \<le> sum_list (map eQuantity ms)"
    using Cons.prems by (intro sum_list_nonneg_rat) (auto intro: less_imp_le)
  with Cons show ?case
    by (cases "eQuantity m < q") (auto simp: Let_def)
qed auto

text \<open>
  The estimate fails exactly when the asks do not hold the quantity, and the error carries the
  shortfall.
\<close>

theorem estimate_fails_iff_illiquid:
  assumes "book_ok e" and "0 < q"
  shows "EstimateMarketBuyRequiredFunds e q = Inl (InsufficientLiquidity s) \<longleftrightarrow>
     sum_list (map eQuantity (asks e)) < q \<and> s = q - sum_list (map eQuantity (asks e))"
  unfolding EstimateMarketBuyRequiredFunds_def
  by (rule estimate_loop_liquidity [OF assms(2) book_ok_positive(1) [OF assms(1)]])

theorem estimate_fails_iff_illiquid_witness:
  "EstimateMarketBuyRequiredFunds demo_book 7 = Inl (InsufficientLiquidity 2)"
  by (subst estimate_fails_iff_illiquid [OF demo_book_ok]) (simp_all add: demo_book_def NewOrder_def)

section \<open>Cancelling\<close>

lemma book_ok_RemoveOrder:
  assumes "book_ok ob" shows "book_ok (fst (RemoveOrder ob oid side))"
proof -
  note sub = splice_order_subseq [of oid "bids ob"] splice_order_subseq [of oid "asks ob"]
  have "book_ok (ob\<lparr>bids := fst (splice_order oid (bids ob))\<rparr>)"
    using assms sub(1) unfolding book_ok_def
    by (auto simp: splice_order_sorted splice_order_distinct) blast
  moreover have "book_ok (ob\<lparr>asks := fst (splice_order oid (asks ob))\<rparr>)"
    using assms sub(2) unfolding book_ok_def
    by (auto simp: splice_order_sorted splice_order_distinct) blast
  ultimately show ?thesis
    by (simp add: RemoveOrder_def case_prod_beta Let_def)
qed

lemma Cancel_ok:
  fixes oid :: uuid and side :: OrderSide
  assumes "book_ok e" and "uncrossed e"
  defines "e' \<equiv> fst (Cancel e oid side)"
  shows "book_ok e' \<and> uncrossed e' \<and>
    (if side = eSideBuy
     then bids e' = filter (\<lambda>x. eID x \<noteq> oid) (bids e) \<and> asks e' = asks e
     else asks e' = filter (\<lambda>x. eID x \<noteq> oid) (asks e) \<and> bids e' = bids e) \<and>
    (snd (Cancel e oid side) \<longleftrightarrow> oid \<in> eID ` set (if side = eSideBuy then bids e else asks e))"
proof -
  have f: "fst (splice_order oid os) = filter (\<lambda>x. eID x \<noteq> oid) os" if "distinct (map eID os)" for os
    using that
  proof (induction os)
    case (Cons x xs)
    then have "eID x = oid \<Longrightarrow> filter (\<lambda>x. eID x \<noteq> oid) xs = xs"
      by (simp add: filter_id_conv) (metis image_eqI)
    with Cons show ?case by (auto split: prod.splits)
  qed simp
  have d: "distinct (map eID (bids e))" "distinct (map eID (asks e))"
    using assms(1) by (auto simp: book_ok_def)
  have s: "snd (splice_order oid os) \<longleftrightarrow> oid \<in> eID ` set os" for os
    by (auto simp: splice_order_eq)
  show ?thesis
    using book_ok_RemoveOrder [OF assms(1), of oid side] assms(2) f [OF d(1)] f [OF d(2)]
      s [of "bids e"] s [of "asks e"]
    unfolding e'_def Cancel_def RemoveOrder_def uncrossed_def
    by (auto split: prod.splits)
qed

text \<open>
  \<open>Engine.Cancel\<close> removes the order with the identifier from the ladder of its side and nothing
  else, reports whether it was there, and keeps the book well formed and uncrossed.
\<close>

theorem Cancel_correct:
  fixes oid :: uuid and side :: OrderSide
  assumes "book_ok e" and "uncrossed e"
  defines "e' \<equiv> fst (Cancel e oid side)"
  shows "book_ok e' \<and> uncrossed e' \<and>
    (if side = eSideBuy
     then bids e' = filter (\<lambda>x. eID x \<noteq> oid) (bids e) \<and> asks e' = asks e
     else asks e' = filter (\<lambda>x. eID x \<noteq> oid) (asks e) \<and> bids e' = bids e) \<and>
    (snd (Cancel e oid side) \<longleftrightarrow> oid \<in> eID ` set (if side = eSideBuy then bids e else asks e))"
  using Cancel_ok [OF assms(1,2), of oid side] unfolding e'_def .

theorem Cancel_correct_witness:
  "bids (fst (Cancel demo_book 3 eSideBuy)) = [] \<and> snd (Cancel demo_book 3 eSideBuy)"
  using Cancel_correct [OF demo_book_ok demo_book_uncrossed, of 3 eSideBuy]
  by (simp add: demo_book_def NewOrder_def)

section \<open>Snapshots and the registry of engines\<close>

lemma snapshot_levels_eq:
  "snapshot_levels depth i xs =
     map level_of (if depth > 0 then take (nat depth - i) xs else xs)"
proof (induction xs arbitrary: i)
  case (Cons x xs)
  show ?case
  proof (cases "0 < depth \<and> int i \<ge> depth")
    case True
    then have "nat depth - i = 0" by linarith
    with True show ?thesis by simp
  next
    case False
    then have "0 < depth \<Longrightarrow> nat depth - i = Suc (nat depth - Suc i)" by linarith
    with False Cons show ?thesis by auto
  qed
qed simp

lemma sorted_desc_bids: "book_ok e \<Longrightarrow> sorted_wrt (\<lambda>x y. ePrice y \<le> ePrice x) (bids e)"
  by (simp add: book_ok_def bid_key_def sorted_wrt_map)

text \<open>
  A snapshot of depth \<open>d\<close> is the best \<open>d\<close> levels of each ladder in ladder order (all of them for
  a depth of zero or less); taken from a well formed book, bids fall and asks rise in price.
\<close>

theorem snapshot_is_prefix:
  fixes depth :: int
  assumes "book_ok e"
  defines "sn \<equiv> GetOrderBookSnapshot e depth"
  shows "snBids sn = map level_of (if depth > 0 then take (nat depth) (bids e) else bids e) \<and>
         snAsks sn = map level_of (if depth > 0 then take (nat depth) (asks e) else asks e) \<and>
         sorted_wrt (\<lambda>x y. lvlPrice y \<le> lvlPrice x) (snBids sn) \<and>
         sorted_wrt (\<lambda>x y. lvlPrice x \<le> lvlPrice y) (snAsks sn)"
proof -
  have a: "sorted_wrt (\<lambda>x y. ePrice x \<le> ePrice y) (asks e)"
    using assms(1) by (simp add: book_ok_def ask_key_def sorted_wrt_map)
  show ?thesis
    using a sorted_desc_bids [OF assms(1)]
    by (simp add: sn_def GetOrderBookSnapshot_def snapshot_levels_eq sorted_wrt_map level_of_def
        sorted_wrt_take)
qed

theorem snapshot_is_prefix_witness:
  "snAsks (GetOrderBookSnapshot demo_book 1) = [\<lparr>lvlPrice = 100, lvlQuantity = 2\<rparr>]"
  using snapshot_is_prefix [OF demo_book_ok, of 1] by (simp add: demo_book_def NewOrder_def level_of_def)

definition registry_ok :: "EngineManager \<Rightarrow> bool" where
  "registry_ok m \<longleftrightarrow> distinct (map fst m) \<and>
     (\<forall>(s, e) \<in> set m. obSymbol e = s \<and> book_ok e \<and> uncrossed e)"

lemma NewEngine_ok: "obSymbol (NewEngine s) = s" "book_ok (NewEngine s)" "uncrossed (NewEngine s)"
  by (simp_all add: NewEngine_def book_ok_empty uncrossed_empty) (simp add: NewOrderBook_def)

lemma registry_ok_put:
  assumes "registry_ok m" and "obSymbol e = s" and "book_ok e" and "uncrossed e"
  shows "registry_ok (put_engine m s e)"
proof -
  have "distinct (map fst (put_engine m s e))"
    using assms(1) by (simp add: registry_ok_def put_engine_def distinct_update)
  moreover have "obSymbol e' = s' \<and> book_ok e' \<and> uncrossed e'"
    if "(s', e') \<in> set (put_engine m s e)" for s' e'
  proof -
    from calculation that have "map_of (put_engine m s e) s' = Some e'" by simp
    then have "(s' = s \<and> e' = e) \<or> map_of m s' = Some e'"
      by (auto simp: put_engine_def update_conv' split: if_splits)
    then show ?thesis
      using assms by (auto simp: registry_ok_def dest!: map_of_SomeD)
  qed
  ultimately show ?thesis by (auto simp: registry_ok_def)
qed

lemma GetEngine_ok:
  fixes s :: string
  assumes "registry_ok m"
  defines "m' \<equiv> fst (GetEngine m s)" and "e \<equiv> snd (GetEngine m s)"
  shows "registry_ok m' \<and> map_of m' s = Some e \<and> GetEngine m' s = (m', e) \<and>
         obSymbol e = s \<and> book_ok e \<and> uncrossed e \<and>
         (\<forall>e' s'. s' \<noteq> s \<longrightarrow> map_of (put_engine m' s e') s' = map_of m s') \<and>
         (\<forall>e'. snd (GetEngine (put_engine m' s e') s) = e')"
proof (cases "map_of m s")
  case None
  have "registry_ok (put_engine m s (NewEngine s))"
    using assms(1) NewEngine_ok by (intro registry_ok_put) auto
  with None show ?thesis
    by (simp add: m'_def e_def GetEngine_def put_engine_def update_conv' NewEngine_ok Let_def)
next
  case (Some e0)
  then have "(s, e0) \<in> set m" by (rule map_of_SomeD)
  with assms(1) Some show ?thesis
    by (auto simp: m'_def e_def GetEngine_def registry_ok_def put_engine_def update_conv')
qed

text \<open>
  The registry. \<open>GetEngine\<close> returns the engine it returned before, an engine put back under a
  symbol is what \<open>GetEngine\<close> then finds there, no other symbol is affected, and every engine the
  registry hands out is a well formed, uncrossed book of its symbol.
\<close>

theorem GetEngine_correct:
  fixes s :: string
  assumes "registry_ok m"
  defines "m' \<equiv> fst (GetEngine m s)" and "e \<equiv> snd (GetEngine m s)"
  shows "registry_ok m' \<and> map_of m' s = Some e \<and> GetEngine m' s = (m', e) \<and>
         obSymbol e = s \<and> book_ok e \<and> uncrossed e \<and>
         (\<forall>e' s'. s' \<noteq> s \<longrightarrow> map_of (put_engine m' s e') s' = map_of m s') \<and>
         (\<forall>e'. snd (GetEngine (put_engine m' s e') s) = e')"
  using GetEngine_ok [OF assms(1), of s] unfolding m'_def e_def .

theorem GetEngine_correct_witness:
  "snd (GetEngine [] ''BTC-USD'') = NewOrderBook ''BTC-USD'' \<and>
   map_of (fst (GetEngine [] ''BTC-USD'')) ''BTC-USD'' = Some (NewOrderBook ''BTC-USD'')"
proof -
  have "registry_ok []" by (simp add: registry_ok_def)
  from GetEngine_correct [OF this, of "''BTC-USD''"] show ?thesis
    by (simp add: GetEngine_def NewEngine_def put_engine_def Let_def)
qed

end
