(* ===== verification/Domain.thy ===== *)
theory Domain
  imports OrderBook
begin

text \<open>
  The domain model shared by the services: src/internal/domain/models.go and events.go. The Go
  enums stay 16 bit integers, because events and rows may carry any value and the code's \<open>else\<close>
  and \<open>default\<close> branches decide what such a value means.
\<close>

section \<open>models.go\<close>

type_synonym OrderStatus = int16

definition SideBuy :: OrderSide where [simp]: "SideBuy = 1"
definition SideSell :: OrderSide where [simp]: "SideSell = 2"
definition TypeLimit :: OrderType where [simp]: "TypeLimit = 1"
definition TypeMarket :: OrderType where [simp]: "TypeMarket = 2"
definition StatusNew :: OrderStatus where [simp]: "StatusNew = 1"
definition StatusPartiallyFilled :: OrderStatus where [simp]: "StatusPartiallyFilled = 2"
definition StatusFilled :: OrderStatus where [simp]: "StatusFilled = 3"
definition StatusCanceled :: OrderStatus where [simp]: "StatusCanceled = 4"
definition StatusRejected :: OrderStatus where [simp]: "StatusRejected = 5"

definition allowedSymbols :: "(string \<times> bool) list" where
  "allowedSymbols = [(''BTC-USD'', True), (''ETH-USD'', True)]"

text \<open>Indexing a Go map with an absent key yields the zero value.\<close>

definition IsSymbolAllowed :: "string \<Rightarrow> bool" where
  "IsSymbolAllowed symbol = (case map_of allowedSymbols symbol of Some b \<Rightarrow> b | None \<Rightarrow> False)"

datatype enum_error = InvalidSide string | InvalidType string

definition SideFromString :: "string \<Rightarrow> enum_error + OrderSide" where
  "SideFromString s =
     (if s = ''BUY'' then Inr SideBuy else if s = ''SELL'' then Inr SideSell
      else Inl (InvalidSide s))"

definition TypeFromString :: "string \<Rightarrow> enum_error + OrderType" where
  "TypeFromString s =
     (if s = ''LIMIT'' then Inr TypeLimit else if s = ''MARKET'' then Inr TypeMarket
      else Inl (InvalidType s))"

definition SideToString :: "OrderSide \<Rightarrow> string" where
  "SideToString s = (if s = SideBuy then ''BUY'' else if s = SideSell then ''SELL'' else ''UNKNOWN'')"

definition TypeToString :: "OrderType \<Rightarrow> string" where
  "TypeToString t =
     (if t = TypeLimit then ''LIMIT'' else if t = TypeMarket then ''MARKET'' else ''UNKNOWN'')"

definition StatusToString :: "OrderStatus \<Rightarrow> string" where
  "StatusToString s =
     (if s = StatusNew then ''NEW'' else if s = StatusPartiallyFilled then ''PARTIALLY_FILLED''
      else if s = StatusFilled then ''FILLED'' else if s = StatusCanceled then ''CANCELED''
      else if s = StatusRejected then ''REJECTED'' else ''UNKNOWN'')"

record User =
  uID :: uuid
  uEmail :: string
  uPasswordHash :: string
  uCreatedAt :: millis
  uUpdatedAt :: millis

record Account =
  aID :: uuid
  aUserID :: uuid
  aCurrency :: string
  aBalance :: decimal
  aLocked :: decimal
  aCreatedAt :: millis
  aUpdatedAt :: millis

record Order =
  dID :: uuid
  dUserID :: uuid
  dSymbol :: string
  dSide :: OrderSide
  dType :: OrderType
  dPrice :: decimal
  dQuantity :: decimal
  dFilledQuantity :: decimal
  dStatus :: OrderStatus
  dCreatedAt :: millis
  dUpdatedAt :: millis

record KLine =
  kTimestamp :: millis
  kOpen :: decimal
  kHigh :: decimal
  kLow :: decimal
  kClose :: decimal
  kVolume :: decimal

section \<open>events.go\<close>

definition TopicOrders :: string where "TopicOrders = ''exchange.orders''"
definition TopicSettlements :: string where "TopicSettlements = ''exchange.settlements''"
definition TopicTrades :: string where "TopicTrades = ''exchange.trades''"
definition TopicOrderBook :: string where "TopicOrderBook = ''exchange.orderbook''"
definition TopicOrderUpdates :: string where "TopicOrderUpdates = ''exchange.order_updates''"

definition EventOrderPlaced :: string where "EventOrderPlaced = ''order.placed''"
definition EventOrderCancelRequested :: string where
  "EventOrderCancelRequested = ''order.cancel_requested''"
definition EventOrderCanceled :: string where "EventOrderCanceled = ''order.canceled''"
definition EventSettlementRequested :: string where
  "EventSettlementRequested = ''settlement.requested''"
definition EventTradeExecuted :: string where "EventTradeExecuted = ''trade.executed''"
definition EventOrderBookUpdated :: string where "EventOrderBookUpdated = ''orderbook.updated''"
definition EventOrderUpdated :: string where "EventOrderUpdated = ''order.updated''"

record OrderPlacedEvent =
  opEventType :: string
  opSymbol :: string
  opOrderID :: uuid
  opUserID :: uuid
  opSide :: OrderSide
  opType :: OrderType
  opPrice :: decimal
  opQuantity :: decimal
  opCreatedAt :: millis
  opAmountLocked :: decimal
  opLockedCurrency :: string

record OrderCancelRequestedEvent =
  crEventType :: string
  crSymbol :: string
  crOrderID :: uuid
  crSide :: OrderSide
  crUserID :: uuid

record OrderCanceledEvent =
  ocEventType :: string
  ocSymbol :: string
  ocOrderID :: uuid
  ocUserID :: uuid
  ocFencingToken :: int

record SettlementRequestedEvent =
  srEventType :: string
  srSymbol :: string
  srTakerOrderID :: uuid
  srAmountLocked :: decimal
  srLockedCurrency :: string
  srRemainingQty :: decimal
  srTrades :: "Trade list"
  srFencingToken :: int

record TradeExecutedEvent =
  teEventType :: string
  teSymbol :: string
  teTradeID :: uuid
  teMakerOrderID :: uuid
  teTakerOrderID :: uuid
  tePrice :: decimal
  teQuantity :: decimal
  teCreatedAt :: millis

record OrderBookUpdatedEvent =
  obuEventType :: string
  obuSymbol :: string
  obuSnapshot :: "OrderBookSnapshot option"

record OrderUpdatedEvent =
  ouEventType :: string
  ouSymbol :: string
  ouOrder :: "Order option"

text \<open>Everything the services hand to the event bus.\<close>

datatype event =
    EvOrderPlaced OrderPlacedEvent
  | EvOrderCancelRequested OrderCancelRequestedEvent
  | EvOrderCanceled OrderCanceledEvent
  | EvSettlementRequested SettlementRequestedEvent
  | EvTradeExecuted TradeExecutedEvent
  | EvOrderBookUpdated OrderBookUpdatedEvent
  | EvOrderUpdated OrderUpdatedEvent

section \<open>Round trips\<close>

lemma side_roundtrip: "SideFromString s = Inr d \<Longrightarrow> SideToString d = s"
  by (auto simp: SideFromString_def SideToString_def split: if_splits)

lemma type_roundtrip: "TypeFromString s = Inr t \<Longrightarrow> TypeToString t = s"
  by (auto simp: TypeFromString_def TypeToString_def split: if_splits)

text \<open>
  C17: the textual forms of sides and types round trip: what \<open>SideFromString\<close> and \<open>TypeFromString\<close>
  accept prints back to the same text, a printed value other than UNKNOWN parses back to itself,
  and UNKNOWN is rejected by both parsers.
\<close>

theorem enum_roundtrip:
  "(SideFromString s = Inr d \<longleftrightarrow> SideToString d = s \<and> s \<noteq> ''UNKNOWN'') \<and>
   (TypeFromString s = Inr t \<longleftrightarrow> TypeToString t = s \<and> s \<noteq> ''UNKNOWN'') \<and>
   (SideFromString ''UNKNOWN'' = Inl (InvalidSide ''UNKNOWN''))"
  by (auto simp: SideFromString_def SideToString_def TypeFromString_def TypeToString_def
      split: if_splits)

end
