(* ===== verification/Tx.thy ===== *)
theory Tx
  imports Domain "HOL-Library.Signed_Division"
begin

text \<open>
  The database as the repositories see it: the tables of sql/schema as lists of rows, one session
  with its open transaction, and the statement monad in which every repository method is written.

  \<^item> Each interaction with the outside world (a statement, a clock reading, a generated identifier)
    takes the next position of the session's counter. At position \<open>n\<close> the connection fails when
    \<open>outage n\<close> (and a record sent to the broker is accepted all the same when \<open>lost_ack n\<close>), the clock reads \<open>clock n\<close> and \<open>uuid.NewV7\<close> yields \<open>fresh n\<close>; all are arbitrary, so
    a theorem about every session covers every schedule of failures.
  \<^item> A statement that the server rejects inside a transaction aborts it: every later statement of
    that transaction fails and its commit rolls back, as PostgreSQL documents.
  \<^item> \<open>ExecTx\<close> (src/internal/repository/postgres.go) is \<open>pgx.BeginFunc\<close>: begin, run the closure,
    commit when it returns no error and roll back otherwise.
\<close>

section \<open>Errors\<close>

text \<open>
  Go errors: sentinels compared by identity, errors made of a message, and a message wrapping
  another error with \<open>%w\<close>. \<open>errors_is\<close> is \<open>errors.Is\<close>.
\<close>

datatype error =
    ErrNoRows
  | ErrConn
  | ErrTxAborted
  | ErrTxCommitRollback
  | ErrUniqueViolation string
  | ErrCheckViolation string
  | ErrForeignKey string
  | ErrValueTooLong string
  | ErrOutOfRange string
  | ErrInsufficientFunds
  | ErrIdempotencySkip
  | ErrStaleSettlementEvent
  | ErrMsg string
  | ErrWrap string error

fun errors_is :: "error \<Rightarrow> error \<Rightarrow> bool" where
  "errors_is (ErrWrap msg e) target = (ErrWrap msg e = target \<or> errors_is e target)"
| "errors_is e target = (e = target)"

section \<open>Tables\<close>

text \<open>\<open>outbox.Message\<close> (src/internal/infrastructure/outbox/model.go).\<close>

definition StatusPending :: int where [simp]: "StatusPending = 0"
definition StatusPublished :: int where [simp]: "StatusPublished = 1"

record Message =
  mID :: uuid
  mAggregateID :: string
  mAggregateType :: string
  mTopic :: string
  mPartitionKey :: string
  mPayload :: event
  mStatus :: int
  mRetryCount :: int
  mCreatedAt :: millis
  mPublishedAt :: millis

text \<open>\<open>election.LeaderLock\<close> (src/internal/infrastructure/election/model.go).\<close>

record LeaderLock =
  lPartition :: string
  lLeaderID :: string
  lFencingToken :: int
  lExpiresAt :: millis

record DB =
  users :: "User list"
  accounts :: "Account list"
  orders :: "Order list"
  trades :: "Trade list"
  outbox :: "Message list"
  locks :: "LeaderLock list"

text \<open>
  \<open>kafka\<close> is what the brokers have accepted, in order: topic, partition key and payload. Rolling a
  transaction back does not take a record back.
\<close>

type_synonym kafka_record = "string \<times> string \<times> event"

record session =
  db :: DB
  kafka :: "kafka_record list"
  calls :: nat
  in_tx :: bool
  aborted :: bool
  outage :: "nat \<Rightarrow> bool"
  lost_ack :: "nat \<Rightarrow> bool"
  clock :: "nat \<Rightarrow> millis"
  fresh :: "nat \<Rightarrow> uuid"

section \<open>The statement monad\<close>

type_synonym 'a dbm = "session \<Rightarrow> (error + 'a) \<times> session"

definition ret :: "'a \<Rightarrow> 'a dbm" where
  "ret x s = (Inr x, s)"

definition fail :: "error \<Rightarrow> 'a dbm" where
  "fail e s = (Inl e, s)"

definition bind :: "'a dbm \<Rightarrow> ('a \<Rightarrow> 'b dbm) \<Rightarrow> 'b dbm" where
  "bind m f s = (case m s of (Inl e, s') \<Rightarrow> (Inl e, s') | (Inr x, s') \<Rightarrow> f x s')"

text \<open>\<open>if err != nil { return handle(err) }\<close>.\<close>

definition catch :: "'a dbm \<Rightarrow> (error \<Rightarrow> 'a dbm) \<Rightarrow> 'a dbm" where
  "catch m h s = (case m s of (Inl e, s') \<Rightarrow> h e s' | (Inr x, s') \<Rightarrow> (Inr x, s'))"

definition wrap :: "string \<Rightarrow> 'a dbm \<Rightarrow> 'a dbm" where
  "wrap msg m = catch m (\<lambda>e. fail (ErrWrap msg e))"

definition do_if :: "bool \<Rightarrow> unit dbm \<Rightarrow> unit dbm" where
  "do_if b m = (if b then m else ret ())"

fun for_each :: "'a list \<Rightarrow> ('a \<Rightarrow> unit dbm) \<Rightarrow> unit dbm" where
  "for_each [] f = ret ()"
| "for_each (x # xs) f = bind (f x) (\<lambda>_. for_each xs f)"

fun map_each :: "'a list \<Rightarrow> ('a \<Rightarrow> 'b dbm) \<Rightarrow> 'b list dbm" where
  "map_each [] f = ret []"
| "map_each (x # xs) f = bind (f x) (\<lambda>y. bind (map_each xs f) (\<lambda>ys. ret (y # ys)))"

definition now :: "millis dbm" where
  "now s = (Inr (clock s (calls s)), s\<lparr>calls := Suc (calls s)\<rparr>)"

definition NewV7 :: "uuid dbm" where
  "NewV7 s = (Inr (fresh s (calls s)), s\<lparr>calls := Suc (calls s)\<rparr>)"

text \<open>
  One statement: what the server does with the tables. A rejection aborts the open transaction;
  finding no row is not a rejection.
\<close>

definition stmt :: "(DB \<Rightarrow> error + 'a \<times> DB) \<Rightarrow> 'a dbm" where
  "stmt f s =
     (let s1 = s\<lparr>calls := Suc (calls s)\<rparr> in
      if aborted s then (Inl ErrTxAborted, s1)
      else if outage s (calls s) then (Inl ErrConn, s1\<lparr>aborted := in_tx s\<rparr>)
      else (case f (db s) of
              Inl e \<Rightarrow> (Inl e, s1\<lparr>aborted := in_tx s \<and> e \<noteq> ErrNoRows\<rparr>)
            | Inr (x, d) \<Rightarrow> (Inr x, s1\<lparr>db := d\<rparr>)))"

text \<open>
  \<open>ProduceSync\<close> of the Kafka client: one synchronous write of one record. The producer's methods
  (src/internal/infrastructure/kafka/producer.go) wrap its error; a payload is the event whose JSON
  is sent, and \<open>json.Marshal\<close> of the event structs cannot fail.
\<close>

definition ProduceSync :: "string \<Rightarrow> string \<Rightarrow> event \<Rightarrow> unit dbm" where
  "ProduceSync topic key payload s =
     (let s1 = s\<lparr>calls := Suc (calls s)\<rparr>;
          accepted = s1\<lparr>kafka := kafka s @ [(topic, key, payload)]\<rparr>
      in if \<not> outage s (calls s) then (Inr (), accepted)
         else (Inl ErrConn, if lost_ack s (calls s) then accepted else s1))"

definition Publish :: "string \<Rightarrow> string \<Rightarrow> event \<Rightarrow> unit dbm" where
  "Publish topic key payload = wrap ''publish event'' (ProduceSync topic key payload)"

definition PublishRaw :: "string \<Rightarrow> string \<Rightarrow> event \<Rightarrow> unit dbm" where
  "PublishRaw topic key payload = wrap ''Outbox PublishRaw'' (ProduceSync topic key payload)"

definition ExecTx :: "'a dbm \<Rightarrow> 'a dbm" where
  "ExecTx fn s =
     (if outage s (calls s) then (Inl ErrConn, s\<lparr>calls := Suc (calls s)\<rparr>)
      else case fn (s\<lparr>calls := Suc (calls s), in_tx := True, aborted := False\<rparr>) of
        (Inl e, s') \<Rightarrow> (Inl e, s'\<lparr>db := db s, in_tx := False, aborted := False\<rparr>)
      | (Inr x, s') \<Rightarrow>
          (let s2 = s'\<lparr>calls := Suc (calls s'), in_tx := False, aborted := False\<rparr> in
           if aborted s' then (Inl ErrTxCommitRollback, s2\<lparr>db := db s\<rparr>)
           else if outage s' (calls s') then (Inl ErrConn, s2\<lparr>db := db s\<rparr>)
           else (Inr x, s2)))"

text \<open>A commit that fails on the connection is taken as not committed.\<close>

section \<open>Reading a run backwards\<close>

lemma ret_iff [simp]: "ret x s = (r, s') \<longleftrightarrow> r = Inr x \<and> s' = s"
  by (auto simp: ret_def)

lemma fail_iff [simp]: "fail e s = (r, s') \<longleftrightarrow> r = Inl e \<and> s' = s"
  by (auto simp: fail_def)

lemma bind_InrE:
  assumes "bind m f s = (Inr y, s')"
  obtains x s1 where "m s = (Inr x, s1)" and "f x s1 = (Inr y, s')"
  using assms by (auto simp: bind_def split: prod.splits sum.splits)

lemma bind_Inr_iff:
  "bind m f s = (Inr y, s') \<longleftrightarrow> (\<exists>x s1. m s = (Inr x, s1) \<and> f x s1 = (Inr y, s'))"
  by (auto simp: bind_def split: prod.splits sum.splits)

lemma bind_step: "m s = (Inr x, s1) \<Longrightarrow> bind m f s = f x s1"
  by (simp add: bind_def)

lemma bind_now: "bind now f s = f (clock s (calls s)) (s\<lparr>calls := Suc (calls s)\<rparr>)"
  and bind_NewV7: "bind NewV7 g s = g (fresh s (calls s)) (s\<lparr>calls := Suc (calls s)\<rparr>)"
  by (simp_all add: bind_def now_def NewV7_def)

lemma bind_fail: "m s = (Inl e, s1) \<Longrightarrow> bind m f s = (Inl e, s1)"
  by (simp add: bind_def)

lemma wrap_Inr_iff [simp]: "wrap msg m s = (Inr x, s') \<longleftrightarrow> m s = (Inr x, s')"
  by (auto simp: wrap_def catch_def fail_def split: prod.splits sum.splits)

lemma do_if_wrap_Inr_iff [simp]:
  "do_if b (wrap msg m) s = (Inr x, s') \<longleftrightarrow> do_if b m s = (Inr x, s')"
  by (simp add: do_if_def)

lemma case_fail_Inr_iff [simp]:
  "(case r of Inl e \<Rightarrow> fail (f e) | Inr u \<Rightarrow> g u) s = (Inr x, s') \<longleftrightarrow> (\<exists>u. r = Inr u \<and> g u s = (Inr x, s'))"
  by (auto split: sum.splits)

lemma if_fail_InrE:
  assumes "(if b then fail e else m) s = (Inr x, s')"
  obtains "\<not> b" and "m s = (Inr x, s')"
  using assms by (auto split: if_splits)

lemma case_prod_InrE:
  assumes "(case p of (a, b) \<Rightarrow> f a b) s = (Inr x, s')"
  obtains a b where "p = (a, b)" and "f a b s = (Inr x, s')"
  using assms by (cases p) auto

lemmas InrE = bind_InrE if_fail_InrE case_prod_InrE

lemma now_iff [simp]:
  "now s = (r, s') \<longleftrightarrow> r = Inr (clock s (calls s)) \<and> s' = s\<lparr>calls := Suc (calls s)\<rparr>"
  by (auto simp: now_def)

lemma NewV7_iff [simp]:
  "NewV7 s = (r, s') \<longleftrightarrow> r = Inr (fresh s (calls s)) \<and> s' = s\<lparr>calls := Suc (calls s)\<rparr>"
  by (auto simp: NewV7_def)

lemma stmt_Inr_iff [stmt_simps]:
  "stmt f s = (Inr x, s') \<longleftrightarrow> \<not> aborted s \<and> \<not> outage s (calls s) \<and>
     (\<exists>d. f (db s) = Inr (x, d) \<and> s' = s\<lparr>calls := Suc (calls s), db := d\<rparr>)"
  by (auto simp: stmt_def Let_def split: sum.splits)

lemma for_each_Inr_Cons:
  "for_each (x # xs) f s = (Inr (), s') \<longleftrightarrow>
     (\<exists>s1. f x s = (Inr (), s1) \<and> for_each xs f s1 = (Inr (), s'))"
  by (simp add: bind_Inr_iff)

lemma for_each_append:
  "for_each (xs @ ys) f = bind (for_each xs f) (\<lambda>_. for_each ys f)"
  by (induction xs) (auto simp: bind_def fun_eq_iff ret_def split: prod.splits sum.splits)

text \<open>A loop whose body keeps a relation between the start and the present keeps it to the end.\<close>

lemma for_each_invariant:
  assumes "for_each xs f s = (Inr (), s')" and "R s"
    and "\<And>x t t'. x \<in> set xs \<Longrightarrow> R t \<Longrightarrow> f x t = (Inr (), t') \<Longrightarrow> R t'"
  shows "R s'"
  using assms
proof (induction xs arbitrary: s)
  case (Cons x xs)
  from Cons.prems(1) obtain s1 where "f x s = (Inr (), s1)" and r: "for_each xs f s1 = (Inr (), s')"
    by (auto simp: bind_Inr_iff)
  with Cons.prems(2,3) have "R s1" by auto
  with r Cons.prems(3) show ?case by (auto intro: Cons.IH)
qed simp

lemma ExecTx_InrE:
  assumes "ExecTx fn s = (Inr x, s')"
  obtains s1 where "fn (s\<lparr>calls := Suc (calls s), in_tx := True, aborted := False\<rparr>) = (Inr x, s1)"
    and "\<not> aborted s1" and "s' = s1\<lparr>calls := Suc (calls s1), in_tx := False, aborted := False\<rparr>"
  using assms by (auto simp: ExecTx_def Let_def split: if_splits prod.splits sum.splits)

text \<open>Both publishing methods, as the outcome of their only interaction.\<close>

lemma wrap_ProduceSync:
  "wrap msg (ProduceSync topic key payload) s =
     (let s1 = s\<lparr>calls := Suc (calls s)\<rparr>;
          accepted = s1\<lparr>kafka := kafka s @ [(topic, key, payload)]\<rparr>
      in if \<not> outage s (calls s) then (Inr (), accepted)
         else (Inl (ErrWrap msg ErrConn), if lost_ack s (calls s) then accepted else s1))"
  by (simp add: wrap_def catch_def ProduceSync_def fail_def Let_def)

lemmas PublishRaw_run = wrap_ProduceSync [where msg = "''Outbox PublishRaw''", folded PublishRaw_def]
lemmas Publish_run = wrap_ProduceSync [where msg = "''publish event''", folded Publish_def]

section \<open>Frames\<close>

text \<open>
  \<open>frame p m\<close>: whatever the outcome, \<open>m\<close> leaves the part \<open>p\<close> of the tables alone. The rules follow
  the combinators, so a frame of a handler is found by backchaining on the collection \<open>frames\<close>.
\<close>

definition frame :: "(DB \<Rightarrow> 'p) \<Rightarrow> 'a dbm \<Rightarrow> bool" where
  "frame p m \<longleftrightarrow> (\<forall>s r s'. m s = (r, s') \<longrightarrow> p (db s') = p (db s))"

lemma frameI: "(\<And>s r s'. m s = (r, s') \<Longrightarrow> p (db s') = p (db s)) \<Longrightarrow> frame p m"
  by (simp add: frame_def)

lemma frameD: "frame p m \<Longrightarrow> m s = (r, s') \<Longrightarrow> p (db s') = p (db s)"
  by (simp add: frame_def)

lemma frame_ret [frames]: "frame p (ret x)"
  and frame_fail [frames]: "frame p (fail e)"
  and frame_now [frames]: "frame p now"
  and frame_NewV7 [frames]: "frame p NewV7"
  by (auto simp: frame_def)

lemma frame_bind [frames]: "frame p m \<Longrightarrow> (\<And>x. frame p (f x)) \<Longrightarrow> frame p (bind m f)"
  unfolding frame_def bind_def by (auto split: prod.splits sum.splits)

lemma frame_catch [frames]: "frame p m \<Longrightarrow> (\<And>e. frame p (h e)) \<Longrightarrow> frame p (catch m h)"
  unfolding frame_def catch_def by (auto split: prod.splits sum.splits)

lemma frame_wrap [frames]: "frame p m \<Longrightarrow> frame p (wrap msg m)"
  unfolding wrap_def by (intro frames)

lemma frame_do_if [frames]: "(b \<Longrightarrow> frame p m) \<Longrightarrow> frame p (do_if b m)"
  by (auto simp: do_if_def intro: frames)

lemma frame_for_each [frames]: "(\<And>x. frame p (f x)) \<Longrightarrow> frame p (for_each xs f)"
  by (induction xs) (auto intro: frames)

lemma frame_map_each [frames]: "(\<And>x. frame p (f x)) \<Longrightarrow> frame p (map_each xs f)"
  by (induction xs) (auto intro!: frames)

lemma frame_stmt [frames]:
  "(\<And>d x d'. f d = Inr (x, d') \<Longrightarrow> p d' = p d) \<Longrightarrow> frame p (stmt f)"
  unfolding frame_def stmt_def by (auto simp: Let_def split: if_splits sum.splits prod.splits)

lemma frame_ExecTx [frames]: "frame p m \<Longrightarrow> frame p (ExecTx m)"
  unfolding frame_def ExecTx_def
  by (auto simp: Let_def split: if_splits sum.splits prod.splits)

lemma frame_ProduceSync [frames]: "frame p (ProduceSync topic key payload)"
  by (auto simp: frame_def ProduceSync_def Let_def split: if_splits)

lemma frame_PublishRaw [frames]: "frame p (PublishRaw topic key payload)"
  and frame_Publish [frames]: "frame p (Publish topic key payload)"
  unfolding PublishRaw_def Publish_def by (intro frames)+

lemma frame_if [frames]: "(b \<Longrightarrow> frame p m) \<Longrightarrow> (\<not> b \<Longrightarrow> frame p n) \<Longrightarrow> frame p (if b then m else n)"
  by simp

section \<open>The interface of a transaction runner\<close>

text \<open>
  What the services rely on: an error leaves the tables as they were, a success installs what the
  closure computed.
\<close>

locale transaction_runner =
  fixes exec :: "'a dbm \<Rightarrow> 'a dbm"
  assumes atomic: "exec fn s = (Inl e, s') \<Longrightarrow> db s' = db s"
    and committed: "exec fn s = (Inr x, s') \<Longrightarrow>
      \<exists>t t'. db t = db s \<and> \<not> aborted t \<and> in_tx t \<and> clock t = clock s \<and> fresh t = fresh s \<and> outage t = outage s \<and>
             fn t = (Inr x, t') \<and> db s' = db t'"
begin

text \<open>A property of the tables that the closure keeps is kept whether or not it commits.\<close>

lemma keeps:
  assumes "exec fn s = (r, s')" and "P (db s)"
    and "\<And>t x t'. P (db t) \<Longrightarrow> fn t = (Inr x, t') \<Longrightarrow> P (db t')"
  shows "P (db s')"
proof (cases r)
  case (Inl e)
  with assms(1,2) atomic show ?thesis by simp
next
  case (Inr x)
  with assms committed show ?thesis by metis
qed

lemma all_or_nothing:
  assumes "exec fn s = (r, s')" and "\<And>t x t'. db t = db s \<Longrightarrow> fn t = (Inr x, t') \<Longrightarrow> Q (db s) x (db t')"
  shows "(\<exists>e. r = Inl e \<and> db s' = db s) \<or> (\<exists>x. r = Inr x \<and> Q (db s) x (db s'))"
proof (cases r)
  case (Inl e)
  with assms(1) atomic show ?thesis by auto
next
  case (Inr x)
  with assms(1) committed obtain t t' where "db t = db s" "fn t = (Inr x, t')" "db s' = db t'"
    by blast
  with assms(2) Inr show ?thesis by metis
qed

end

interpretation tx: transaction_runner ExecTx
proof
  fix fn :: "'a dbm" and s s' e
  assume "ExecTx fn s = (Inl e, s')"
  then show "db s' = db s"
    by (auto simp: ExecTx_def Let_def split: if_splits prod.splits sum.splits)
next
  fix fn :: "'a dbm" and s s' x
  assume "ExecTx fn s = (Inr x, s')"
  then obtain s1 where
    "fn (s\<lparr>calls := Suc (calls s), in_tx := True, aborted := False\<rparr>) = (Inr x, s1)" "\<not> aborted s1"
    "s' = s1\<lparr>calls := Suc (calls s1), in_tx := False, aborted := False\<rparr>"
    by (rule ExecTx_InrE)
  then show "\<exists>t t'. db t = db s \<and> \<not> aborted t \<and> in_tx t \<and> clock t = clock s \<and> fresh t = fresh s \<and>
      outage t = outage s \<and> fn t = (Inr x, t') \<and> db s' = db t'"
    by (intro exI [of _ "s\<lparr>calls := Suc (calls s), in_tx := True, aborted := False\<rparr>"] exI [of _ s1]) simp
qed

end
