(* ===== verification/Repository.thy ===== *)
theory Repository
  imports Tx
begin

text \<open>
  The PostgreSQL repositories of src/internal/repository: accounts, orders, trades, users and the
  fencing check. Each method is the statement its SQL text states over the tables of \<open>Tx\<close>, with the
  column checks, keys and lengths of sql/schema; values have at most 18 decimals (8 per price and
  quantity, 16 per product, 2 more for the market buffer), so storing them does not round.
  \<open>uuid.String()\<close> is the argument \<open>ustr\<close>.
\<close>

section \<open>account_repository.go\<close>

definition acc_key :: "Account \<Rightarrow> uuid \<times> string" where
  "acc_key a = (aUserID a, aCurrency a)"

definition find_account :: "uuid \<Rightarrow> string \<Rightarrow> DB \<Rightarrow> Account option" where
  "find_account uid cur d = find (\<lambda>a. acc_key a = (uid, cur)) (accounts d)"

definition GetAccount :: "uuid \<Rightarrow> string \<Rightarrow> Account dbm" where
  "GetAccount userID currency =
     stmt (\<lambda>d. case find_account userID currency d of
                 None \<Rightarrow> Inl ErrNoRows
               | Some a \<Rightarrow> Inr (a\<lparr>aID := 0, aCreatedAt := 0\<rparr>, d))"

definition CreateAccount :: "Account \<Rightarrow> unit dbm" where
  "CreateAccount account =
     stmt (\<lambda>d. if length (aCurrency account) > 10 then Inl (ErrValueTooLong ''currency'')
               else if find (\<lambda>a. acc_key a = acc_key account) (accounts d) \<noteq> None then Inr ((), d)
               else if find (\<lambda>a. aID a = aID account) (accounts d) \<noteq> None
                    then Inl (ErrUniqueViolation ''accounts_pkey'')
               else if find (\<lambda>u. uID u = aUserID account) (users d) = None
                    then Inl (ErrForeignKey ''accounts_user_id'')
               else if aBalance account < 0 \<or> aLocked account < 0
                    then Inl (ErrCheckViolation ''accounts'')
               else Inr ((), d\<lparr>accounts := accounts d @ [account]\<rparr>))"

text \<open>An \<open>UPDATE accounts\<close>, the table's two \<open>CHECK\<close>s and the number of rows it reports.\<close>

definition update_accounts :: "(Account \<Rightarrow> bool) \<Rightarrow> (Account \<Rightarrow> Account) \<Rightarrow> nat dbm" where
  "update_accounts P f =
     stmt (\<lambda>d. if list_ex (\<lambda>a. P a \<and> (aBalance (f a) < 0 \<or> aLocked (f a) < 0)) (accounts d)
               then Inl (ErrCheckViolation ''accounts'')
               else Inr (rows_affected P (accounts d),
                         d\<lparr>accounts := update_where P f (accounts d)\<rparr>))"

definition UpdateBalance :: "uuid \<Rightarrow> string \<Rightarrow> decimal \<Rightarrow> unit dbm" where
  "UpdateBalance userID currency amount =
     bind now (\<lambda>t.
     bind (update_accounts (\<lambda>a. acc_key a = (userID, currency))
             (\<lambda>a. a\<lparr>aBalance := aBalance a + amount, aUpdatedAt := t\<rparr>)) (\<lambda>_. ret ()))"

definition lock_stmt :: "millis \<Rightarrow> uuid \<Rightarrow> string \<Rightarrow> decimal \<Rightarrow> unit dbm" where
  "lock_stmt t userID currency amount =
     bind (update_accounts (\<lambda>a. acc_key a = (userID, currency) \<and> aBalance a \<ge> amount)
             (\<lambda>a. a\<lparr>aBalance := aBalance a - amount, aLocked := aLocked a + amount, aUpdatedAt := t\<rparr>))
       (\<lambda>n. if n = 0 then fail ErrInsufficientFunds else ret ())"

definition LockFunds :: "uuid \<Rightarrow> string \<Rightarrow> decimal \<Rightarrow> unit dbm" where
  "LockFunds userID currency amount = bind now (\<lambda>t. lock_stmt t userID currency amount)"

text \<open>
  The exchange sort \<open>BatchLockFunds\<close> writes out twice: for every \<open>i\<close>, every later \<open>j\<close> whose text is
  smaller is swapped into place \<open>i\<close>. \<open>exchange_pass\<close> is the inner loop for the element at \<open>i\<close>.
\<close>

fun exchange_pass :: "('a \<Rightarrow> 'k::linorder) \<Rightarrow> 'a \<Rightarrow> 'a list \<Rightarrow> 'a \<times> 'a list" where
  "exchange_pass key x [] = (x, [])"
| "exchange_pass key x (y # ys) =
     (if key x > key y then (let (m, r) = exchange_pass key y ys in (m, x # r))
      else (let (m, r) = exchange_pass key x ys in (m, y # r)))"

lemma exchange_pass_length: "length (snd (exchange_pass key x ys)) = length ys"
  by (induction key x ys rule: exchange_pass.induct) (auto split: prod.splits)

function exchange_sort :: "('a \<Rightarrow> 'k::linorder) \<Rightarrow> 'a list \<Rightarrow> 'a list" where
  "exchange_sort key [] = []"
| "exchange_sort key (x # xs) =
     (let (m, r) = exchange_pass key x xs in m # exchange_sort key r)"
  by pat_completeness auto
termination
  by (relation "measure (length \<circ> snd)") (auto, metis exchange_pass_length lessI snd_conv)

text \<open>
  \<open>lockedFunds\<close> is a Go map of maps: association lists with distinct keys, whatever the order the
  runtime iterates them in.
\<close>

type_synonym locked_funds = "(uuid \<times> (string \<times> decimal) list) list"

definition lock_order :: "(uuid \<Rightarrow> string) \<Rightarrow> locked_funds \<Rightarrow> (uuid \<times> string \<times> decimal) list" where
  "lock_order ustr lockedFunds =
     concat (map (\<lambda>uid. case map_of lockedFunds uid of
                          None \<Rightarrow> []
                        | Some currencies \<Rightarrow>
                            map (\<lambda>cur. (uid, cur, (case map_of currencies cur of None \<Rightarrow> 0 | Some x \<Rightarrow> x)))
                              (exchange_sort (\<lambda>c. c) (map fst currencies)))
              (exchange_sort ustr (map fst lockedFunds)))"

definition BatchLockFunds :: "(uuid \<Rightarrow> string) \<Rightarrow> locked_funds \<Rightarrow> unit dbm" where
  "BatchLockFunds ustr lockedFunds =
     bind now (\<lambda>t. for_each (lock_order ustr lockedFunds)
                     (\<lambda>(uid, cur, amount). lock_stmt t uid cur amount))"

definition UnlockFunds :: "uuid \<Rightarrow> string \<Rightarrow> decimal \<Rightarrow> unit dbm" where
  "UnlockFunds userID currency amount =
     bind now (\<lambda>t.
     bind (update_accounts (\<lambda>a. acc_key a = (userID, currency) \<and> aLocked a \<ge> amount)
             (\<lambda>a. a\<lparr>aBalance := aBalance a + amount, aLocked := aLocked a - amount, aUpdatedAt := t\<rparr>))
       (\<lambda>_. ret ()))"

definition GetAccountsByUser :: "uuid \<Rightarrow> Account list dbm" where
  "GetAccountsByUser userID = stmt (\<lambda>d. Inr (filter (\<lambda>a. aUserID a = userID) (accounts d), d))"

section \<open>order_repository.go\<close>

definition insert_orders :: "Order list \<Rightarrow> DB \<Rightarrow> error + unit \<times> DB" where
  "insert_orders new d =
     (if list_ex (\<lambda>x. length (dSymbol x) > 20) new then Inl (ErrValueTooLong ''symbol'')
      else if \<not> distinct (map dID (orders d @ new)) then Inl (ErrUniqueViolation ''orders_pkey'')
      else if list_ex (\<lambda>x. find (\<lambda>u. uID u = dUserID x) (users d) = None) new
           then Inl (ErrForeignKey ''orders_user_id'')
      else Inr ((), d\<lparr>orders := orders d @ new\<rparr>))"

definition CreateOrder :: "Order \<Rightarrow> unit dbm" where
  "CreateOrder order = stmt (insert_orders [order])"

definition BatchCreateOrders :: "Order list \<Rightarrow> unit dbm" where
  "BatchCreateOrders new s =
     (if new = [] then (Inr (), s)
      else if \<not> in_tx s then (Inl (ErrMsg ''BatchCreateOrders must be called within ExecTx''), s)
      else stmt (insert_orders new) s)"

definition select_order :: "uuid \<Rightarrow> DB \<Rightarrow> error + Order \<times> DB" where
  "select_order oid d = (case find (\<lambda>x. dID x = oid) (orders d) of
                           None \<Rightarrow> Inl ErrNoRows | Some x \<Rightarrow> Inr (x, d))"

definition GetOrder :: "uuid \<Rightarrow> Order dbm" where
  "GetOrder oid = stmt (select_order oid)"

text \<open>\<open>FOR UPDATE\<close> also locks the row; transactions of the model run one after the other.\<close>

definition GetOrderForUpdate :: "uuid \<Rightarrow> Order dbm" where
  "GetOrderForUpdate oid = stmt (select_order oid)"

definition UpdateOrder :: "Order \<Rightarrow> unit dbm" where
  "UpdateOrder order =
     stmt (\<lambda>d. Inr ((), d\<lparr>orders := update_where (\<lambda>x. dID x = dID order)
        (\<lambda>x. x\<lparr>dFilledQuantity := dFilledQuantity order, dStatus := dStatus order,
               dUpdatedAt := dUpdatedAt order\<rparr>) (orders d)\<rparr>))"

definition GetOrdersByUser :: "uuid \<Rightarrow> Order list dbm" where
  "GetOrdersByUser userID =
     stmt (\<lambda>d. Inr (sort_key (\<lambda>x. - dCreatedAt x) (filter (\<lambda>x. dUserID x = userID) (orders d)), d))"

definition GetActiveOrders :: "Order list dbm" where
  "GetActiveOrders =
     stmt (\<lambda>d. Inr (sort_key dCreatedAt
        (filter (\<lambda>x. (dStatus x = 1 \<or> dStatus x = 2) \<and> dType x = 1) (orders d)), d))"

definition DeleteAllOrders :: "unit dbm" where
  "DeleteAllOrders =
     stmt (\<lambda>d. if orders d \<noteq> [] \<and> trades d \<noteq> [] then Inl (ErrForeignKey ''trades'')
               else Inr ((), d\<lparr>orders := []\<rparr>))"

section \<open>trade_repository.go\<close>

definition CreateTrade :: "Trade \<Rightarrow> unit dbm" where
  "CreateTrade trade =
     stmt (\<lambda>d. if length (tSymbol trade) > 20 then Inl (ErrValueTooLong ''symbol'')
               else if tID trade \<in> tID ` set (trades d) then Inl (ErrUniqueViolation ''trades_pkey'')
               else if tMakerOrderID trade \<notin> dID ` set (orders d) \<or>
                       tTakerOrderID trade \<notin> dID ` set (orders d)
                    then Inl (ErrForeignKey ''trades_order_id'')
               else Inr ((), d\<lparr>trades := trades d @ [trade]\<rparr>))"

definition TradeExistsByID :: "uuid \<Rightarrow> bool dbm" where
  "TradeExistsByID tid = stmt (\<lambda>d. Inr (tid \<in> tID ` set (trades d), d))"

definition parseIntervalMs :: "string \<Rightarrow> int" where
  "parseIntervalMs interval =
     (if interval = ''1m'' then 60 * 1000 else if interval = ''3m'' then 3 * 60 * 1000
      else if interval = ''5m'' then 5 * 60 * 1000 else if interval = ''15m'' then 15 * 60 * 1000
      else if interval = ''30m'' then 30 * 60 * 1000 else if interval = ''1h'' then 60 * 60 * 1000
      else if interval = ''2h'' then 2 * 60 * 60 * 1000 else if interval = ''4h'' then 4 * 60 * 60 * 1000
      else if interval = ''6h'' then 6 * 60 * 60 * 1000 else if interval = ''12h'' then 12 * 60 * 60 * 1000
      else if interval = ''1d'' then 24 * 60 * 60 * 1000
      else if interval = ''1w'' then 7 * 24 * 60 * 60 * 1000 else 60 * 1000)"

definition bucket_of :: "int \<Rightarrow> Trade \<Rightarrow> int" where
  "bucket_of intervalMs t = (tCreatedAt t sdiv intervalMs) * intervalMs"

text \<open>One group of the \<open>GROUP BY bucket\<close>; a group has at least one trade.\<close>

definition kline_of :: "int \<Rightarrow> Trade list \<Rightarrow> int \<Rightarrow> KLine" where
  "kline_of intervalMs ts b =
     (let g = filter (\<lambda>t. bucket_of intervalMs t = b) ts;
          up = sort_key tCreatedAt g;
          down = sort_key (\<lambda>t. - tCreatedAt t) g
      in \<lparr>kTimestamp = b, kOpen = tPrice (hd up), kHigh = Max (tPrice ` set g),
          kLow = Min (tPrice ` set g), kClose = tPrice (hd down),
          kVolume = sum_list (map tQuantity g)\<rparr>)"

definition select_klines :: "string \<Rightarrow> int \<Rightarrow> nat \<Rightarrow> Trade list \<Rightarrow> KLine list" where
  "select_klines symbol intervalMs lmt ts =
     (let sel = filter (\<lambda>t. tSymbol t = symbol) ts in
      take lmt (map (kline_of intervalMs sel)
                  (sort_key uminus (remdups (map (bucket_of intervalMs) sel)))))"

definition GetKLines :: "string \<Rightarrow> string \<Rightarrow> nat \<Rightarrow> KLine list dbm" where
  "GetKLines symbol interval lmt =
     stmt (\<lambda>d. Inr (select_klines symbol (parseIntervalMs interval) lmt (trades d), d))"

definition GetRecentTrades :: "string \<Rightarrow> nat \<Rightarrow> Trade list dbm" where
  "GetRecentTrades symbol lmt =
     stmt (\<lambda>d. Inr (take lmt (sort_key (\<lambda>t. - tCreatedAt t)
                                (filter (\<lambda>t. tSymbol t = symbol) (trades d))), d))"

definition DeleteAllTrades :: "unit dbm" where
  "DeleteAllTrades = stmt (\<lambda>d. Inr ((), d\<lparr>trades := []\<rparr>))"

section \<open>user_repository.go\<close>

definition CreateUser :: "User \<Rightarrow> unit dbm" where
  "CreateUser user =
     stmt (\<lambda>d. if uID user \<in> uID ` set (users d) then Inl (ErrUniqueViolation ''users_pkey'')
               else if uEmail user \<in> uEmail ` set (users d)
                    then Inl (ErrUniqueViolation ''users_email'')
               else Inr ((), d\<lparr>users := users d @ [user]\<rparr>))"

definition GetUserByEmail :: "string \<Rightarrow> User dbm" where
  "GetUserByEmail email =
     stmt (\<lambda>d. case find (\<lambda>u. uEmail u = email) (users d) of
                 None \<Rightarrow> Inl ErrNoRows | Some u \<Rightarrow> Inr (u, d))"

section \<open>postgres.go: the fencing check inside a transaction\<close>

definition select_token :: "string \<Rightarrow> DB \<Rightarrow> error + int \<times> DB" where
  "select_token part d = (case find (\<lambda>l. lPartition l = part) (locks d) of
                                 None \<Rightarrow> Inl ErrNoRows | Some l \<Rightarrow> Inr (lFencingToken l, d))"

text \<open>Every error of the query, not only the missing row, lets the message pass.\<close>

definition ValidateFencingTokenTx :: "string \<Rightarrow> int \<Rightarrow> bool dbm" where
  "ValidateFencingTokenTx part token =
     (if token \<le> 0 then ret True
      else catch (bind (stmt (select_token part))
                   (\<lambda>currentToken. if token < currentToken then ret False else ret True))
             (\<lambda>_. ret True))"

section \<open>Frames of the repository methods\<close>

lemma reader_frames [frames]:
  "frame p (GetAccount u c)" "frame p (GetAccountsByUser u)" "frame p (GetOrder oid)"
  "frame p (GetOrderForUpdate oid)" "frame p (GetOrdersByUser u)" "frame p GetActiveOrders"
  "frame p (TradeExistsByID tid)" "frame p (GetKLines sy iv n)" "frame p (GetRecentTrades sy n)"
  "frame p (GetUserByEmail e)" "frame p (ValidateFencingTokenTx part token)"
  unfolding GetAccount_def GetAccountsByUser_def GetOrder_def GetOrderForUpdate_def GetOrdersByUser_def
    GetActiveOrders_def TradeExistsByID_def GetKLines_def GetRecentTrades_def GetUserByEmail_def
    ValidateFencingTokenTx_def
  by (intro frames; auto simp: select_order_def select_token_def split: option.splits)+

lemma account_frames [frames]:
  "(\<And>d as. p (d\<lparr>accounts := as\<rparr>) = p d) \<Longrightarrow> frame p (update_accounts P f)"
  "(\<And>d as. p (d\<lparr>accounts := as\<rparr>) = p d) \<Longrightarrow> frame p (UpdateBalance u c x)"
  "(\<And>d as. p (d\<lparr>accounts := as\<rparr>) = p d) \<Longrightarrow> frame p (UnlockFunds u c x)"
  "(\<And>d as. p (d\<lparr>accounts := as\<rparr>) = p d) \<Longrightarrow> frame p (lock_stmt t u c x)"
  "(\<And>d as. p (d\<lparr>accounts := as\<rparr>) = p d) \<Longrightarrow> frame p (LockFunds u c x)"
  "(\<And>d as. p (d\<lparr>accounts := as\<rparr>) = p d) \<Longrightarrow> frame p (BatchLockFunds ustr lf)"
  "(\<And>d as. p (d\<lparr>accounts := as\<rparr>) = p d) \<Longrightarrow> frame p (CreateAccount a)"
  unfolding UpdateBalance_def UnlockFunds_def LockFunds_def lock_stmt_def BatchLockFunds_def
    update_accounts_def CreateAccount_def
  by (intro frames; auto split: if_splits prod.splits intro!: frames)+

lemma order_frames [frames]:
  "(\<And>d xs. p (d\<lparr>orders := xs\<rparr>) = p d) \<Longrightarrow> frame p (CreateOrder x)"
  "(\<And>d xs. p (d\<lparr>orders := xs\<rparr>) = p d) \<Longrightarrow> frame p (UpdateOrder x)"
  "(\<And>d xs. p (d\<lparr>orders := xs\<rparr>) = p d) \<Longrightarrow> frame p (stmt (insert_orders xs))"
  unfolding CreateOrder_def UpdateOrder_def
  by (intro frames; auto simp: insert_orders_def split: if_splits)+

lemma frame_BatchCreateOrders [frames]:
  "(\<And>d xs. p (d\<lparr>orders := xs\<rparr>) = p d) \<Longrightarrow> frame p (BatchCreateOrders new)"
  using order_frames(3) [of p new] by (auto simp: frame_def BatchCreateOrders_def)

lemma trade_frames [frames]:
  "(\<And>d ts. p (d\<lparr>trades := ts\<rparr>) = p d) \<Longrightarrow> frame p (CreateTrade t)"
  unfolding CreateTrade_def by (intro frames) (auto split: if_splits)

section \<open>The exchange sort\<close>

lemma exchange_pass_mset:
  "add_mset (fst (exchange_pass key x ys)) (mset (snd (exchange_pass key x ys))) = add_mset x (mset ys)"
  by (induction key x ys rule: exchange_pass.induct) (auto split: prod.splits)

lemma exchange_pass_least:
  "z \<in> set (x # ys) \<Longrightarrow> key (fst (exchange_pass key x ys)) \<le> key z"
proof (induction key x ys arbitrary: z rule: exchange_pass.induct)
  case (2 key x y ys)
  show ?case
  proof (cases "key x > key y")
    case True
    with "2.IH"(1) [OF True, of y] "2.IH"(1) [OF True, of z] "2.prems" show ?thesis
      by (auto split: prod.splits)
  next
    case False
    with "2.IH"(2) [OF False, of x] "2.IH"(2) [OF False, of z] "2.prems" show ?thesis
      by (auto split: prod.splits)
  qed
qed simp

lemma exchange_sort_mset: "mset (exchange_sort key xs) = mset xs"
proof (induction key xs rule: exchange_sort.induct)
  case (2 key x xs)
  then show ?case
    using exchange_pass_mset [of key x xs] by (auto split: prod.splits)
qed simp

lemma exchange_sort_sorted: "sorted (map key (exchange_sort key xs))"
proof (induction key xs rule: exchange_sort.induct)
  case (2 key x xs)
  obtain m r where p: "exchange_pass key x xs = (m, r)" by (cases "exchange_pass key x xs")
  have "key m \<le> key z" if "z \<in> set (exchange_sort key r)" for z
  proof -
    from that have "z \<in># mset r" by (metis exchange_sort_mset set_mset_mset)
    then have "z \<in> set (x # xs)"
      using exchange_pass_mset [of key x xs] p by (metis fst_conv snd_conv mset.simps(2) set_mset_mset union_single_eq_member insert_iff set_mset_add_mset_insert)
    then show ?thesis using exchange_pass_least [of z x xs key] p by simp
  qed
  with 2 p show ?case by simp
qed simp

lemma exchange_sort_set [simp]: "set (exchange_sort key xs) = set xs"
  by (metis exchange_sort_mset set_mset_mset)

lemma exchange_sort_distinct: "distinct (exchange_sort key xs) = distinct xs"
  by (metis exchange_sort_mset mset_eq_imp_distinct_iff)

text \<open>With an injective key the result does not depend on the order the map was iterated in.\<close>

lemma exchange_sort_deterministic:
  assumes "inj_on key (set xs)" and "distinct xs" and "distinct ys" and "set xs = set ys"
  shows "exchange_sort key xs = exchange_sort key ys"
proof (rule map_sorted_distinct_set_unique [where f = key])
  show "inj_on key (set (exchange_sort key xs) \<union> set (exchange_sort key ys))"
    using assms by simp
  show "sorted (map key (exchange_sort key xs))" "sorted (map key (exchange_sort key ys))"
    by (rule exchange_sort_sorted)+
  show "distinct (map key (exchange_sort key xs))" "distinct (map key (exchange_sort key ys))"
    using assms by (simp_all add: distinct_map exchange_sort_distinct)
  show "set (exchange_sort key xs) = set (exchange_sort key ys)"
    using assms by simp
qed

section \<open>What the account statements do\<close>

definition accounts_ok :: "DB \<Rightarrow> bool" where
  "accounts_ok d \<longleftrightarrow> distinct (map acc_key (accounts d)) \<and>
     (\<forall>a \<in> set (accounts d). 0 \<le> aBalance a \<and> 0 \<le> aLocked a)"

lemma acc_key_updates [simp, table_simps]:
  "acc_key (a\<lparr>aBalance := x\<rparr>) = acc_key a" "acc_key (a\<lparr>aLocked := x\<rparr>) = acc_key a"
  "acc_key (a\<lparr>aUpdatedAt := t\<rparr>) = acc_key a"
  by (simp_all add: acc_key_def)

text \<open>All the money of one currency, available and locked.\<close>

definition total :: "string \<Rightarrow> DB \<Rightarrow> decimal" where
  "total cur d = sum_list (map (\<lambda>a. if aCurrency a = cur then aBalance a + aLocked a else 0) (accounts d))"

definition has_account :: "uuid \<Rightarrow> string \<Rightarrow> DB \<Rightarrow> bool" where
  "has_account uid cur d \<longleftrightarrow> (uid, cur) \<in> acc_key ` set (accounts d)"

lemma update_accounts_Inr [stmt_simps]:
  "update_accounts P f s = (Inr n, s') \<longleftrightarrow> \<not> aborted s \<and> \<not> outage s (calls s) \<and>
     (\<forall>a \<in> set (accounts (db s)). P a \<longrightarrow> 0 \<le> aBalance (f a) \<and> 0 \<le> aLocked (f a)) \<and>
     n = rows_affected P (accounts (db s)) \<and>
     s' = s\<lparr>calls := Suc (calls s), db := (db s)\<lparr>accounts := update_where P f (accounts (db s))\<rparr>\<rparr>"
  by (auto simp: update_accounts_def stmt_Inr_iff list_ex_iff not_less split: if_splits)

text \<open>
  An update that respects keys and, through the table's checks, the signs keeps the accounts well
  formed and the set of accounts.
\<close>

lemma accounts_ok_update:
  assumes "accounts_ok d" and "\<And>a. acc_key (f a) = acc_key a"
    and "\<forall>a \<in> set (accounts d). P a \<longrightarrow> 0 \<le> aBalance (f a) \<and> 0 \<le> aLocked (f a)"
  shows "accounts_ok (d\<lparr>accounts := update_where P f (accounts d)\<rparr>)"
  using assms map_update_where_same [of "accounts d" P acc_key f]
  by (auto simp: accounts_ok_def set_update_where)

lemma has_account_update:
  "(\<And>a. acc_key (f a) = acc_key a) \<Longrightarrow>
   has_account u c (d\<lparr>accounts := update_where P f (accounts d)\<rparr>) = has_account u c d"
  using map_update_where_same [of "accounts d" P acc_key f]
  unfolding has_account_def by (metis DB.select_convs(2) DB.surjective DB.update_convs(2) list.set_map)

lemma total_update_same:
  "(\<And>a. aCurrency (f a) = aCurrency a \<and> aBalance (f a) + aLocked (f a) = aBalance a + aLocked a) \<Longrightarrow>
   total c (d\<lparr>accounts := update_where P f (accounts d)\<rparr>) = total c d"
  unfolding total_def by (simp add: sum_list_update_where_same)

lemma lock_stmt_Inr:
  "lock_stmt t u c x s = (Inr (), s') \<longleftrightarrow> \<not> aborted s \<and> \<not> outage s (calls s) \<and>
     (\<exists>a \<in> set (accounts (db s)). acc_key a = (u, c) \<and> x \<le> aBalance a) \<and>
     (\<forall>a \<in> set (accounts (db s)). acc_key a = (u, c) \<and> x \<le> aBalance a \<longrightarrow>
        0 \<le> aBalance a - x \<and> 0 \<le> aLocked a + x) \<and>
     s' = s\<lparr>calls := Suc (calls s),
            db := (db s)\<lparr>accounts := update_where (\<lambda>a. acc_key a = (u, c) \<and> x \<le> aBalance a)
              (\<lambda>a. a\<lparr>aBalance := aBalance a - x, aLocked := aLocked a + x, aUpdatedAt := t\<rparr>)
              (accounts (db s))\<rparr>\<rparr>"
  by (auto simp: lock_stmt_def bind_Inr_iff update_accounts_Inr split: if_splits)

lemma lock_stmt_keeps:
  assumes "lock_stmt t u c x s = (Inr (), s')"
  shows "(accounts_ok (db s) \<longrightarrow> accounts_ok (db s')) \<and> total c' (db s') = total c' (db s)"
  using assms unfolding lock_stmt_Inr
  by (auto intro!: accounts_ok_update total_update_same simp: acc_key_def)

lemma UnlockFunds_Inr:
  "UnlockFunds u c x s = (Inr (), s') \<longleftrightarrow> \<not> aborted s \<and> \<not> outage s (Suc (calls s)) \<and>
     (\<forall>a \<in> set (accounts (db s)). acc_key a = (u, c) \<and> x \<le> aLocked a \<longrightarrow>
        0 \<le> aBalance a + x \<and> 0 \<le> aLocked a - x) \<and>
     s' = s\<lparr>calls := Suc (Suc (calls s)),
            db := (db s)\<lparr>accounts := update_where (\<lambda>a. acc_key a = (u, c) \<and> x \<le> aLocked a)
              (\<lambda>a. a\<lparr>aBalance := aBalance a + x, aLocked := aLocked a - x,
                     aUpdatedAt := clock s (calls s)\<rparr>) (accounts (db s))\<rparr>\<rparr>"
  by (auto simp: UnlockFunds_def bind_Inr_iff update_accounts_Inr)

lemma UpdateBalance_Inr:
  "UpdateBalance u c x s = (Inr (), s') \<longleftrightarrow> \<not> aborted s \<and> \<not> outage s (Suc (calls s)) \<and>
     (\<forall>a \<in> set (accounts (db s)). acc_key a = (u, c) \<longrightarrow> 0 \<le> aBalance a + x \<and> 0 \<le> aLocked a) \<and>
     s' = s\<lparr>calls := Suc (Suc (calls s)),
            db := (db s)\<lparr>accounts := update_where (\<lambda>a. acc_key a = (u, c))
              (\<lambda>a. a\<lparr>aBalance := aBalance a + x, aUpdatedAt := clock s (calls s)\<rparr>)
              (accounts (db s))\<rparr>\<rparr>"
  by (auto simp: UpdateBalance_def bind_Inr_iff update_accounts_Inr)

lemma total_credit:
  assumes "accounts_ok d" and "has_account u c d"
    and "\<And>a. f a = a\<lparr>aBalance := aBalance a + x, aUpdatedAt := t\<rparr>"
  shows "total c' (d\<lparr>accounts := update_where (\<lambda>a. acc_key a = (u, c)) f (accounts d)\<rparr>)
           = total c' d + (if c' = c then x else 0)"
proof -
  from assms(2) obtain a0 where "a0 \<in> set (accounts d)" "acc_key a0 = (u, c)"
    by (auto simp: has_account_def)
  moreover have "distinct (map acc_key (accounts d))"
    using assms(1) by (simp add: accounts_ok_def)
  ultimately show ?thesis
    unfolding total_def
    using sum_list_update_where_key [where key = acc_key and k = "(u, c)" and rows = "accounts d"
        and g = "\<lambda>a. if aCurrency a = c' then aBalance a + aLocked a else 0" and f = f
        and d = "if c' = c then x else 0" and ?r0.0 = a0]
    by (auto simp: assms(3) acc_key_def)
qed

section \<open>The interface of a ledger\<close>

text \<open>
  What the settlement relies on: releasing locked funds moves no money, crediting an existing
  account changes the total of its currency by the amount, and neither creates or removes accounts.
\<close>

locale ledger =
  fixes unlock :: "uuid \<Rightarrow> string \<Rightarrow> decimal \<Rightarrow> unit dbm"
    and credit :: "uuid \<Rightarrow> string \<Rightarrow> decimal \<Rightarrow> unit dbm"
    and tot :: "string \<Rightarrow> DB \<Rightarrow> decimal"
    and ok :: "DB \<Rightarrow> bool"
    and has :: "uuid \<Rightarrow> string \<Rightarrow> DB \<Rightarrow> bool"
  assumes unlock_law: "unlock u c x s = (Inr (), s') \<Longrightarrow> ok (db s) \<Longrightarrow>
      ok (db s') \<and> tot c' (db s') = tot c' (db s) \<and> (has u' c' (db s') = has u' c' (db s))"
    and credit_law: "credit u c x s = (Inr (), s') \<Longrightarrow> ok (db s) \<Longrightarrow>
      ok (db s') \<and> (has u' c' (db s') = has u' c' (db s)) \<and>
      (has u c (db s) \<longrightarrow> tot c' (db s') = tot c' (db s) + (if c' = c then x else 0))"
begin

text \<open>One update of a settlement: release, then credit, each only when there is something to do.\<close>

definition apply_one :: "uuid \<times> string \<times> decimal \<times> decimal \<Rightarrow> unit dbm" where
  "apply_one = (\<lambda>(u, c, amount, unl).
     bind (do_if (0 < unl) (unlock u c unl)) (\<lambda>_. do_if (amount \<noteq> 0) (credit u c amount)))"

lemma apply_one_law:
  assumes "apply_one (u, c, amount, unl) s = (Inr (), s')" and "ok (db s)"
  shows "ok (db s') \<and> (has u' c' (db s') = has u' c' (db s)) \<and>
    (amount = 0 \<or> has u c (db s) \<longrightarrow> tot c' (db s') = tot c' (db s) + (if c' = c then amount else 0))"
proof -
  from assms(1) obtain s1 where 1: "do_if (0 < unl) (unlock u c unl) s = (Inr (), s1)"
    and 2: "do_if (amount \<noteq> 0) (credit u c amount) s1 = (Inr (), s')"
    by (auto simp: apply_one_def bind_Inr_iff)
  from 1 have s1: "ok (db s1) \<and> tot c'' (db s1) = tot c'' (db s) \<and> (has u'' c'' (db s1) = has u'' c'' (db s))"
    for u'' c''
    using unlock_law [of u c unl s s1] assms(2) by (auto simp: do_if_def split: if_splits)
  show ?thesis
  proof (cases "amount = 0")
    case True
    with 2 s1 show ?thesis by (auto simp: do_if_def)
  next
    case False
    with 2 have "credit u c amount s1 = (Inr (), s')" by (simp add: do_if_def)
    from credit_law [OF this, of u' c'] s1 [of c' u'] s1 [of c u] False show ?thesis by auto
  qed
qed

lemma apply_all_law:
  assumes "for_each ups apply_one s = (Inr (), s')" and "ok (db s)"
    and "\<forall>(u, c, amount, unl) \<in> set ups. amount = 0 \<or> has u c (db s)"
  shows "ok (db s') \<and> (has u' c' (db s') = has u' c' (db s)) \<and>
    tot cur (db s') = tot cur (db s) + sum_list (map (\<lambda>(u, c, amount, unl). if cur = c then amount else 0) ups)"
  using assms
proof (induction ups arbitrary: s)
  case (Cons up ups)
  obtain u c amount unl where up: "up = (u, c, amount, unl)" by (cases up)
  from Cons.prems(1) obtain s1 where 1: "apply_one up s = (Inr (), s1)"
    and 2: "for_each ups apply_one s1 = (Inr (), s')"
    by (auto simp: bind_Inr_iff)
  have "amount = 0 \<or> has u c (db s)"
    using Cons.prems(3) up by simp
  then have law: "ok (db s1) \<and> (has u'' c'' (db s1) = has u'' c'' (db s)) \<and>
      tot c'' (db s1) = tot c'' (db s) + (if c'' = c then amount else 0)" for u'' c''
    using apply_one_law [OF 1 [unfolded up] Cons.prems(2), of u'' c''] by blast
  have "\<forall>(u, c, amount, unl) \<in> set ups. amount = 0 \<or> has u c (db s1)"
    using Cons.prems(3) law by auto
  from Cons.IH [OF 2 _ this] law [of u' c'] law [of u' cur] show ?case
    by (simp add: up)
qed simp

end

interpretation pg: ledger UnlockFunds UpdateBalance total accounts_ok has_account
proof
  fix u c x s s' c' u'
  show "UnlockFunds u c x s = (Inr (), s') \<Longrightarrow> accounts_ok (db s) \<Longrightarrow>
      accounts_ok (db s') \<and> total c' (db s') = total c' (db s) \<and>
      has_account u' c' (db s') = has_account u' c' (db s)"
    unfolding UnlockFunds_Inr
    by (auto intro!: accounts_ok_update total_update_same has_account_update simp: acc_key_def)
  show "UpdateBalance u c x s = (Inr (), s') \<Longrightarrow> accounts_ok (db s) \<Longrightarrow>
      accounts_ok (db s') \<and> has_account u' c' (db s') = has_account u' c' (db s) \<and>
      (has_account u c (db s) \<longrightarrow> total c' (db s') = total c' (db s) + (if c' = c then x else 0))"
    unfolding UpdateBalance_Inr
    by (auto intro!: accounts_ok_update has_account_update simp: total_credit)
qed

end
