(* ===== verification/Settlement.thy ===== *)
theory Settlement
  imports Repository
begin

text \<open>
  The settlement consumer: src/internal/order/event_subscribers.go, with \<open>splitSymbol\<close> of
  src/internal/order/service.go. \<open>rnd\<close> stands for \<open>decimal.Round(8)\<close> and \<open>ustr\<close> for
  \<open>uuid.String()\<close>. The events a handler hands to the event bus are the value it returns: the code
  tries each once and only logs a failure. \<open>bus\<close> says whether an event bus is configured.
\<close>

section \<open>splitSymbol\<close>

text \<open>\<open>strings.Split\<close> with a one character separator.\<close>

fun split_on :: "char \<Rightarrow> string \<Rightarrow> string list" where
  "split_on c [] = [[]]"
| "split_on c (x # xs) =
     (if x = c then [] # split_on c xs
      else (case split_on c xs of [] \<Rightarrow> [[x]] | p # ps \<Rightarrow> (x # p) # ps))"

definition splitSymbol :: "string \<Rightarrow> error + string \<times> string" where
  "splitSymbol symbol =
     (case split_on (CHR ''-'') symbol of
        [base, quote] \<Rightarrow> Inr (base, quote)
      | _ \<Rightarrow> Inl (ErrMsg ''invalid symbol format''))"

section \<open>Account updates\<close>

record AccountUpdate =
  auUserID :: uuid
  auCurrency :: string
  auAmount :: decimal
  auUnlock :: decimal

definition calculateUnlockAmount :: "Order \<Rightarrow> decimal \<Rightarrow> error + string \<times> decimal" where
  "calculateUnlockAmount order remainingQty =
     (case splitSymbol (dSymbol order) of
        Inl e \<Rightarrow> Inl e
      | Inr (base, quote) \<Rightarrow>
          if dSide order = SideBuy then Inr (quote, dPrice order * remainingQty)
          else Inr (base, remainingQty))"

definition calculateTradeSettlement ::
  "(decimal \<Rightarrow> decimal) \<Rightarrow> Trade \<Rightarrow> Order \<Rightarrow> Order \<Rightarrow> error + AccountUpdate list" where
  "calculateTradeSettlement rnd trade takerOrder makerOrder =
     (let tradeValue = tPrice trade * tQuantity trade;
          buyer = (if dSide takerOrder = SideBuy then takerOrder else makerOrder);
          seller = (if dSide takerOrder = SideBuy then makerOrder else takerOrder)
      in case splitSymbol (dSymbol takerOrder) of
           Inl e \<Rightarrow> Inl e
         | Inr (base, quote) \<Rightarrow>
             (let buyerUnlockAmount =
                    (if dID buyer = dID takerOrder
                     then (if dType takerOrder = TypeMarket then tradeValue
                           else if dPrice takerOrder \<noteq> 0 then dPrice takerOrder * tQuantity trade
                           else tradeValue)
                     else tradeValue);
                  buyerUnlockAmount' = rnd buyerUnlockAmount;
                  tradeValue' = rnd tradeValue;
                  tradeQty = rnd (tQuantity trade)
              in Inr
                [\<lparr>auUserID = dUserID buyer, auCurrency = quote, auAmount = - tradeValue',
                  auUnlock = buyerUnlockAmount'\<rparr>,
                 \<lparr>auUserID = dUserID buyer, auCurrency = base, auAmount = tradeQty, auUnlock = 0\<rparr>,
                 \<lparr>auUserID = dUserID seller, auCurrency = base, auAmount = - tradeQty,
                  auUnlock = tradeQty\<rparr>,
                 \<lparr>auUserID = dUserID seller, auCurrency = quote, auAmount = tradeValue',
                  auUnlock = 0\<rparr>]))"

text \<open>
  \<open>aggregateAndSortAccountUpdates\<close>: the Go map keyed by \<open>user_currency\<close> is an association list, the
  first update of a key is copied in and later ones are added to it. The map is iterated in an
  arbitrary order, which the final sort makes irrelevant.
\<close>

definition agg_key :: "(uuid \<Rightarrow> string) \<Rightarrow> AccountUpdate \<Rightarrow> string" where
  "agg_key ustr up = ustr (auUserID up) @ ''_'' @ auCurrency up"

fun agg_insert :: "string \<Rightarrow> AccountUpdate \<Rightarrow> (string \<times> AccountUpdate) list
                     \<Rightarrow> (string \<times> AccountUpdate) list" where
  "agg_insert k up [] = [(k, up)]"
| "agg_insert k up ((k', ex) # m) =
     (if k = k'
      then (k', ex\<lparr>auAmount := auAmount ex + auAmount up, auUnlock := auUnlock ex + auUnlock up\<rparr>) # m
      else (k', ex) # agg_insert k up m)"

definition agg_map :: "(uuid \<Rightarrow> string) \<Rightarrow> AccountUpdate list \<Rightarrow> (string \<times> AccountUpdate) list" where
  "agg_map ustr updates = foldl (\<lambda>m up. agg_insert (agg_key ustr up) up m) [] updates"

definition aggregateAndSortAccountUpdates ::
  "(uuid \<Rightarrow> string) \<Rightarrow> AccountUpdate list \<Rightarrow> AccountUpdate list" where
  "aggregateAndSortAccountUpdates ustr updates =
     sort_key (\<lambda>u. (ustr (auUserID u), auCurrency u))
       (filter (\<lambda>u. auAmount u \<noteq> 0 \<or> auUnlock u \<noteq> 0) (map snd (agg_map ustr updates)))"

section \<open>executeSettlementTx\<close>

text \<open>
  \<open>lockedOrders\<close>, a map from identifiers to order pointers: taker and maker are read and written
  through it, so that a trade whose two orders coincide would see its own writes.
\<close>

type_synonym locked_orders = "uuid \<Rightarrow> Order option"

definition deref :: "locked_orders \<Rightarrow> uuid \<Rightarrow> Order dbm" where
  "deref lk oid = (case lk oid of None \<Rightarrow> fail (ErrMsg ''nil pointer dereference'') | Some x \<Rightarrow> ret x)"

definition settlement_ids :: "(uuid \<Rightarrow> string) \<Rightarrow> SettlementRequestedEvent \<Rightarrow> uuid list" where
  "settlement_ids ustr event =
     sort_key ustr (remdups (map tMakerOrderID (srTrades event) @ [srTakerOrderID event]))"

definition lock_order_row :: "uuid \<Rightarrow> Order dbm" where
  "lock_order_row oid =
     catch (GetOrderForUpdate oid)
       (\<lambda>e. if errors_is e ErrNoRows then fail ErrStaleSettlementEvent
            else fail (ErrWrap ''lock order'' e))"

definition fence :: "int \<Rightarrow> unit dbm" where
  "fence token =
     do_if (token > 0)
       (bind (wrap ''validate fencing token'' (ValidateFencingTokenTx ''matching-engine:global'' token))
          (\<lambda>valid. if \<not> valid then fail ErrStaleSettlementEvent else ret ()))"

definition maker_filled :: "Trade \<Rightarrow> Order \<Rightarrow> Order" where
  "maker_filled trade makerOrder =
     (let filled = dFilledQuantity makerOrder + tQuantity trade;
          m = makerOrder\<lparr>dFilledQuantity := filled\<rparr>
      in if filled = dQuantity m then m\<lparr>dStatus := StatusFilled\<rparr>
         else if filled > 0 then m\<lparr>dStatus := StatusPartiallyFilled\<rparr> else m)"

text \<open>One iteration of the trade loop: the maker, the account updates, the taker's filled quantity.\<close>

definition settle_trade ::
  "(decimal \<Rightarrow> decimal) \<Rightarrow> uuid \<Rightarrow> Trade \<Rightarrow> locked_orders \<times> AccountUpdate list
     \<Rightarrow> (locked_orders \<times> AccountUpdate list) dbm" where
  "settle_trade rnd takerID trade = (\<lambda>(lk, ups).
     bind (deref lk (tMakerOrderID trade)) (\<lambda>makerOrder.
     bind now (\<lambda>t.
     let makerOrder' = (maker_filled trade makerOrder)\<lparr>dUpdatedAt := t\<rparr>;
         lk1 = lk(tMakerOrderID trade \<mapsto> makerOrder')
     in bind (deref lk1 takerID) (\<lambda>takerOrder.
        case calculateTradeSettlement rnd trade takerOrder makerOrder' of
          Inl e \<Rightarrow> fail (ErrWrap ''calculate settlement'' e)
        | Inr updates \<Rightarrow>
            ret (lk1(takerID \<mapsto> takerOrder\<lparr>dFilledQuantity := dFilledQuantity takerOrder + tQuantity trade\<rparr>),
                 ups @ updates)))))"

fun settle_trades ::
  "(decimal \<Rightarrow> decimal) \<Rightarrow> uuid \<Rightarrow> Trade list \<Rightarrow> locked_orders \<times> AccountUpdate list
     \<Rightarrow> (locked_orders \<times> AccountUpdate list) dbm" where
  "settle_trades rnd takerID [] st = ret st"
| "settle_trades rnd takerID (t # ts) st =
     bind (settle_trade rnd takerID t st) (settle_trades rnd takerID ts)"

definition trade_value :: "Trade list \<Rightarrow> decimal" where
  "trade_value ts = foldl (\<lambda>acc t. acc + tPrice t * tQuantity t) 0 ts"

text \<open>The taker's final status and the refund (the zero \<open>Decimal\<close> when no branch sets it).\<close>

definition taker_outcome :: "SettlementRequestedEvent \<Rightarrow> Order \<Rightarrow> Order \<times> decimal" where
  "taker_outcome event takerOrder =
     (if dType takerOrder = TypeMarket
      then (takerOrder\<lparr>dStatus := if dFilledQuantity takerOrder = 0 then StatusCanceled else StatusFilled\<rparr>,
            if dSide takerOrder = SideBuy then srAmountLocked event - trade_value (srTrades event)
            else dQuantity takerOrder - dFilledQuantity takerOrder)
      else if dFilledQuantity takerOrder = dQuantity takerOrder
      then (takerOrder\<lparr>dStatus := StatusFilled\<rparr>, 0)
      else if srRemainingQty event = 0
      then (takerOrder\<lparr>dStatus := StatusCanceled\<rparr>,
            let canceledQty = dQuantity takerOrder - dFilledQuantity takerOrder
            in if dSide takerOrder = SideBuy then canceledQty * dPrice takerOrder else canceledQty)
      else if dFilledQuantity takerOrder > 0
      then (takerOrder\<lparr>dStatus := StatusPartiallyFilled\<rparr>, 0)
      else (takerOrder, 0))"

definition refund_updates ::
  "(decimal \<Rightarrow> decimal) \<Rightarrow> SettlementRequestedEvent \<Rightarrow> Order \<Rightarrow> decimal \<Rightarrow> AccountUpdate list" where
  "refund_updates rnd event takerOrder refundAmount =
     (if refundAmount > 0
      then [\<lparr>auUserID = dUserID takerOrder, auCurrency = srLockedCurrency event, auAmount = 0,
             auUnlock = rnd refundAmount\<rparr>]
      else [])"

definition save_order :: "locked_orders \<Rightarrow> uuid \<Rightarrow> Order dbm" where
  "save_order lk oid =
     bind (deref lk oid) (\<lambda>x.
     bind now (\<lambda>t.
     let orderToSave = x\<lparr>dUpdatedAt := t\<rparr> in
     bind (wrap ''update order'' (UpdateOrder orderToSave)) (\<lambda>_. ret orderToSave)))"

definition apply_update :: "AccountUpdate \<Rightarrow> unit dbm" where
  "apply_update up =
     bind (do_if (auUnlock up > 0)
             (wrap ''unlock funds'' (UnlockFunds (auUserID up) (auCurrency up) (auUnlock up)))) (\<lambda>_.
     do_if (auAmount up \<noteq> 0)
       (wrap ''update balance'' (UpdateBalance (auUserID up) (auCurrency up) (auAmount up))))"

text \<open>The closure handed to \<open>ExecTx\<close>; its value is \<open>updatedOrders\<close>.\<close>

definition settlement_body ::
  "(uuid \<Rightarrow> string) \<Rightarrow> (decimal \<Rightarrow> decimal) \<Rightarrow> SettlementRequestedEvent \<Rightarrow> Order list dbm" where
  "settlement_body ustr rnd event =
     bind (fence (srFencingToken event)) (\<lambda>_.
     let allOrderIDs = settlement_ids ustr event in
     bind (map_each allOrderIDs lock_order_row) (\<lambda>rows.
     let lockedOrders = map_of (zip allOrderIDs rows) in
     bind (deref lockedOrders (srTakerOrderID event)) (\<lambda>takerOrder.
     if dStatus takerOrder \<noteq> StatusNew then fail ErrIdempotencySkip else
     bind (case srTrades event of
             [] \<Rightarrow> ret ()
           | t # _ \<Rightarrow> bind (wrap ''idempotency check in tx'' (TradeExistsByID (tID t)))
                       (\<lambda>exists. if exists then fail ErrIdempotencySkip else ret ())) (\<lambda>_.
     bind (settle_trades rnd (srTakerOrderID event) (srTrades event) (lockedOrders, [])) (\<lambda>(lk, ups).
     bind (deref lk (srTakerOrderID event)) (\<lambda>takerOrder.
     let (takerOrder', refundAmount) = taker_outcome event takerOrder;
         lk' = lk(srTakerOrderID event \<mapsto> takerOrder');
         allAccountUpdates = ups @ refund_updates rnd event takerOrder' refundAmount in
     bind (map_each allOrderIDs (save_order lk')) (\<lambda>updatedOrders.
     bind (for_each (srTrades event) (\<lambda>t. wrap ''create trade'' (CreateTrade t))) (\<lambda>_.
     bind (for_each (aggregateAndSortAccountUpdates ustr allAccountUpdates) apply_update) (\<lambda>_.
     ret updatedOrders)))))))))"

definition order_updated :: "Order \<Rightarrow> event" where
  "order_updated x = EvOrderUpdated \<lparr>ouEventType = EventOrderUpdated, ouSymbol = dSymbol x, ouOrder = Some x\<rparr>"

definition executeSettlementTx ::
  "(uuid \<Rightarrow> string) \<Rightarrow> (decimal \<Rightarrow> decimal) \<Rightarrow> bool \<Rightarrow> SettlementRequestedEvent \<Rightarrow> event list dbm" where
  "executeSettlementTx ustr rnd bus event =
     catch (bind (ExecTx (settlement_body ustr rnd event))
              (\<lambda>updatedOrders. ret (if bus then map order_updated updatedOrders else [])))
       (\<lambda>err. if errors_is err ErrIdempotencySkip \<or> errors_is err ErrStaleSettlementEvent
              then ret [] else fail err)"

section \<open>The handlers\<close>

definition handleSettlementRequested ::
  "(uuid \<Rightarrow> string) \<Rightarrow> (decimal \<Rightarrow> decimal) \<Rightarrow> bool \<Rightarrow> SettlementRequestedEvent \<Rightarrow> event list dbm" where
  "handleSettlementRequested ustr rnd bus event =
     (case srTrades event of
        t # _ \<Rightarrow>
          bind (wrap ''idempotency check'' (TradeExistsByID (tID t))) (\<lambda>exists.
          if exists then ret [] else executeSettlementTx ustr rnd bus event)
      | [] \<Rightarrow>
          bind (catch (bind (GetOrder (srTakerOrderID event)) (\<lambda>x. ret (Some x)))
                  (\<lambda>err. if errors_is err ErrNoRows then ret None
                         else fail (ErrWrap ''query taker order'' err))) (\<lambda>found.
          case found of
            None \<Rightarrow> ret []
          | Some takerOrder \<Rightarrow>
              if dStatus takerOrder \<noteq> StatusNew then ret []
              else executeSettlementTx ustr rnd bus event))"

definition canceled_body :: "OrderCanceledEvent \<Rightarrow> Order option dbm" where
  "canceled_body event =
     bind (fence (ocFencingToken event)) (\<lambda>_.
     bind (lock_order_row (ocOrderID event)) (\<lambda>order.
     if dStatus order = StatusFilled \<or> dStatus order = StatusCanceled then ret None else
     case calculateUnlockAmount order (dQuantity order - dFilledQuantity order) of
       Inl e \<Rightarrow> fail (ErrWrap ''calculate unlock amount'' e)
     | Inr (currency, amountToUnlock) \<Rightarrow>
         bind (do_if (amountToUnlock > 0)
                 (wrap ''unlock funds'' (UnlockFunds (dUserID order) currency amountToUnlock))) (\<lambda>_.
         bind now (\<lambda>t.
         let order' = order\<lparr>dStatus := StatusCanceled, dUpdatedAt := t\<rparr> in
         bind (wrap ''update order status'' (UpdateOrder order')) (\<lambda>_.
         ret (Some order'))))))"

definition handleOrderCanceled :: "bool \<Rightarrow> OrderCanceledEvent \<Rightarrow> event list dbm" where
  "handleOrderCanceled bus event =
     catch (bind (ExecTx (canceled_body event))
              (\<lambda>updatedOrder. ret (case updatedOrder of
                                      Some x \<Rightarrow> if bus then [order_updated x] else []
                                    | None \<Rightarrow> [])))
       (\<lambda>err. if errors_is err ErrStaleSettlementEvent then ret [] else fail err)"

text \<open>
  \<open>HandleEvents\<close>: the envelope is decoded first, then the event of its type. What
  \<open>json.Unmarshal\<close> makes of the bytes is given by the three decoders.
\<close>

definition HandleEvents ::
  "('v \<Rightarrow> error + string) \<Rightarrow> ('v \<Rightarrow> error + SettlementRequestedEvent) \<Rightarrow> ('v \<Rightarrow> error + OrderCanceledEvent)
     \<Rightarrow> (uuid \<Rightarrow> string) \<Rightarrow> (decimal \<Rightarrow> decimal) \<Rightarrow> bool \<Rightarrow> 'v \<Rightarrow> event list dbm" where
  "HandleEvents dec_envelope dec_settlement dec_canceled ustr rnd bus value =
     (case dec_envelope value of
        Inl e \<Rightarrow> fail (ErrWrap ''decode settlement event'' e)
      | Inr eventType \<Rightarrow>
          if eventType = EventSettlementRequested then
            (case dec_settlement value of
               Inl e \<Rightarrow> fail (ErrWrap ''decode SettlementRequestedEvent'' e)
             | Inr event \<Rightarrow> handleSettlementRequested ustr rnd bus event)
          else if eventType = EventOrderCanceled then
            (case dec_canceled value of
               Inl e \<Rightarrow> fail (ErrWrap ''decode OrderCanceledEvent'' e)
             | Inr event \<Rightarrow> handleOrderCanceled bus event)
          else ret [])"

end
