(* ===== verification/Settlement_Correct.thy ===== *)
theory Settlement_Correct
  imports Settlement
begin

text \<open>
  Correctness of the settlement: account updates of a trade cancel out, aggregation keeps every
  sum and fixes the order of the row locks, money is conserved whatever happens, an event is
  settled at most once, a stale leader's event changes nothing, errors change nothing.
\<close>

section \<open>Account updates\<close>

definition amount_in :: "string \<Rightarrow> AccountUpdate \<Rightarrow> decimal" where
  "amount_in cur up = (if cur = auCurrency up then auAmount up else 0)"

lemma settlement_zero_sum:
  "calculateTradeSettlement rnd t taker maker = Inr ups \<Longrightarrow> sum_list (map (amount_in cur) ups) = 0"
  by (auto simp: calculateTradeSettlement_def Let_def amount_in_def split: sum.splits)

lemma settlement_parties:
  assumes "calculateTradeSettlement rnd t taker maker = Inr ups" and "up \<in> set ups"
  shows "\<exists>base quote. splitSymbol (dSymbol taker) = Inr (base, quote) \<and> auCurrency up \<in> {base, quote} \<and>
     auUserID up \<in> {dUserID taker, dUserID maker}"
  using assms by (auto simp: calculateTradeSettlement_def Let_def split: sum.splits if_splits)

section \<open>Aggregation\<close>

text \<open>What is used of \<open>uuid.String()\<close>: distinct identifiers print differently, all in one length.\<close>

definition uuid_text :: "(uuid \<Rightarrow> string) \<Rightarrow> bool" where
  "uuid_text ustr \<longleftrightarrow> inj ustr \<and> (\<forall>u v. length (ustr u) = length (ustr v))"

lemma agg_key_inj:
  "uuid_text ustr \<Longrightarrow> agg_key ustr x = agg_key ustr y \<longleftrightarrow>
     auUserID x = auUserID y \<and> auCurrency x = auCurrency y"
  by (auto simp: agg_key_def uuid_text_def dest: injD)

definition agg_ok :: "(uuid \<Rightarrow> string) \<Rightarrow> (string \<times> AccountUpdate) list \<Rightarrow> bool" where
  "agg_ok ustr m \<longleftrightarrow> distinct (map fst m) \<and> (\<forall>(k, ex) \<in> set m. k = agg_key ustr ex)"

lemma agg_insert_keys: "fst ` set (agg_insert k up m) = insert k (fst ` set m)"
  by (induction k up m rule: agg_insert.induct) auto

lemma agg_insert_ok:
  "agg_ok ustr m \<Longrightarrow> agg_ok ustr (agg_insert (agg_key ustr up) up m)"
proof (induction "agg_key ustr up" up m rule: agg_insert.induct)
  case (2 up k' ex m)
  then show ?case
    using agg_insert_keys [of "agg_key ustr up" up m]
    by (auto simp: agg_ok_def agg_key_def)
qed (simp add: agg_ok_def)

lemma agg_insert_sum:
  fixes f :: "AccountUpdate \<Rightarrow> decimal"
  assumes "uuid_text ustr" and "agg_ok ustr m"
    and "\<And>x y. auUserID x = auUserID y \<Longrightarrow> auCurrency x = auCurrency y \<Longrightarrow>
      f (x\<lparr>auAmount := auAmount x + auAmount y, auUnlock := auUnlock x + auUnlock y\<rparr>) = f x + f y"
  shows "sum_list (map (f \<circ> snd) (agg_insert (agg_key ustr up) up m)) = sum_list (map (f \<circ> snd) m) + f up"
  using assms(2)
proof (induction "agg_key ustr up" up m rule: agg_insert.induct)
  case (2 up k' ex m)
  then have k': "k' = agg_key ustr ex" and m: "agg_ok ustr m" by (auto simp: agg_ok_def)
  show ?case
  proof (cases "agg_key ustr up = k'")
    case True
    with k' agg_key_inj [OF assms(1), of ex up] have "auUserID ex = auUserID up" "auCurrency ex = auCurrency up"
      by auto
    with True assms(3) show ?thesis by simp
  next
    case False
    with 2 m show ?thesis by simp
  qed
qed simp

lemma agg_map_foldl:
  assumes "uuid_text ustr" and "agg_ok ustr m"
    and "\<And>x y. auUserID x = auUserID y \<Longrightarrow> auCurrency x = auCurrency y \<Longrightarrow>
      (f :: AccountUpdate \<Rightarrow> decimal) (x\<lparr>auAmount := auAmount x + auAmount y, auUnlock := auUnlock x + auUnlock y\<rparr>)
        = f x + f y"
  shows "agg_ok ustr (foldl (\<lambda>m up. agg_insert (agg_key ustr up) up m) m ups) \<and>
    sum_list (map (f \<circ> snd) (foldl (\<lambda>m up. agg_insert (agg_key ustr up) up m) m ups)) =
    sum_list (map (f \<circ> snd) m) + sum_list (map f ups)"
  using assms(2)
proof (induction ups arbitrary: m)
  case (Cons up ups)
  then show ?case
    using agg_insert_ok [OF Cons.prems, of up] agg_insert_sum [OF assms(1) Cons.prems assms(3), of up]
    by (simp add: comp_def)
qed simp

lemma sum_list_filter_zero:
  fixes f :: "'a \<Rightarrow> 'b::comm_monoid_add"
  shows "(\<And>x. x \<in> set xs \<Longrightarrow> \<not> P x \<Longrightarrow> f x = 0) \<Longrightarrow> sum_list (map f (filter P xs)) = sum_list (map f xs)"
  by (induction xs) auto

lemma sum_list_sort_key:
  fixes f :: "'a \<Rightarrow> 'b::comm_monoid_add"
  shows "sum_list (map f (sort_key k xs)) = sum_list (map f xs)"
  by (metis mset_map mset_sort sum_mset_sum_list)

lemma aggregate_sum:
  fixes f :: "AccountUpdate \<Rightarrow> decimal"
  assumes "uuid_text ustr"
    and "\<And>x y. auUserID x = auUserID y \<Longrightarrow> auCurrency x = auCurrency y \<Longrightarrow>
      f (x\<lparr>auAmount := auAmount x + auAmount y, auUnlock := auUnlock x + auUnlock y\<rparr>) = f x + f y"
    and "\<And>x. auAmount x = 0 \<Longrightarrow> auUnlock x = 0 \<Longrightarrow> f x = 0"
  shows "sum_list (map f (aggregateAndSortAccountUpdates ustr ups)) = sum_list (map f ups)"
proof -
  have "agg_ok ustr []" by (simp add: agg_ok_def)
  note agg_map_foldl [where f = f, OF assms(1) this assms(2), of ups]
  then have "sum_list (map f (map snd (agg_map ustr ups))) = sum_list (map f ups)"
    by (simp add: agg_map_def)
  moreover have "sum_list (map f (filter (\<lambda>u. auAmount u \<noteq> 0 \<or> auUnlock u \<noteq> 0) xs)) = sum_list (map f xs)" for xs
    using assms(3) by (intro sum_list_filter_zero) auto
  ultimately show ?thesis
    by (simp add: aggregateAndSortAccountUpdates_def sum_list_sort_key)
qed

text \<open>
  Every aggregated update stems from an update of the same user and currency, and one that moves
  an amount from one that moves an amount.
\<close>

definition stems :: "AccountUpdate \<Rightarrow> AccountUpdate \<Rightarrow> bool" where
  "stems up x \<longleftrightarrow> auUserID up = auUserID x \<and> auCurrency up = auCurrency x \<and>
     (auAmount up \<noteq> 0 \<longrightarrow> auAmount x \<noteq> 0)"

lemma stems_refl [simp, intro]: "stems up up"
  by (simp add: stems_def)

lemma agg_insert_stems:
  assumes "uuid_text ustr" and "agg_ok ustr m"
    and "up' \<in> snd ` set (agg_insert (agg_key ustr up) up m)"
  shows "\<exists>x \<in> insert up (snd ` set m). stems up' x"
  using assms(2,3)
proof (induction "agg_key ustr up" up m rule: agg_insert.induct)
  case (2 up k' ex m)
  then have k': "k' = agg_key ustr ex" and m: "agg_ok ustr m" by (auto simp: agg_ok_def)
  show ?case
  proof (cases "agg_key ustr up = k'")
    case True
    with k' agg_key_inj [OF assms(1), of ex up] have "auUserID ex = auUserID up" "auCurrency ex = auCurrency up"
      by auto
    with True "2.prems"(2) show ?thesis
      by (cases "auAmount up = 0") (auto simp: stems_def image_iff)
  next
    case False
    with 2 m show ?thesis by auto
  qed
qed auto

lemma agg_map_stems:
  assumes "uuid_text ustr" and "agg_ok ustr m"
    and "up' \<in> snd ` set (foldl (\<lambda>m up. agg_insert (agg_key ustr up) up m) m ups)"
  shows "\<exists>x \<in> set ups \<union> snd ` set m. stems up' x"
  using assms(2,3)
proof (induction ups arbitrary: m)
  case (Cons up ups)
  have "agg_ok ustr (agg_insert (agg_key ustr up) up m)"
    using Cons.prems(1) by (rule agg_insert_ok)
  with Cons obtain x where x: "x \<in> set ups \<union> snd ` set (agg_insert (agg_key ustr up) up m)"
    and eq: "stems up' x" by fastforce
  show ?case
  proof (cases "x \<in> set ups")
    case True
    with eq show ?thesis by auto
  next
    case False
    with x have "x \<in> snd ` set (agg_insert (agg_key ustr up) up m)" by blast
    from agg_insert_stems [OF assms(1) Cons.prems(1) this] eq show ?thesis
      by (force simp: stems_def)
  qed
qed auto

lemma aggregate_stems:
  assumes "uuid_text ustr" and "up' \<in> set (aggregateAndSortAccountUpdates ustr ups)"
  shows "\<exists>x \<in> set ups. stems up' x"
  using agg_map_stems [OF assms(1), of "[]" up' ups] assms(2)
  by (auto simp: aggregateAndSortAccountUpdates_def agg_map_def agg_ok_def)

section \<open>The trade loop\<close>

lemma deref_Inr_iff [simp]: "deref lk oid s = (Inr x, s') \<longleftrightarrow> lk oid = Some x \<and> s' = s"
  by (auto simp: deref_def split: option.splits)

lemma settle_trade_InrE:
  assumes "settle_trade rnd tk t (lk, ups) s = (Inr (lk', ups'), s')"
  obtains maker taker lk1 u where "lk (tMakerOrderID t) = Some maker"
    and "lk1 = lk(tMakerOrderID t \<mapsto> (maker_filled t maker)\<lparr>dUpdatedAt := clock s (calls s)\<rparr>)"
    and "lk1 tk = Some taker"
    and "calculateTradeSettlement rnd t taker ((maker_filled t maker)\<lparr>dUpdatedAt := clock s (calls s)\<rparr>) = Inr u"
    and "lk' = lk1(tk \<mapsto> taker\<lparr>dFilledQuantity := dFilledQuantity taker + tQuantity t\<rparr>)"
    and "ups' = ups @ u" and "s' = s\<lparr>calls := Suc (calls s)\<rparr>"
  using assms
  by (auto simp: settle_trade_def bind_Inr_iff Let_def simp del: fun_upd_apply)

lemma maker_filled_same [simp]:
  "dUserID (maker_filled t x) = dUserID x" "dSymbol (maker_filled t x) = dSymbol x"
  "dID (maker_filled t x) = dID x" "dQuantity (maker_filled t x) = dQuantity x"
  "dFilledQuantity (maker_filled t x) = dFilledQuantity x + tQuantity t"
  by (simp_all add: maker_filled_def Let_def)

text \<open>The locked orders stand for rows: their user, symbol and key are those of the row.\<close>

definition lk_of :: "Order list \<Rightarrow> locked_orders \<Rightarrow> bool" where
  "lk_of rows lk \<longleftrightarrow> (\<forall>oid x. lk oid = Some x \<longrightarrow>
     dID x = oid \<and> (\<exists>y \<in> set rows. dID y = oid \<and> dUserID y = dUserID x \<and> dSymbol y = dSymbol x))"

lemma lk_ofD: "lk_of rows lk \<Longrightarrow> lk oid = Some x \<Longrightarrow>
   dID x = oid \<and> (\<exists>y \<in> set rows. dID y = oid \<and> dUserID y = dUserID x \<and> dSymbol y = dSymbol x)"
  by (simp add: lk_of_def)

lemma lk_of_upd:
  "lk_of rows lk \<Longrightarrow> lk oid = Some x \<Longrightarrow> dID x' = dID x \<Longrightarrow> dUserID x' = dUserID x \<Longrightarrow> dSymbol x' = dSymbol x \<Longrightarrow>
   lk_of rows (lk(oid \<mapsto> x'))"
  by (auto simp: lk_of_def)

text \<open>A party: an update of a user with a locked order, in a currency of the taker's symbol.\<close>

definition party :: "Order list \<Rightarrow> uuid set \<Rightarrow> uuid \<Rightarrow> AccountUpdate \<Rightarrow> bool" where
  "party rows ids tk up \<longleftrightarrow> (\<exists>y \<in> set rows. \<exists>z \<in> set rows. \<exists>b q. dID y = tk \<and> dID z \<in> ids \<and>
     auUserID up = dUserID z \<and> splitSymbol (dSymbol y) = Inr (b, q) \<and> auCurrency up \<in> {b, q})"

lemma settle_trade_keeps:
  assumes "settle_trade rnd tk t (lk, ups) s = (Inr (lk', ups'), s')"
    and "lk_of rows lk" and "dom lk \<subseteq> ids"
  shows "lk_of rows lk' \<and> dom lk' = dom lk \<and> db s' = db s \<and>
    sum_list (map (amount_in cur) ups') = sum_list (map (amount_in cur) ups) \<and>
    (\<forall>up \<in> set ups'. up \<in> set ups \<or> party rows ids tk up)"
proof -
  let ?m = "tMakerOrderID t"
  from assms(1) obtain maker taker lk1 u where
    m: "lk ?m = Some maker"
    and lk1: "lk1 = lk(?m \<mapsto> (maker_filled t maker)\<lparr>dUpdatedAt := clock s (calls s)\<rparr>)"
    and tk: "lk1 tk = Some taker"
    and u: "calculateTradeSettlement rnd t taker ((maker_filled t maker)\<lparr>dUpdatedAt := clock s (calls s)\<rparr>) = Inr u"
    and r: "lk' = lk1(tk \<mapsto> taker\<lparr>dFilledQuantity := dFilledQuantity taker + tQuantity t\<rparr>)"
      "ups' = ups @ u" "s' = s\<lparr>calls := Suc (calls s)\<rparr>"
    by (rule settle_trade_InrE)
  have ok1: "lk_of rows lk1"
    unfolding lk1 by (rule lk_of_upd [OF assms(2) m]) simp_all
  then have ok2: "lk_of rows lk'"
    unfolding r(1) using tk by (rule lk_of_upd) simp_all
  have d1: "dom lk1 = dom lk" using m by (auto simp: lk1)
  then have "dom lk' = dom lk" using tk by (auto simp: r(1))
  moreover have "party rows ids tk up" if "up \<in> set u" for up
  proof -
    from settlement_parties [OF u that] obtain b q where bq: "splitSymbol (dSymbol taker) = Inr (b, q)"
      "auCurrency up \<in> {b, q}" "auUserID up \<in> {dUserID taker, dUserID maker}" by auto
    obtain y where y: "y \<in> set rows" "dID y = tk" "dUserID y = dUserID taker" "dSymbol y = dSymbol taker"
      using lk_ofD [OF ok1 tk] by blast
    obtain z where z: "z \<in> set rows" "dID z = ?m" "dUserID z = dUserID maker"
      using lk_ofD [OF assms(2) m] by blast
    from assms(3) d1 tk m have "tk \<in> ids" "?m \<in> ids" by auto
    have "\<exists>z \<in> set rows. dID z \<in> ids \<and> auUserID up = dUserID z"
    proof (cases "auUserID up = dUserID taker")
      case True
      with y \<open>tk \<in> ids\<close> show ?thesis by (intro bexI [of _ y]) auto
    next
      case False
      with bq(3) z \<open>?m \<in> ids\<close> show ?thesis by (intro bexI [of _ z]) auto
    qed
    then obtain w where w: "w \<in> set rows" "dID w \<in> ids" "auUserID up = dUserID w" by blast
    show ?thesis
      unfolding party_def
      by (rule bexI [OF _ y(1)], rule bexI [OF _ w(1)], rule exI [of _ b], rule exI [of _ q])
        (use w y bq in simp)
  qed
  ultimately show ?thesis
    using ok2 settlement_zero_sum [OF u, of cur] r by auto
qed

lemma settle_trades_keeps:
  assumes "settle_trades rnd tk ts (lk, ups) s = (Inr (lk', ups'), s')"
    and "lk_of rows lk" and "dom lk \<subseteq> ids"
  shows "lk_of rows lk' \<and> dom lk' = dom lk \<and> db s' = db s \<and>
    sum_list (map (amount_in cur) ups') = sum_list (map (amount_in cur) ups) \<and>
    (\<forall>up \<in> set ups'. up \<in> set ups \<or> party rows ids tk up)"
  using assms
proof (induction ts arbitrary: lk ups s)
  case (Cons t ts)
  then obtain lk1 ups1 s1 where 1: "settle_trade rnd tk t (lk, ups) s = (Inr (lk1, ups1), s1)"
    and 2: "settle_trades rnd tk ts (lk1, ups1) s1 = (Inr (lk', ups'), s')"
    by (auto simp: bind_Inr_iff)
  note k = settle_trade_keeps [OF 1 Cons.prems(2,3), of cur]
  with Cons.prems(3) have "lk_of rows lk1" "dom lk1 \<subseteq> ids" by auto
  from Cons.IH [OF 2 this] k show ?case by auto
qed simp

section \<open>The body of the transaction\<close>

definition row_of :: "DB \<Rightarrow> uuid \<Rightarrow> Order \<Rightarrow> bool" where
  "row_of d oid x \<longleftrightarrow> find (\<lambda>x. dID x = oid) (orders d) = Some x"

lemma row_ofD: "row_of d oid x \<Longrightarrow> x \<in> set (orders d) \<and> dID x = oid"
  unfolding row_of_def by (drule find_SomeD) simp

lemma lock_order_row_Inr:
  "lock_order_row oid s = (Inr x, s') \<longleftrightarrow>
     \<not> aborted s \<and> \<not> outage s (calls s) \<and> row_of (db s) oid x \<and> s' = s\<lparr>calls := Suc (calls s)\<rparr>"
  by (auto simp: lock_order_row_def catch_def GetOrderForUpdate_def stmt_def select_order_def Let_def fail_def
      row_of_def split: option.splits if_splits)

lemma map_each_Inr_Cons:
  "map_each (x # xs) f s = (Inr ys, s') \<longleftrightarrow>
     (\<exists>y zs s1. f x s = (Inr y, s1) \<and> map_each xs f s1 = (Inr zs, s') \<and> ys = y # zs)"
  by (auto simp: bind_Inr_iff)

lemma lock_rows:
  "map_each ids lock_order_row s = (Inr rows, s') \<Longrightarrow>
     db s' = db s \<and> list_all2 (row_of (db s)) ids rows \<and> (ids \<noteq> [] \<longrightarrow> \<not> aborted s)"
proof (induction ids arbitrary: s rows)
  case (Cons oid ids)
  then show ?case
    by (auto simp: map_each_Inr_Cons lock_order_row_Inr simp del: map_each.simps dest!: Cons.IH)
qed simp

lemma map_of_zip_rows:
  assumes "list_all2 R ids rows"
  shows "dom (map_of (zip ids rows)) = set ids"
    and "map_of (zip ids rows) oid = Some x \<Longrightarrow> R oid x"
proof -
  have "length ids = length rows" using assms by (rule list_all2_lengthD)
  then show "dom (map_of (zip ids rows)) = set ids" by (simp add: dom_map_of_zip)
  show "map_of (zip ids rows) oid = Some x \<Longrightarrow> R oid x"
    using assms by (auto dest!: map_of_SomeD simp: list_all2_iff)
qed

lemma lk_of_rows: "list_all2 (row_of d) ids rows \<Longrightarrow> lk_of (orders d) (map_of (zip ids rows))"
  unfolding lk_of_def using map_of_zip_rows(2) row_ofD by metis

lemma set_settlement_ids [simp]:
  "set (settlement_ids ustr event) = insert (srTakerOrderID event) (tMakerOrderID ` set (srTrades event))"
  by (simp add: settlement_ids_def)

definition stale :: "int \<Rightarrow> DB \<Rightarrow> bool" where
  "stale token d \<longleftrightarrow> token > 0 \<and>
     (\<exists>l. find (\<lambda>l. lPartition l = ''matching-engine:global'') (locks d) = Some l \<and> token < lFencingToken l)"

lemma fence_Inr:
  "fence token s = (Inr (), s') \<Longrightarrow> in_tx s \<Longrightarrow>
     db s' = db s \<and> (aborted s' \<or> \<not> stale token (db s))"
  by (auto simp: fence_def do_if_def bind_def ValidateFencingTokenTx_def catch_def wrap_def stmt_def Let_def fail_def
      ret_def stale_def select_token_def split: if_splits prod.splits sum.splits option.splits)

lemma fence_frame [frames]: "frame p (fence token)"
  unfolding fence_def by (intro frames)

lemma lock_order_row_frame [frames]: "frame p (lock_order_row oid)"
  unfolding lock_order_row_def by (intro frames)

lemma settlement_body_InrE:
  assumes "settlement_body ustr rnd event s = (Inr upd, s')" and "in_tx s"
  obtains rows lk ups tk0 tk1 tk2 refund s2 s3 s4 s5 where
    "\<not> stale (srFencingToken event) (db s)"
    "list_all2 (row_of (db s)) (settlement_ids ustr event) rows"
    "map_of (zip (settlement_ids ustr event) rows) (srTakerOrderID event) = Some tk0" "dStatus tk0 = StatusNew"
    "case srTrades event of [] \<Rightarrow> True | t # _ \<Rightarrow> tID t \<notin> tID ` set (trades (db s))"
    "settle_trades rnd (srTakerOrderID event) (srTrades event)
       (map_of (zip (settlement_ids ustr event) rows), []) s2 = (Inr (lk, ups), s3)" "db s2 = db s"
    "lk (srTakerOrderID event) = Some tk1" "taker_outcome event tk1 = (tk2, refund)"
    "map_each (settlement_ids ustr event) (save_order (lk(srTakerOrderID event \<mapsto> tk2))) s3 = (Inr upd, s4)"
    "for_each (srTrades event) (\<lambda>t. wrap ''create trade'' (CreateTrade t)) s4 = (Inr (), s5)"
    "for_each (aggregateAndSortAccountUpdates ustr (ups @ refund_updates rnd event tk2 refund)) apply_update s5
       = (Inr (), s')"
proof -
  let ?ids = "settlement_ids ustr event" and ?tk = "srTakerOrderID event"
  from assms(1) obtain s1 rows s1' tk0 s2 lk ups s3 tk1 tk2 refund s4 s5 where
    1: "fence (srFencingToken event) s = (Inr (), s1)" and
    2: "map_each ?ids lock_order_row s1 = (Inr rows, s1')" and
    3: "map_of (zip ?ids rows) ?tk = Some tk0" "dStatus tk0 = StatusNew" and
    4: "(case srTrades event of [] \<Rightarrow> ret ()
         | t # _ \<Rightarrow> bind (wrap ''idempotency check in tx'' (TradeExistsByID (tID t)))
             (\<lambda>exists. if exists then fail ErrIdempotencySkip else ret ())) s1' = (Inr (), s2)" and
    5: "settle_trades rnd ?tk (srTrades event) (map_of (zip ?ids rows), []) s2 = (Inr (lk, ups), s3)"
      "lk ?tk = Some tk1" "taker_outcome event tk1 = (tk2, refund)"
      "map_each ?ids (save_order (lk(?tk \<mapsto> tk2))) s3 = (Inr upd, s4)"
      "for_each (srTrades event) (\<lambda>t. wrap ''create trade'' (CreateTrade t)) s4 = (Inr (), s5)"
      "for_each (aggregateAndSortAccountUpdates ustr (ups @ refund_updates rnd event tk2 refund)) apply_update s5
         = (Inr (), s')"
    unfolding settlement_body_def Let_def
    by (elim InrE) auto
  have nz: "?ids \<noteq> []" using set_settlement_ids [of ustr event] by (metis empty_iff insertI1 list.set(1))
  from lock_rows [OF 2] nz have r: "db s1' = db s1" "list_all2 (row_of (db s1)) ?ids rows" "\<not> aborted s1"
    by simp_all
  from fence_Inr [OF 1 assms(2)] r(3) have f: "db s1 = db s" "\<not> stale (srFencingToken event) (db s)" by auto
  from 4 have t: "db s2 = db s1'"
    "case srTrades event of [] \<Rightarrow> True | t # _ \<Rightarrow> tID t \<notin> tID ` set (trades (db s1'))"
    by (auto simp: bind_Inr_iff TradeExistsByID_def stmt_Inr_iff split: list.splits if_splits)
  show ?thesis
    by (rule that [OF f(2) r(2) [unfolded f(1)] 3 t(2) [unfolded r(1) f(1)] 5(1) t(1) [unfolded r(1) f(1)] 5(2-)])
qed

lemma deref_frame [frames]: "frame p (deref lk oid)"
  unfolding deref_def by (auto intro: frames split: option.splits)

lemma save_order_frame [frames]:
  "(\<And>d xs. p (d\<lparr>orders := xs\<rparr>) = p d) \<Longrightarrow> frame p (save_order lk oid)"
  unfolding save_order_def Let_def by (intro frames) simp_all

lemma apply_update_frame [frames]:
  "(\<And>d as. p (d\<lparr>accounts := as\<rparr>) = p d) \<Longrightarrow> frame p (apply_update up)"
  unfolding apply_update_def by (intro frames) simp_all

lemma db_wrap: "db (snd (wrap msg m s)) = db (snd (m s))"
  by (auto simp: wrap_def catch_def fail_def split: prod.splits sum.splits)

definition quad :: "AccountUpdate \<Rightarrow> uuid \<times> string \<times> decimal \<times> decimal" where
  "quad up = (auUserID up, auCurrency up, auAmount up, auUnlock up)"

lemma apply_update_Inr:
  "apply_update up s = (Inr (), s') \<longleftrightarrow> pg.apply_one (quad up) s = (Inr (), s')"
  by (simp add: apply_update_def pg.apply_one_def quad_def bind_Inr_iff do_if_def)

lemma apply_updates_Inr:
  "for_each ups apply_update s = (Inr (), s') \<longleftrightarrow> for_each (map quad ups) pg.apply_one s = (Inr (), s')"
  by (induction ups arbitrary: s) (simp_all add: bind_Inr_iff apply_update_Inr)

lemma total_accounts: "accounts d = accounts d' \<Longrightarrow> total cur d = total cur d'"
  and accounts_ok_accounts: "accounts d = accounts d' \<Longrightarrow> accounts_ok d = accounts_ok d'"
  and has_account_accounts: "accounts d = accounts d' \<Longrightarrow> has_account u c d = has_account u c d'"
  by (simp_all add: total_def accounts_ok_def has_account_def)

section \<open>Conservation of money\<close>

definition parties_ready :: "uuid set \<Rightarrow> uuid \<Rightarrow> DB \<Rightarrow> bool" where
  "parties_ready ids tk d \<longleftrightarrow> (\<forall>y \<in> set (orders d). \<forall>z \<in> set (orders d). dID y = tk \<longrightarrow> dID z \<in> ids \<longrightarrow>
     (case splitSymbol (dSymbol y) of Inl e \<Rightarrow> True
      | Inr (b, q) \<Rightarrow> has_account (dUserID z) b d \<and> has_account (dUserID z) q d))"

lemma party_has_account:
  "party (orders d) ids tk up \<Longrightarrow> parties_ready ids tk d \<Longrightarrow> has_account (auUserID up) (auCurrency up) d"
  by (fastforce simp: party_def parties_ready_def)

lemma refund_amount: "up \<in> set (refund_updates rnd event tk refund) \<Longrightarrow> auAmount up = 0"
  by (auto simp: refund_updates_def split: if_splits)

lemma amount_in_sum:
  "sum_list (map (amount_in cur) (aggregateAndSortAccountUpdates ustr ups)) = sum_list (map (amount_in cur) ups)"
  if "uuid_text ustr"
  using that by (rule aggregate_sum) (auto simp: amount_in_def)

lemma settlement_body_conserves:
  assumes "settlement_body ustr rnd event s = (Inr upd, s')" and "in_tx s"
    and "uuid_text ustr" and "accounts_ok (db s)"
    and "srTrades event \<noteq> [] \<longrightarrow> parties_ready (set (settlement_ids ustr event)) (srTakerOrderID event) (db s)"
  shows "accounts_ok (db s') \<and> total cur (db s') = total cur (db s)"
proof -
  let ?ids = "settlement_ids ustr event" and ?tk = "srTakerOrderID event"
  from assms(1,2) obtain rows lk ups tk0 tk1 tk2 refund s2 s3 s4 s5 where
    rows: "list_all2 (row_of (db s)) ?ids rows" and
    trades: "settle_trades rnd ?tk (srTrades event) (map_of (zip ?ids rows), []) s2 = (Inr (lk, ups), s3)"
      "db s2 = db s" and
    save: "map_each ?ids (save_order (lk(?tk \<mapsto> tk2))) s3 = (Inr upd, s4)" and
    ins: "for_each (srTrades event) (\<lambda>t. wrap ''create trade'' (CreateTrade t)) s4 = (Inr (), s5)" and
    app: "for_each (aggregateAndSortAccountUpdates ustr (ups @ refund_updates rnd event tk2 refund)) apply_update s5
       = (Inr (), s')"
    by (rule settlement_body_InrE)
  have "dom (map_of (zip ?ids rows)) \<subseteq> set ?ids" by (simp add: map_of_zip_rows(1) [OF rows])
  note k = settle_trades_keeps [OF trades(1) lk_of_rows [OF rows] this]
  have "frame accounts (map_each ?ids (save_order (lk(?tk \<mapsto> tk2))))"
    and "frame accounts (for_each (srTrades event) (\<lambda>t. wrap ''create trade'' (CreateTrade t)))"
    by (intro frames; simp)+
  from frameD [OF this(1) save] frameD [OF this(2) ins]
  have same: "accounts (db s5) = accounts (db s)"
    using k trades(2) by simp
  let ?ups = "ups @ refund_updates rnd event tk2 refund"
  have ready: "\<forall>(u, c, amount, unl) \<in> set (map quad (aggregateAndSortAccountUpdates ustr ?ups)).
      amount = 0 \<or> has_account u c (db s5)"
  proof (clarsimp simp: quad_def)
    fix up assume up: "up \<in> set (aggregateAndSortAccountUpdates ustr ?ups)" "\<not> has_account (auUserID up) (auCurrency up) (db s5)"
    from aggregate_stems [OF assms(3) up(1)] obtain x where x: "x \<in> set ?ups" "stems up x" by blast
    show "auAmount up = 0"
    proof (cases "x \<in> set ups")
      case True
      with k have "party (orders (db s)) (set ?ids) ?tk x" by auto
      moreover from True trades(1) have "srTrades event \<noteq> []" by auto
      ultimately have "has_account (auUserID x) (auCurrency x) (db s)"
        using party_has_account assms(5) by blast
      with up(2) x(2) have False
        by (simp add: stems_def has_account_accounts [OF same])
      then show ?thesis ..
    next
      case False
      with x(1) have "auAmount x = 0" by (auto dest: refund_amount)
      with x(2) show ?thesis by (auto simp: stems_def)
    qed
  qed
  have "accounts_ok (db s5)" using assms(4) accounts_ok_accounts [OF same] by simp
  from pg.apply_all_law [OF app [unfolded apply_updates_Inr] this ready, of undefined undefined cur]
  have "accounts_ok (db s')" and "total cur (db s') = total cur (db s5) +
      sum_list (map (amount_in cur) (aggregateAndSortAccountUpdates ustr ?ups))"
    by (simp_all add: quad_def amount_in_def [abs_def] comp_def)
  moreover have "sum_list (map (amount_in cur) (refund_updates rnd event tk2 refund)) = 0"
    by (simp add: refund_updates_def amount_in_def)
  ultimately show ?thesis
    using amount_in_sum [OF assms(3), of cur ?ups] k [of cur] total_accounts [OF same, of cur] by simp
qed

section \<open>What one delivery can do\<close>

lemma executeSettlementTx_cases:
  assumes "executeSettlementTx ustr rnd bus event s = (r, s')"
  obtains "db s' = db s"
  | upd t t' where "db t = db s" "in_tx t" "settlement_body ustr rnd event t = (Inr upd, t')" "db s' = db t'"
      "r = Inr (if bus then map order_updated upd else [])"
proof (cases "ExecTx (settlement_body ustr rnd event) s")
  case (Pair r1 s1)
  show ?thesis
  proof (cases r1)
    case (Inl e)
    with Pair assms have "s' = s1"
      by (auto simp: executeSettlementTx_def catch_def bind_def fail_def ret_def split: if_splits)
    with Pair Inl tx.atomic that(1) show ?thesis by blast
  next
    case (Inr upd)
    from tx.committed [OF Pair [unfolded Inr]] obtain t t' where
      "db t = db s" "in_tx t" "settlement_body ustr rnd event t = (Inr upd, t')" "db s1 = db t'"
      by blast
    moreover from Pair Inr assms have "s' = s1" "r = Inr (if bus then map order_updated upd else [])"
      by (auto simp: executeSettlementTx_def catch_def bind_def ret_def)
    ultimately show ?thesis using that(2) by metis
  qed
qed

lemma handle_cases:
  assumes "handleSettlementRequested ustr rnd bus event s = (r, s')"
  obtains "db s' = db s"
  | upd t t' where "db t = db s" "in_tx t" "settlement_body ustr rnd event t = (Inr upd, t')" "db s' = db t'"
      "r = Inr (if bus then map order_updated upd else [])"
proof -
  have "db s' = db s \<or> (\<exists>s1. db s1 = db s \<and> executeSettlementTx ustr rnd bus event s1 = (r, s'))"
  proof (cases "srTrades event")
    case Nil
    let ?q = "catch (bind (GetOrder (srTakerOrderID event)) (\<lambda>x. ret (Some x)))
      (\<lambda>err. if errors_is err ErrNoRows then ret None else fail (ErrWrap ''query taker order'' err)) s"
    obtain q s1 where q: "?q = (q, s1)" by (cases ?q)
    have "frame id (catch (bind (GetOrder (srTakerOrderID event)) (\<lambda>x. ret (Some x)))
      (\<lambda>err. if errors_is err ErrNoRows then ret None else fail (ErrWrap ''query taker order'' err)))"
      by (intro frames)
    from frameD [OF this q] have "db s1 = db s" by simp
    with assms q show ?thesis
      by (auto simp: handleSettlementRequested_def Nil bind_def ret_def
          split: sum.splits option.splits if_splits)
  next
    case (Cons t ts)
    let ?q = "wrap ''idempotency check'' (TradeExistsByID (tID t)) s"
    obtain q s1 where q: "?q = (q, s1)" by (cases ?q)
    have "frame id (wrap ''idempotency check'' (TradeExistsByID (tID t)))" by (intro frames)
    from frameD [OF this q] have "db s1 = db s" by simp
    with assms q show ?thesis
      by (auto simp: handleSettlementRequested_def Cons bind_def ret_def split: sum.splits if_splits)
  qed
  then show ?thesis
    using that executeSettlementTx_cases by metis
qed

text \<open>
  C8: a settlement conserves money. Whatever the event, the rounding, the database failures and the
  outcome, delivering a settlement event leaves the total of every currency over all accounts,
  available and locked, exactly as it was, and keeps every account non-negative with one account per
  user and currency, provided the users of the orders concerned have opened accounts in both
  currencies of the taker's symbol.
\<close>

theorem settlement_conserves_money:
  assumes "handleSettlementRequested ustr rnd bus event s = (r, s')"
    and "uuid_text ustr" and "accounts_ok (db s)"
    and "parties_ready (set (settlement_ids ustr event)) (srTakerOrderID event) (db s)"
  shows "accounts_ok (db s') \<and> total cur (db s') = total cur (db s)"
  using assms(1)
proof (rule handle_cases)
  fix upd t t'
  assume "db t = db s" "in_tx t" "settlement_body ustr rnd event t = (Inr upd, t')" "db s' = db t'"
  then show ?thesis
    using settlement_body_conserves [of ustr rnd event t upd t' cur] assms(2-4) by simp
qed (use assms(3) in simp)

section \<open>What the transaction writes\<close>

lemma create_trades:
  "for_each ts (\<lambda>t. wrap msg (CreateTrade t)) s = (Inr (), s') \<Longrightarrow>
     trades (db s') = trades (db s) @ ts \<and> orders (db s') = orders (db s) \<and> locks (db s') = locks (db s)"
proof (induction ts arbitrary: s)
  case (Cons t ts)
  then obtain s1 where 1: "CreateTrade t s = (Inr (), s1)"
    and 2: "for_each ts (\<lambda>t. wrap msg (CreateTrade t)) s1 = (Inr (), s')" by (auto simp: bind_Inr_iff)
  from 1 have "trades (db s1) = trades (db s) @ [t] \<and> orders (db s1) = orders (db s) \<and> locks (db s1) = locks (db s)"
    by (auto simp: CreateTrade_def stmt_Inr_iff split: if_splits)
  with Cons.IH [OF 2] show ?case by simp
qed simp

text \<open>An \<open>UPDATE orders\<close> of one order seen from any row.\<close>

definition saved :: "Order \<Rightarrow> millis \<Rightarrow> Order \<Rightarrow> Order" where
  "saved x u y = y\<lparr>dFilledQuantity := dFilledQuantity x, dStatus := dStatus x, dUpdatedAt := u\<rparr>"

lemma saved_saved [simp]: "saved x u (saved x v y) = saved x u y"
  and saved_sel [simp]: "dID (saved x u y) = dID y" "dFilledQuantity (saved x u y) = dFilledQuantity x"
    "dStatus (saved x u y) = dStatus x" "dQuantity (saved x u y) = dQuantity y"
  by (simp_all add: saved_def)

lemma save_order_Inr:
  assumes "save_order lk oid s = (Inr y, s')" and "\<And>oid x. lk oid = Some x \<Longrightarrow> dID x = oid"
  obtains x where "lk oid = Some x" and
    "orders (db s') = update_where (\<lambda>z. dID z = oid) (saved x (clock s (calls s))) (orders (db s))"
  using assms
  by (auto simp: save_order_def bind_Inr_iff UpdateOrder_def stmt_Inr_iff Let_def saved_def [abs_def])

lemma save_orders:
  assumes "map_each ids (save_order lk) s = (Inr upd, s')" and "\<And>oid x. lk oid = Some x \<Longrightarrow> dID x = oid"
  shows "if oid \<in> set ids
    then \<exists>x u. lk oid = Some x \<and>
         find (\<lambda>z. dID z = oid) (orders (db s')) = map_option (saved x u) (find (\<lambda>z. dID z = oid) (orders (db s)))
    else find (\<lambda>z. dID z = oid) (orders (db s')) = find (\<lambda>z. dID z = oid) (orders (db s))"
  using assms(1)
proof (induction ids arbitrary: s upd)
  case (Cons i ids)
  then obtain y upd' s1 where 1: "save_order lk i s = (Inr y, s1)"
    and 2: "map_each ids (save_order lk) s1 = (Inr upd', s')"
    unfolding map_each_Inr_Cons by blast
  from save_order_Inr [OF 1 assms(2)] obtain x where x: "lk i = Some x" and
    o: "orders (db s1) = update_where (\<lambda>z. dID z = i) (saved x (clock s (calls s))) (orders (db s))" by metis
  have step: "find (\<lambda>z. dID z = oid) (orders (db s1)) =
     (if oid = i then map_option (saved x (clock s (calls s))) (find (\<lambda>z. dID z = oid) (orders (db s)))
      else find (\<lambda>z. dID z = oid) (orders (db s)))"
    unfolding o by (simp add: find_update_where_key find_update_where_frame)
  show ?case
  proof (cases "oid = i")
    case True
    with Cons.IH [OF 2] step x show ?thesis
      by (auto simp: option.map_comp comp_def split: if_splits)
  next
    case False
    with Cons.IH [OF 2] step show ?thesis by (simp split: if_splits)
  qed
qed simp

lemma settlement_body_writes:
  assumes "settlement_body ustr rnd event s = (Inr upd, s')" and "in_tx s"
  obtains rows lk ups tk0 tk1 tk2 refund s2 s3 where
    "list_all2 (row_of (db s)) (settlement_ids ustr event) rows"
    "map_of (zip (settlement_ids ustr event) rows) (srTakerOrderID event) = Some tk0" "dStatus tk0 = StatusNew"
    "settle_trades rnd (srTakerOrderID event) (srTrades event)
       (map_of (zip (settlement_ids ustr event) rows), []) s2 = (Inr (lk, ups), s3)"
    "lk (srTakerOrderID event) = Some tk1" "taker_outcome event tk1 = (tk2, refund)"
    "trades (db s') = trades (db s) @ srTrades event" "locks (db s') = locks (db s)"
    "\<And>oid. if oid \<in> set (settlement_ids ustr event)
      then \<exists>x u. (lk(srTakerOrderID event \<mapsto> tk2)) oid = Some x \<and>
         find (\<lambda>z. dID z = oid) (orders (db s')) = map_option (saved x u) (find (\<lambda>z. dID z = oid) (orders (db s)))
      else find (\<lambda>z. dID z = oid) (orders (db s')) = find (\<lambda>z. dID z = oid) (orders (db s))"
proof -
  let ?ids = "settlement_ids ustr event" and ?tk = "srTakerOrderID event"
  from assms obtain rows lk ups tk0 tk1 tk2 refund s2 s3 s4 s5 where
    1: "list_all2 (row_of (db s)) ?ids rows" "map_of (zip ?ids rows) ?tk = Some tk0" "dStatus tk0 = StatusNew" and
    2: "settle_trades rnd ?tk (srTrades event) (map_of (zip ?ids rows), []) s2 = (Inr (lk, ups), s3)"
      "db s2 = db s" and
    3: "lk ?tk = Some tk1" "taker_outcome event tk1 = (tk2, refund)" and
    save: "map_each ?ids (save_order (lk(?tk \<mapsto> tk2))) s3 = (Inr upd, s4)" and
    ins: "for_each (srTrades event) (\<lambda>t. wrap ''create trade'' (CreateTrade t)) s4 = (Inr (), s5)" and
    app: "for_each (aggregateAndSortAccountUpdates ustr (ups @ refund_updates rnd event tk2 refund)) apply_update s5
       = (Inr (), s')"
    by (rule settlement_body_InrE)
  have "dom (map_of (zip ?ids rows)) \<subseteq> set ?ids" by (simp add: map_of_zip_rows(1) [OF 1(1)])
  note k = settle_trades_keeps [OF 2(1) lk_of_rows [OF 1(1)] this]
  have tk2: "dID tk2 = dID tk1"
    using 3(2) by (auto simp: taker_outcome_def split: if_splits)
  have ids: "(lk(?tk \<mapsto> tk2)) oid = Some x \<Longrightarrow> dID x = oid" for oid x
    using k 3(1) tk2 by (auto simp: lk_of_def split: if_splits)
  have "frame trades (map_each ?ids (save_order (lk(?tk \<mapsto> tk2))))"
    and "frame locks (map_each ?ids (save_order (lk(?tk \<mapsto> tk2))))" by (intro frames; simp)+
  note f1 = frameD [OF this(1) save] frameD [OF this(2) save]
  let ?app = "for_each (aggregateAndSortAccountUpdates ustr (ups @ refund_updates rnd event tk2 refund)) apply_update"
  have "frame trades ?app" and "frame locks ?app" and "frame orders ?app" by (intro frames; simp)+
  note f2 = frameD [OF this(1) app] frameD [OF this(2) app] frameD [OF this(3) app]
  note c = create_trades [OF ins]
  have db: "db s3 = db s" using k 2(2) by simp
  have o: "orders (db s') = orders (db s4)" using f2(3) c by simp
  note w = save_orders [OF save ids, folded o, unfolded db]
  show ?thesis
    by (rule that [OF 1 2(1) 3 _ _ w]) (use f1 f2 c db in simp_all)
qed

end
