(* ===== verification/Settlement_Effects.thy ===== *)
theory Settlement_Effects
  imports Settlement_Correct
begin

text \<open>
  What deliveries of settlement and cancellation events do to the tables: at most once settlement,
  the filled quantities and statuses of the orders, stale leaders, errors, and the release of the
  funds of a cancelled order.
\<close>

section \<open>Once\<close>

text \<open>An event with trades has been settled when its first trade is recorded.\<close>

definition settled :: "SettlementRequestedEvent \<Rightarrow> DB \<Rightarrow> bool" where
  "settled event d = (case srTrades event of [] \<Rightarrow> False | t # _ \<Rightarrow> tID t \<in> tID ` set (trades d))"

lemma settled_no_effect:
  assumes "settled event (db s)" and "handleSettlementRequested ustr rnd bus event s = (r, s')"
  shows "db s' = db s"
  using assms(2)
proof (rule handle_cases)
  fix upd t t'
  assume t: "db t = db s" "in_tx t" "settlement_body ustr rnd event t = (Inr upd, t')"
  from settlement_body_InrE [OF t(3,2)]
  have "case srTrades event of [] \<Rightarrow> True | w # _ \<Rightarrow> tID w \<notin> tID ` set (trades (db t))" by metis
  with assms(1) t(1) show ?thesis by (simp add: settled_def split: list.splits)
qed

lemma settlement_trades:
  assumes "handleSettlementRequested ustr rnd bus event s = (r, s')"
  shows "db s' = db s \<or> trades (db s') = trades (db s) @ srTrades event \<and> locks (db s') = locks (db s)"
  using assms
proof (rule handle_cases)
  fix upd t t'
  assume t: "db t = db s" "in_tx t" "settlement_body ustr rnd event t = (Inr upd, t')" "db s' = db t'"
  from settlement_body_writes [OF t(3,2)]
  have "trades (db t') = trades (db t) @ srTrades event \<and> locks (db t') = locks (db t)" by metis
  with t show ?thesis by simp
qed simp

text \<open>Deliveries one after the other, each result ignored as the consumer group ignores it.\<close>

fun deliver_all ::
  "(uuid \<Rightarrow> string) \<Rightarrow> (decimal \<Rightarrow> decimal) \<Rightarrow> bool \<Rightarrow> SettlementRequestedEvent list \<Rightarrow> session \<Rightarrow> session" where
  "deliver_all ustr rnd bus [] s = s"
| "deliver_all ustr rnd bus (e # es) s =
     deliver_all ustr rnd bus es (snd (handleSettlementRequested ustr rnd bus e s))"

lemma settled_mono:
  "settled event (db s) \<Longrightarrow> settled event (db (deliver_all ustr rnd bus es s))"
proof (induction es arbitrary: s)
  case (Cons e es)
  obtain r s1 where h: "handleSettlementRequested ustr rnd bus e s = (r, s1)"
    by (cases "handleSettlementRequested ustr rnd bus e s")
  from settlement_trades [OF h] Cons.prems have "settled event (db s1)"
    by (auto simp: settled_def split: list.splits)
  with Cons.IH h show ?case by simp
qed simp


section \<open>Stale leaders and errors\<close>

text \<open>
  C12: fencing. A settlement event carrying a positive token smaller than the current token of the
  matching engine's leader lock changes nothing, whatever else happens.
\<close>

theorem stale_settlement_no_effect:
  assumes "stale (srFencingToken event) (db s)"
    and "handleSettlementRequested ustr rnd bus event s = (r, s')"
  shows "db s' = db s"
  using assms(2)
proof (rule handle_cases)
  fix upd t t'
  assume t: "db t = db s" "in_tx t" "settlement_body ustr rnd event t = (Inr upd, t')"
  from settlement_body_InrE [OF t(3,2)] have "\<not> stale (srFencingToken event) (db t)" by metis
  with assms(1) t(1) show ?thesis by simp
qed

section \<open>Filled quantities and statuses\<close>

definition fill_of :: "uuid \<Rightarrow> uuid \<Rightarrow> Trade list \<Rightarrow> decimal" where
  "fill_of tk oid ts = sum_list (map (\<lambda>t. (if tMakerOrderID t = oid then tQuantity t else 0) +
                                         (if oid = tk then tQuantity t else 0)) ts)"

lemma fill_of_simps [simp]:
  "fill_of tk oid [] = 0"
  "fill_of tk oid (t # ts) = (if tMakerOrderID t = oid then tQuantity t else 0) +
     (if oid = tk then tQuantity t else 0) + fill_of tk oid ts"
  by (simp_all add: fill_of_def)

text \<open>The parts of a locked order that the loop does not touch.\<close>

definition same_order :: "Order \<Rightarrow> Order \<Rightarrow> bool" where
  "same_order x y \<longleftrightarrow> dID y = dID x \<and> dType y = dType x \<and> dSide y = dSide x \<and> dPrice y = dPrice x \<and>
     dQuantity y = dQuantity x"

definition maker_status :: "Order \<Rightarrow> Order \<Rightarrow> bool" where
  "maker_status x y \<longleftrightarrow> (0 < dFilledQuantity y \<longrightarrow>
     dStatus y = (if dFilledQuantity y = dQuantity x then StatusFilled else StatusPartiallyFilled))"

lemma settle_trade_fill:
  assumes "settle_trade rnd tk t (lk, ups) s = (Inr (lk', ups'), s')" and "lk oid = Some x"
  obtains y where "lk' oid = Some y" "same_order x y"
    "dFilledQuantity y = dFilledQuantity x + fill_of tk oid [t]"
    "oid \<noteq> tMakerOrderID t \<longrightarrow> dStatus y = dStatus x"
    "oid = tMakerOrderID t \<and> oid \<noteq> tk \<longrightarrow> maker_status x y"
proof -
  from assms(1) obtain maker taker lk1 where
    m: "lk (tMakerOrderID t) = Some maker"
      "lk1 = lk(tMakerOrderID t \<mapsto> (maker_filled t maker)\<lparr>dUpdatedAt := clock s (calls s)\<rparr>)"
      "lk1 tk = Some taker"
      "lk' = lk1(tk \<mapsto> taker\<lparr>dFilledQuantity := dFilledQuantity taker + tQuantity t\<rparr>)"
    by (rule settle_trade_InrE)
  show ?thesis
  proof (cases "oid = tMakerOrderID t"; cases "oid = tk")
    assume "oid = tMakerOrderID t" "oid = tk"
    with m assms(2) show ?thesis
      by (intro that [of "taker\<lparr>dFilledQuantity := dFilledQuantity taker + tQuantity t\<rparr>"])
        (auto simp: same_order_def maker_filled_def Let_def)
  next
    assume "oid = tMakerOrderID t" "oid \<noteq> tk"
    with m assms(2) show ?thesis
      by (intro that [of "(maker_filled t maker)\<lparr>dUpdatedAt := clock s (calls s)\<rparr>"])
        (auto simp: same_order_def maker_filled_def maker_status_def Let_def)
  next
    assume "oid \<noteq> tMakerOrderID t" "oid = tk"
    with m assms(2) show ?thesis
      by (intro that [of "taker\<lparr>dFilledQuantity := dFilledQuantity taker + tQuantity t\<rparr>"])
        (auto simp: same_order_def)
  next
    assume "oid \<noteq> tMakerOrderID t" "oid \<noteq> tk"
    with m assms(2) show ?thesis by (intro that [of x]) (auto simp: same_order_def)
  qed
qed

lemma settle_trades_fill:
  assumes "settle_trades rnd tk ts (lk, ups) s = (Inr (lk', ups'), s')" and "lk oid = Some x"
  shows "\<exists>y. lk' oid = Some y \<and> same_order x y \<and> dFilledQuantity y = dFilledQuantity x + fill_of tk oid ts \<and>
    (oid \<notin> tMakerOrderID ` set ts \<longrightarrow> dStatus y = dStatus x) \<and>
    (oid \<in> tMakerOrderID ` set ts \<and> oid \<noteq> tk \<longrightarrow> maker_status x y)"
  using assms
proof (induction ts arbitrary: lk ups s x)
  case (Cons t ts)
  then obtain lk1 ups1 s1 where 1: "settle_trade rnd tk t (lk, ups) s = (Inr (lk1, ups1), s1)"
    and 2: "settle_trades rnd tk ts (lk1, ups1) s1 = (Inr (lk', ups'), s')"
    by (auto simp: bind_Inr_iff)
  from settle_trade_fill [OF 1 Cons.prems(2)] obtain x1 where x1: "lk1 oid = Some x1" "same_order x x1"
    "dFilledQuantity x1 = dFilledQuantity x + fill_of tk oid [t]"
    "oid \<noteq> tMakerOrderID t \<longrightarrow> dStatus x1 = dStatus x"
    "oid = tMakerOrderID t \<and> oid \<noteq> tk \<longrightarrow> maker_status x x1" by metis
  from Cons.IH [OF 2 x1(1)] obtain y where y: "lk' oid = Some y" "same_order x1 y"
    "dFilledQuantity y = dFilledQuantity x1 + fill_of tk oid ts"
    "oid \<notin> tMakerOrderID ` set ts \<longrightarrow> dStatus y = dStatus x1"
    "oid \<in> tMakerOrderID ` set ts \<and> oid \<noteq> tk \<longrightarrow> maker_status x1 y" by blast
  have f0: "fill_of tk oid ts = 0" if "oid \<notin> tMakerOrderID ` set ts" "oid \<noteq> tk"
    using that by (induction ts) auto
  have "oid \<in> tMakerOrderID ` set (t # ts) \<and> oid \<noteq> tk \<longrightarrow> maker_status x y"
    using x1 y f0 by (cases "oid \<in> tMakerOrderID ` set ts") (auto simp: maker_status_def same_order_def)
  with x1 y show ?case by (intro exI [of _ y]) (auto simp: same_order_def)
qed (simp add: same_order_def)

definition taker_status :: "SettlementRequestedEvent \<Rightarrow> Order \<Rightarrow> Order \<Rightarrow> bool" where
  "taker_status event x y \<longleftrightarrow> dStatus y =
     (if dType x = TypeMarket then (if dFilledQuantity y = 0 then StatusCanceled else StatusFilled)
      else if dFilledQuantity y = dQuantity x then StatusFilled
      else if srRemainingQty event = 0 then StatusCanceled
      else if dFilledQuantity y > 0 then StatusPartiallyFilled else StatusNew)"

lemma settlement_body_fills:
  assumes "settlement_body ustr rnd event s = (Inr upd, s')" and "in_tx s" and "row_of (db s) oid x"
  shows "\<exists>y. row_of (db s') oid y \<and> dQuantity y = dQuantity x \<and>
    dFilledQuantity y = dFilledQuantity x + fill_of (srTakerOrderID event) oid (srTrades event) \<and>
    (oid \<in> tMakerOrderID ` set (srTrades event) \<and> oid \<noteq> srTakerOrderID event \<longrightarrow> maker_status x y) \<and>
    (oid = srTakerOrderID event \<and> oid \<notin> tMakerOrderID ` set (srTrades event) \<longrightarrow> taker_status event x y) \<and>
    (oid \<notin> set (settlement_ids ustr event) \<longrightarrow> y = x)"
proof -
  let ?ids = "settlement_ids ustr event" and ?tk = "srTakerOrderID event"
  from assms(1,2) obtain rows lk ups tk0 tk1 tk2 refund s2 s3 where
    rows: "list_all2 (row_of (db s)) ?ids rows" and
    tk0: "map_of (zip ?ids rows) ?tk = Some tk0" "dStatus tk0 = StatusNew" and
    loop: "settle_trades rnd ?tk (srTrades event) (map_of (zip ?ids rows), []) s2 = (Inr (lk, ups), s3)" and
    tk1: "lk ?tk = Some tk1" "taker_outcome event tk1 = (tk2, refund)" and
    w: "\<And>oid. if oid \<in> set ?ids then \<exists>x u. (lk(?tk \<mapsto> tk2)) oid = Some x \<and>
         find (\<lambda>z. dID z = oid) (orders (db s')) = map_option (saved x u) (find (\<lambda>z. dID z = oid) (orders (db s)))
      else find (\<lambda>z. dID z = oid) (orders (db s')) = find (\<lambda>z. dID z = oid) (orders (db s))"
    by (rule settlement_body_writes) blast
  show ?thesis
  proof (cases "oid \<in> set ?ids")
    case False
    then have f0: "fill_of ?tk oid ts = 0" if "set ts \<subseteq> set (srTrades event)" for ts
      using that by (induction ts) auto
    from False w [of oid] assms(3) have "row_of (db s') oid x" by (simp add: row_of_def)
    with False f0 show ?thesis by auto
  next
    case True
    then obtain x0 where "map_of (zip ?ids rows) oid = Some x0"
      using map_of_zip_rows(1) [OF rows] by blast
    with map_of_zip_rows(2) [OF rows this] assms(3) have lk0: "map_of (zip ?ids rows) oid = Some x"
      by (simp add: row_of_def)
    from settle_trades_fill [OF loop lk0] obtain y where y: "lk oid = Some y" "same_order x y"
      "dFilledQuantity y = dFilledQuantity x + fill_of ?tk oid (srTrades event)"
      "oid \<notin> tMakerOrderID ` set (srTrades event) \<longrightarrow> dStatus y = dStatus x"
      "oid \<in> tMakerOrderID ` set (srTrades event) \<and> oid \<noteq> ?tk \<longrightarrow> maker_status x y" by blast
    from w [of oid] True assms(3) obtain x' u where x': "(lk(?tk \<mapsto> tk2)) oid = Some x'"
      "row_of (db s') oid (saved x' u x)" by (auto simp: row_of_def split: if_splits)
    have tk2: "dFilledQuantity tk2 = dFilledQuantity tk1"
      "oid = ?tk \<Longrightarrow> oid \<notin> tMakerOrderID ` set (srTrades event) \<Longrightarrow> taker_status event x tk2"
      using tk1 tk0 lk0 y by (auto simp: taker_outcome_def taker_status_def same_order_def split: if_splits)
    show ?thesis
    proof (cases "oid = ?tk")
      case True
      with x' y tk1 tk2 show ?thesis
        by (intro exI [of _ "saved x' u x"]) (auto simp: taker_status_def)
    next
      case False
      with x' y True show ?thesis
        by (intro exI [of _ "saved x' u x"]) (auto simp: maker_status_def)
    qed
  qed
qed

text \<open>
  C11: order accounting of a settlement. When a delivery changes the tables, every order row gains
  exactly the quantities of the trades it took part in; a maker with something filled is FILLED when
  its whole quantity is and PARTIALLY_FILLED otherwise; the taker becomes FILLED or CANCELED if it is
  a market order, and FILLED, CANCELED, PARTIALLY_FILLED or NEW by its filled and remaining quantity
  otherwise; rows of other orders are untouched.
\<close>

theorem settlement_fills_orders:
  assumes "handleSettlementRequested ustr rnd bus event s = (r, s')" and "db s' \<noteq> db s"
    and "row_of (db s) oid x"
  shows "\<exists>y. row_of (db s') oid y \<and> dQuantity y = dQuantity x \<and>
    dFilledQuantity y = dFilledQuantity x + fill_of (srTakerOrderID event) oid (srTrades event) \<and>
    (oid \<in> tMakerOrderID ` set (srTrades event) \<and> oid \<noteq> srTakerOrderID event \<longrightarrow> maker_status x y) \<and>
    (oid = srTakerOrderID event \<and> oid \<notin> tMakerOrderID ` set (srTrades event) \<longrightarrow> taker_status event x y) \<and>
    (oid \<notin> set (settlement_ids ustr event) \<longrightarrow> y = x)"
  using assms(1)
proof (rule handle_cases)
  fix upd t t'
  assume t: "db t = db s" "in_tx t" "settlement_body ustr rnd event t = (Inr upd, t')" "db s' = db t'"
  from settlement_body_fills [OF t(3,2), of oid x] assms(3) t(1,4) show ?thesis by simp
qed (use assms(2) in simp)

section \<open>Cancellation\<close>

lemma canceled_cases:
  assumes "handleOrderCanceled bus event s = (r, s')"
  obtains "db s' = db s"
  | out t t' where "db t = db s" "in_tx t" "canceled_body event t = (Inr out, t')" "db s' = db t'"
proof (cases "ExecTx (canceled_body event) s")
  case (Pair r1 s1)
  then have s1: "s' = s1"
    using assms by (auto simp: handleOrderCanceled_def catch_def bind_def fail_def ret_def split: sum.splits if_splits)
  show ?thesis
  proof (cases r1)
    case (Inl e)
    with Pair tx.atomic s1 that(1) show ?thesis by blast
  next
    case (Inr out)
    from tx.committed [OF Pair [unfolded Inr]] s1 that(2) show ?thesis by metis
  qed
qed

lemma canceled_body_InrE:
  assumes "canceled_body event s = (Inr out, s')" and "in_tx s"
  obtains "db s' = db s"
  | x currency amount s1 s2 u where "\<not> stale (ocFencingToken event) (db s)" "row_of (db s) (ocOrderID event) x"
      "dStatus x \<noteq> StatusFilled" "dStatus x \<noteq> StatusCanceled"
      "calculateUnlockAmount x (dQuantity x - dFilledQuantity x) = Inr (currency, amount)"
      "do_if (amount > 0) (UnlockFunds (dUserID x) currency amount) s1 = (Inr (), s2)" "db s1 = db s"
      "db s' = (db s2)\<lparr>orders := update_where (\<lambda>z. dID z = ocOrderID event)
         (saved (x\<lparr>dStatus := StatusCanceled\<rparr>) u) (orders (db s2))\<rparr>"
proof -
  from assms(1) obtain s1 x s1' where 1: "fence (ocFencingToken event) s = (Inr (), s1)" and
    2: "lock_order_row (ocOrderID event) s1 = (Inr x, s1')" and
    3: "(if dStatus x = StatusFilled \<or> dStatus x = StatusCanceled then ret None else
     case calculateUnlockAmount x (dQuantity x - dFilledQuantity x) of
       Inl e \<Rightarrow> fail (ErrWrap ''calculate unlock amount'' e)
     | Inr (currency, amountToUnlock) \<Rightarrow>
         bind (do_if (amountToUnlock > 0)
                 (wrap ''unlock funds'' (UnlockFunds (dUserID x) currency amountToUnlock))) (\<lambda>_.
         bind now (\<lambda>t.
         let order' = x\<lparr>dStatus := StatusCanceled, dUpdatedAt := t\<rparr> in
         bind (wrap ''update order status'' (UpdateOrder order')) (\<lambda>_.
         ret (Some order'))))) s1' = (Inr out, s')"
    unfolding canceled_body_def by (elim bind_InrE) simp
  from 2 have l: "row_of (db s1) (ocOrderID event) x" "db s1' = db s1" "\<not> aborted s1"
    by (auto simp: lock_order_row_Inr)
  with fence_Inr [OF 1 assms(2)] have f: "db s1 = db s" "\<not> stale (ocFencingToken event) (db s)" by auto
  show ?thesis
  proof (cases "dStatus x = StatusFilled \<or> dStatus x = StatusCanceled")
    case True
    with 3 l f that(1) show ?thesis by auto
  next
    case False
    with 3 obtain currency amount s2 u where
      "calculateUnlockAmount x (dQuantity x - dFilledQuantity x) = Inr (currency, amount)"
      "do_if (amount > 0) (UnlockFunds (dUserID x) currency amount) s1' = (Inr (), s2)"
      "db s' = (db s2)\<lparr>orders := update_where (\<lambda>z. dID z = dID x)
         (saved (x\<lparr>dStatus := StatusCanceled\<rparr>) u) (orders (db s2))\<rparr>"
      by (auto simp: bind_Inr_iff Let_def UpdateOrder_def stmt_Inr_iff saved_def [abs_def] split: prod.splits)
    with that(2) [OF f(2) _ _ _ this(1,2)] l f False row_ofD [OF l(1)] show ?thesis by simp
  qed
qed

text \<open>What releasing funds does to one account: all of it, or nothing when less is locked.\<close>

definition released :: "uuid \<Rightarrow> string \<Rightarrow> decimal \<Rightarrow> Account \<Rightarrow> Account \<Rightarrow> bool" where
  "released u c x a a' \<longleftrightarrow> acc_key a' = acc_key a \<and>
     (if acc_key a = (u, c) \<and> 0 < x \<and> x \<le> aLocked a
      then aBalance a' = aBalance a + x \<and> aLocked a' = aLocked a - x
      else aBalance a' = aBalance a \<and> aLocked a' = aLocked a)"

lemma unlock_released:
  assumes "do_if (x > 0) (UnlockFunds u c x) s = (Inr (), s')"
  shows "list_all2 (released u c x) (accounts (db s)) (accounts (db s')) \<and> orders (db s') = orders (db s)"
proof (cases "x > 0")
  case True
  with assms have "UnlockFunds u c x s = (Inr (), s')" by (simp add: do_if_def)
  with True show ?thesis
    unfolding UnlockFunds_Inr
    by (auto simp: update_where_def list_all2_map2 released_def intro!: list_all2_refl)
next
  case False
  with assms have "s' = s" by (simp add: do_if_def)
  with False show ?thesis by (auto simp: released_def intro!: list_all2_refl)
qed

text \<open>
  C13: cancelling releases what is left. When the delivery of a cancellation changes the tables, the
  order was neither FILLED nor CANCELED, its row becomes CANCELED with its filled quantity kept, the
  locked price times remaining quantity (buyer) or the remaining quantity (seller) moves from locked to
  available in the owner's account if that much is locked, and no other account changes.
\<close>

theorem cancel_releases_remaining:
  assumes "handleOrderCanceled bus event s = (r, s')" and "db s' \<noteq> db s"
  shows "\<exists>x y base quote. row_of (db s) (ocOrderID event) x \<and>
    dStatus x \<noteq> StatusFilled \<and> dStatus x \<noteq> StatusCanceled \<and>
    row_of (db s') (ocOrderID event) y \<and> dStatus y = StatusCanceled \<and>
    dFilledQuantity y = dFilledQuantity x \<and> splitSymbol (dSymbol x) = Inr (base, quote) \<and>
    list_all2
      (if dSide x = SideBuy
       then released (dUserID x) quote (dPrice x * (dQuantity x - dFilledQuantity x))
       else released (dUserID x) base (dQuantity x - dFilledQuantity x))
      (accounts (db s)) (accounts (db s'))"
  using assms(1)
proof (rule canceled_cases)
  fix out t t'
  assume t: "db t = db s" "in_tx t" "canceled_body event t = (Inr out, t')" "db s' = db t'"
  from t(3,2) show ?thesis
  proof (rule canceled_body_InrE)
    fix x c amount s1 s2 u
    assume x: "row_of (db t) (ocOrderID event) x" "dStatus x \<noteq> StatusFilled" "dStatus x \<noteq> StatusCanceled"
      and amount: "calculateUnlockAmount x (dQuantity x - dFilledQuantity x) = Inr (c, amount)"
      and unl: "do_if (amount > 0) (UnlockFunds (dUserID x) c amount) s1 = (Inr (), s2)" and s1: "db s1 = db t"
      and t': "db t' = (db s2)\<lparr>orders := update_where (\<lambda>z. dID z = ocOrderID event)
         (saved (x\<lparr>dStatus := StatusCanceled\<rparr>) u) (orders (db s2))\<rparr>"
    note rel = unlock_released [OF unl, unfolded s1 t(1)]
    have "row_of (db s') (ocOrderID event) (saved (x\<lparr>dStatus := StatusCanceled\<rparr>) u x)"
      using x(1) rel t(1,4) t' by (simp add: row_of_def find_update_where_key)
    moreover have "accounts (db s') = accounts (db s2)" using t(4) t' by simp
    ultimately show ?thesis
      using x amount rel t(1)
      by (intro exI [of _ x] exI [of _ "saved (x\<lparr>dStatus := StatusCanceled\<rparr>) u x"])
        (auto simp: calculateUnlockAmount_def split: sum.splits if_splits)
  qed (use assms(2) t in simp)
qed (use assms(2) in simp)

lemma finished_cancel_no_effect:
  assumes "row_of (db s) (ocOrderID event) y" and "dStatus y = StatusFilled \<or> dStatus y = StatusCanceled"
    and "handleOrderCanceled bus event s = (r, s')"
  shows "db s' = db s"
proof (rule ccontr)
  assume "db s' \<noteq> db s"
  from assms(3) show False
  proof (rule canceled_cases)
    fix out t t'
    assume t: "db t = db s" "in_tx t" "canceled_body event t = (Inr out, t')" "db s' = db t'"
    from t(3,2) show False
      by (rule canceled_body_InrE) (use \<open>db s' \<noteq> db s\<close> t assms(1,2) in \<open>auto simp: row_of_def\<close>)
  qed (use \<open>db s' \<noteq> db s\<close> in simp)
qed



end
