(* ===== verification/Settlement_Demo.thy ===== *)
theory Settlement_Demo
  imports Settlement_Effects
begin

text \<open>
  The theorems on settlement and cancellation applied to one concrete database, session and pair of
  events, evaluated by the simplifier.
\<close>

section \<open>A concrete delivery\<close>

text \<open>Two users, a resting sell order of 2 at 100 and a limit buy of 3 at 110 that just took 2 of it.\<close>

definition demo_ustr :: "uuid \<Rightarrow> string" where
  "demo_ustr u = map (\<lambda>i. if bit u i then CHR ''1'' else CHR ''0'') [0..<128]"

lemma demo_uuid_text: "uuid_text demo_ustr"
proof -
  have "u = v" if "demo_ustr u = demo_ustr v" for u v
  proof (rule bit_word_eqI)
    fix n assume "n < LENGTH(128)"
    with that show "bit u n = bit v n"
      by (auto simp: demo_ustr_def map_eq_conv split: if_splits)
  qed
  then show ?thesis by (auto simp: uuid_text_def inj_def demo_ustr_def)
qed

definition demo_account :: "uuid \<Rightarrow> string \<Rightarrow> decimal \<Rightarrow> decimal \<Rightarrow> Account" where
  "demo_account u c b l = \<lparr>aID = 0, aUserID = u, aCurrency = c, aBalance = b, aLocked = l,
     aCreatedAt = 0, aUpdatedAt = 0\<rparr>"

definition demo_order :: "uuid \<Rightarrow> uuid \<Rightarrow> OrderSide \<Rightarrow> decimal \<Rightarrow> decimal \<Rightarrow> Order" where
  "demo_order oid u side p q = \<lparr>dID = oid, dUserID = u, dSymbol = ''BTC-USD'', dSide = side,
     dType = TypeLimit, dPrice = p, dQuantity = q, dFilledQuantity = 0, dStatus = StatusNew,
     dCreatedAt = 0, dUpdatedAt = 0\<rparr>"

definition demo_db :: DB where
  "demo_db = \<lparr>users = [],
     accounts = [demo_account 1 ''BTC'' 0 0, demo_account 1 ''USD'' 10 330,
                 demo_account 2 ''BTC'' 0 2, demo_account 2 ''USD'' 0 0],
     orders = [demo_order 11 2 SideSell 100 2, demo_order 12 1 SideBuy 110 3],
     trades = [], outbox = [],
     locks = [\<lparr>lPartition = ''matching-engine:global'', lLeaderID = ''a'', lFencingToken = 7, lExpiresAt = 0\<rparr>]\<rparr>"

definition demo_session :: session where
  "demo_session = \<lparr>db = demo_db, kafka = [], calls = 0, in_tx = False, aborted = False, outage = (\<lambda>_. False), lost_ack = (\<lambda>_. False),
     clock = (\<lambda>n. int n), fresh = (\<lambda>n. of_nat (100 + n))\<rparr>"

definition demo_event :: "int \<Rightarrow> SettlementRequestedEvent" where
  "demo_event token = \<lparr>srEventType = EventSettlementRequested, srSymbol = ''BTC-USD'', srTakerOrderID = 12,
     srAmountLocked = 330, srLockedCurrency = ''USD'', srRemainingQty = 1,
     srTrades = [\<lparr>tID = 21, tSymbol = ''BTC-USD'', tMakerOrderID = 11, tTakerOrderID = 12,
                   tPrice = 100, tQuantity = 2, tCreatedAt = 5\<rparr>],
     srFencingToken = token\<rparr>"

lemma demo_effect:
  "map tID (trades (db (snd (handleSettlementRequested demo_ustr (\<lambda>x. x) True (demo_event 7) demo_session)))) = [21]"
  by code_simp

definition demo_cancel :: "int \<Rightarrow> OrderCanceledEvent" where
  "demo_cancel token = \<lparr>ocEventType = EventOrderCanceled, ocSymbol = ''BTC-USD'', ocOrderID = 12,
     ocUserID = 1, ocFencingToken = token\<rparr>"

lemma demo_cancel_effect:
  "map dStatus (orders (db (snd (handleOrderCanceled True (demo_cancel 7) demo_session)))) = [1, 4]"
  by code_simp

definition demo_settle :: "session \<Rightarrow> (error + event list) \<times> session" where
  "demo_settle = handleSettlementRequested demo_ustr (\<lambda>x. x) True (demo_event 7)"

lemma demo_settle_changes: "db (snd (demo_settle demo_session)) \<noteq> db demo_session"
proof
  assume "db (snd (demo_settle demo_session)) = db demo_session"
  then have "map tID (trades (db (snd (demo_settle demo_session)))) = map tID (trades (db demo_session))" by simp
  then show False
    using demo_effect by (simp add: demo_settle_def demo_session_def demo_db_def)
qed

lemma demo_cancel_changes:
  "db (snd (handleOrderCanceled True (demo_cancel 7) demo_session)) \<noteq> db demo_session"
proof
  assume "db (snd (handleOrderCanceled True (demo_cancel 7) demo_session)) = db demo_session"
  then have "map dStatus (orders (db (snd (handleOrderCanceled True (demo_cancel 7) demo_session)))) =
    map dStatus (orders (db demo_session))" by simp
  then show False
    unfolding demo_cancel_effect by (simp add: demo_session_def demo_db_def demo_order_def)
qed

theorem settlement_conserves_money_witness:
  "accounts_ok (db (snd (demo_settle demo_session))) \<and>
   total ''USD'' (db (snd (demo_settle demo_session))) = 340"
proof -
  have ok: "accounts_ok (db demo_session)"
    by (simp add: demo_session_def demo_db_def accounts_ok_def demo_account_def acc_key_def)
  have "splitSymbol ''BTC-USD'' = Inr (''BTC'', ''USD'')" by code_simp
  then have ready: "parties_ready (set (settlement_ids demo_ustr (demo_event 7))) (srTakerOrderID (demo_event 7)) (db demo_session)"
    by (simp add: parties_ready_def demo_event_def demo_session_def demo_db_def demo_order_def has_account_def
        demo_account_def acc_key_def)
  have "total ''USD'' (db demo_session) = 340"
    by (simp add: demo_session_def demo_db_def total_def demo_account_def)
  with settlement_conserves_money [OF prod.collapse [symmetric] demo_uuid_text ok ready, of "\<lambda>x. x" True "''USD''"]
  show ?thesis by (simp add: demo_settle_def)
qed


theorem stale_settlement_no_effect_witness:
  "db (snd (handleSettlementRequested demo_ustr (\<lambda>x. x) True (demo_event 6) demo_session)) = demo_db"
proof -
  have "stale (srFencingToken (demo_event 6)) (db demo_session)"
    by (simp add: stale_def demo_event_def demo_session_def demo_db_def)
  from stale_settlement_no_effect [OF this prod.collapse [symmetric], of demo_ustr "\<lambda>x. x" True]
  show ?thesis by (simp add: demo_session_def)
qed

theorem settlement_fills_orders_witness:
  "\<exists>y. row_of (db (snd (demo_settle demo_session))) 12 y \<and> dFilledQuantity y = 2 \<and> dStatus y = StatusPartiallyFilled"
proof -
  have row: "row_of (db demo_session) 12 (demo_order 12 1 SideBuy 110 3)"
    by (simp add: row_of_def demo_session_def demo_db_def demo_order_def)
  from settlement_fills_orders [OF _ demo_settle_changes row, of demo_ustr "\<lambda>x. x" True "demo_event 7" "fst (demo_settle demo_session)"]
  show ?thesis
    by (auto simp: demo_settle_def demo_event_def demo_order_def taker_status_def)
qed

theorem cancel_releases_remaining_witness:
  "\<exists>y. row_of (db (snd (handleOrderCanceled True (demo_cancel 7) demo_session))) 12 y \<and> dStatus y = StatusCanceled"
  using cancel_releases_remaining [OF prod.collapse [symmetric] demo_cancel_changes]
  by (auto simp: demo_cancel_def)



end
