(* ===== verification/Outbox.thy ===== *)
theory Outbox
  imports Tx
begin

text \<open>
  The transactional outbox: src/internal/infrastructure/outbox/repository.go and worker.go, and the
  hot path of src/internal/order/service.go with its batch deletion (\<open>batchMarkPublishedWorker\<close>,
  \<open>flushBatch\<close>). \<open>json.Marshal\<close> of the event structs cannot fail, so a payload is the event itself.
\<close>

section \<open>repository.go\<close>

definition insert_messages :: "Message list \<Rightarrow> DB \<Rightarrow> error + unit \<times> DB" where
  "insert_messages msgs d =
     (if list_ex (\<lambda>m. length (mAggregateID m) > 64 \<or> length (mAggregateType m) > 32 \<or>
                      length (mTopic m) > 128 \<or> length (mPartitionKey m) > 64) msgs
      then Inl (ErrValueTooLong ''outbox_messages'')
      else if \<not> distinct (map mID (outbox d @ msgs)) then Inl (ErrUniqueViolation ''outbox_messages_pkey'')
      else Inr ((), d\<lparr>outbox := outbox d @ msgs\<rparr>))"

text \<open>\<open>Insert\<close> fills in the identifier, the time and the status, which the caller sees through its pointer.\<close>

definition Insert :: "Message \<Rightarrow> Message dbm" where
  "Insert msg =
     bind NewV7 (\<lambda>i.
     bind now (\<lambda>t.
     let msg' = msg\<lparr>mID := i, mCreatedAt := t, mStatus := StatusPending\<rparr> in
     bind (stmt (insert_messages [msg'])) (\<lambda>_. ret msg')))"

definition BatchInsert :: "Message list \<Rightarrow> Message list dbm" where
  "BatchInsert msgs s =
     (if msgs = [] then (Inr [], s)
      else if \<not> in_tx s then (Inl (ErrMsg ''BatchInsert must be called within ExecTx''), s)
      else bind now (\<lambda>t.
           bind (map_each msgs (\<lambda>m. bind NewV7 (\<lambda>i.
                   ret (m\<lparr>mID := i, mCreatedAt := t, mStatus := StatusPending\<rparr>)))) (\<lambda>msgs'.
           bind (stmt (insert_messages msgs')) (\<lambda>_. ret msgs'))) s)"

definition FetchPending :: "nat \<Rightarrow> millis \<Rightarrow> Message list dbm" where
  "FetchPending batchSize gracePeriod =
     bind now (\<lambda>t.
     stmt (\<lambda>d. Inr (take batchSize (sort_key mCreatedAt
        (filter (\<lambda>m. mStatus m = StatusPending \<and> mCreatedAt m \<le> t - gracePeriod) (outbox d))), d)))"

definition MarkPublished :: "uuid \<Rightarrow> unit dbm" where
  "MarkPublished i = stmt (\<lambda>d. Inr ((), d\<lparr>outbox := filter (\<lambda>m. mID m \<noteq> i) (outbox d)\<rparr>))"

definition MarkPublishedBatch :: "uuid list \<Rightarrow> unit dbm" where
  "MarkPublishedBatch ids =
     (if ids = [] then ret ()
      else stmt (\<lambda>d. Inr ((), d\<lparr>outbox := filter (\<lambda>m. mID m \<notin> set ids) (outbox d)\<rparr>)))"

definition IncrementRetry :: "uuid \<Rightarrow> unit dbm" where
  "IncrementRetry i =
     stmt (\<lambda>d. Inr ((), d\<lparr>outbox := update_where (\<lambda>m. mID m = i)
        (\<lambda>m. m\<lparr>mRetryCount := mRetryCount m + 1\<rparr>) (outbox d)\<rparr>))"

definition CountPending :: "nat dbm" where
  "CountPending = stmt (\<lambda>d. Inr (length (filter (\<lambda>m. mStatus m = StatusPending) (outbox d)), d))"

section \<open>worker.go\<close>

record Worker =
  wInterval :: millis
  wBatchSize :: nat

definition NewWorker :: "millis \<Rightarrow> nat \<Rightarrow> Worker" where
  "NewWorker interval batchSize = \<lparr>wInterval = interval, wBatchSize = batchSize\<rparr>"

text \<open>\<open>pgx.BeginFunc\<close> begins, runs and commits or rolls back as \<open>ExecTx\<close> does.\<close>

definition WithTx :: "'a dbm \<Rightarrow> 'a dbm" where
  "WithTx fn = ExecTx fn"

text \<open>One message of the batch: its identifier when it was published, nothing when it must be retried.\<close>

definition publish_one :: "Message \<Rightarrow> uuid list dbm" where
  "publish_one msg s =
     (case PublishRaw (mTopic msg) (mPartitionKey msg) (mPayload msg) s of
        (Inl e, s1) \<Rightarrow> bind (wrap ''increment retry_count'' (IncrementRetry (mID msg))) (\<lambda>_. ret []) s1
      | (Inr _, s1) \<Rightarrow> (Inr [mID msg], s1))"

fun publish_loop :: "Message list \<Rightarrow> uuid list dbm" where
  "publish_loop [] = ret []"
| "publish_loop (msg # msgs) =
     bind (publish_one msg) (\<lambda>i. bind (publish_loop msgs) (\<lambda>is. ret (i @ is)))"

definition process_body :: "Worker \<Rightarrow> unit dbm" where
  "process_body w =
     bind (wrap ''read pending'' (FetchPending (wBatchSize w) 5000)) (\<lambda>msgs.
     bind (publish_loop msgs) (\<lambda>successfulIDs.
     if successfulIDs = [] then ret ()
     else wrap ''mark published'' (MarkPublishedBatch successfulIDs)))"

text \<open>The error is logged; the count only feeds a gauge.\<close>

definition process :: "Worker \<Rightarrow> session \<Rightarrow> session" where
  "process w s = snd (WithTx (process_body w) (snd (CountPending s)))"

text \<open>The loop of \<open>Start\<close>: a pass at every tick until the context is cancelled.\<close>

definition Worker_Start :: "Worker \<Rightarrow> branch list \<Rightarrow> session \<Rightarrow> session \<times> bool" where
  "Worker_Start w = ticker_loop (\<lambda>s. s) (process w)"

lemma Worker_Start_passes:
  "Worker_Start w bs s = ((process w ^^ length (takeWhile (\<lambda>b. b = Ticked) bs)) s, CtxDone \<in> set bs)"
  by (rule prod_eqI) (simp_all add: Worker_Start_def ticker_loop_state ticker_loop_returns Let_def)

section \<open>The hot path and the batch deletion\<close>

text \<open>
  After the commit a goroutine publishes the message at once and, when the broker acknowledged it,
  offers its identifier to a channel of 5000 entries; the background worker deletes the collected
  identifiers when there are 200 of them or at the next tick. The batch is emptied even when the
  deletion failed.
\<close>

record Batcher =
  publishedMsgChan :: "uuid list"
  batch :: "uuid list"

definition hot_path :: "Message \<Rightarrow> Batcher \<times> session \<Rightarrow> Batcher \<times> session" where
  "hot_path msg = (\<lambda>(b, s).
     case PublishRaw (mTopic msg) (mPartitionKey msg) (mPayload msg) s of
       (Inl e, s1) \<Rightarrow> (b, s1)
     | (Inr _, s1) \<Rightarrow>
         (if length (publishedMsgChan b) < 5000
          then (b\<lparr>publishedMsgChan := publishedMsgChan b @ [mID msg]\<rparr>, s1) else (b, s1)))"

definition flushBatch :: "Batcher \<times> session \<Rightarrow> Batcher \<times> session" where
  "flushBatch = (\<lambda>(b, s).
     if batch b = [] then (b, s) else (b\<lparr>batch := []\<rparr>, snd (MarkPublishedBatch (batch b) s)))"

text \<open>The two branches of the worker's \<open>select\<close>.\<close>

definition worker_receive :: "Batcher \<times> session \<Rightarrow> Batcher \<times> session" where
  "worker_receive = (\<lambda>(b, s).
     case publishedMsgChan b of
       [] \<Rightarrow> (b, s)
     | i # is \<Rightarrow>
         (let b' = b\<lparr>publishedMsgChan := is, batch := batch b @ [i]\<rparr>
          in if length (batch b') \<ge> 200 then flushBatch (b', s) else (b', s)))"

definition worker_tick :: "Batcher \<times> session \<Rightarrow> Batcher \<times> session" where
  "worker_tick = flushBatch"

section \<open>No event is lost\<close>

definition sent :: "session \<Rightarrow> Message \<Rightarrow> bool" where
  "sent s m \<longleftrightarrow> (mTopic m, mPartitionKey m, mPayload m) \<in> set (kafka s)"

text \<open>The message with the same identifier and contents is still in the table, however often it was retried.\<close>

definition same_message :: "Message \<Rightarrow> Message \<Rightarrow> bool" where
  "same_message m m' \<longleftrightarrow> mID m' = mID m \<and> mTopic m' = mTopic m \<and> mPartitionKey m' = mPartitionKey m \<and>
     mPayload m' = mPayload m \<and> mStatus m' = mStatus m \<and> mCreatedAt m' = mCreatedAt m"

definition queued :: "DB \<Rightarrow> Message \<Rightarrow> bool" where
  "queued d m \<longleftrightarrow> (\<exists>m' \<in> set (outbox d). same_message m m')"

lemma same_message_refl [simp, intro]: "same_message m m"
  by (simp add: same_message_def)

lemma same_message_trans: "same_message a b \<Longrightarrow> same_message b c \<Longrightarrow> same_message a c"
  by (auto simp: same_message_def)

lemma sent_same: "same_message m m' \<Longrightarrow> sent s m' = sent s m"
  by (simp add: sent_def same_message_def)

text \<open>The brokers forget nothing: every computation only appends to what they accepted.\<close>

definition appends :: "'a dbm \<Rightarrow> bool" where
  "appends m \<longleftrightarrow> (\<forall>s r s'. m s = (r, s') \<longrightarrow> (\<exists>rs. kafka s' = kafka s @ rs))"

named_theorems appending \<open>computations that only append to the log\<close>

lemma appendsD: "appends m \<Longrightarrow> m s = (r, s') \<Longrightarrow> \<exists>rs. kafka s' = kafka s @ rs"
  by (simp add: appends_def)

lemma appends_basic [appending]:
  "appends (ret x)" "appends (fail e)" "appends now" "appends NewV7" "appends (stmt f)"
  "appends (PublishRaw t k v)"
  by (auto simp: appends_def stmt_def PublishRaw_run Let_def split: if_splits sum.splits)

lemma appends_bind [appending]: "appends m \<Longrightarrow> (\<And>x. appends (f x)) \<Longrightarrow> appends (bind m f)"
  unfolding appends_def bind_def by (fastforce split: prod.splits sum.splits)

lemma appends_wrap [appending]: "appends m \<Longrightarrow> appends (wrap msg m)"
  unfolding appends_def wrap_def catch_def by (auto simp: fail_def split: prod.splits sum.splits)

lemma appends_ExecTx [appending]: "appends m \<Longrightarrow> appends (ExecTx m)"
  unfolding appends_def ExecTx_def by (fastforce simp: Let_def split: if_splits prod.splits sum.splits)

lemma appends_publish_one [appending]: "appends (publish_one msg)"
proof -
  have a: "appends (bind (wrap ''increment retry_count'' (IncrementRetry (mID msg))) (\<lambda>_. ret []))"
    unfolding IncrementRetry_def by (intro appending)
  show ?thesis
    unfolding appends_def
  proof (intro allI impI)
    fix s r s' assume h: "publish_one msg s = (r, s')"
    obtain p s1 where p: "PublishRaw (mTopic msg) (mPartitionKey msg) (mPayload msg) s = (p, s1)"
      by (cases "PublishRaw (mTopic msg) (mPartitionKey msg) (mPayload msg) s")
    from appendsD [OF appends_basic(6) p] obtain rs where "kafka s1 = kafka s @ rs" ..
    with h p appendsD [OF a] show "\<exists>rs. kafka s' = kafka s @ rs"
      by (fastforce simp: publish_one_def split: sum.splits)
  qed
qed

lemma appends_publish_loop [appending]: "appends (publish_loop msgs)"
  by (induction msgs) (auto intro!: appending)

lemma mark_batch:
  "MarkPublishedBatch ids s = (r, s') \<Longrightarrow> kafka s' = kafka s \<and>
     (db s' = db s \<or> db s' = (db s)\<lparr>outbox := filter (\<lambda>m. mID m \<notin> set ids) (outbox (db s))\<rparr>)"
  by (auto simp: MarkPublishedBatch_def ret_def stmt_def Let_def split: if_splits)

lemma increment_retry:
  assumes "IncrementRetry i s = (r, s')"
  shows "kafka s' = kafka s \<and> list_all2 same_message (outbox (db s)) (outbox (db s'))"
proof -
  have "list_all2 same_message ms (update_where (\<lambda>m. mID m = i) (\<lambda>m. m\<lparr>mRetryCount := mRetryCount m + 1\<rparr>) ms)" for ms
    by (induction ms) (auto simp: same_message_def)
  moreover have "list_all2 same_message ms ms" for ms
    by (simp add: list_all2_refl)
  ultimately show ?thesis
    using assms by (auto simp: IncrementRetry_def stmt_def Let_def split: if_splits)
qed

lemma same_messages_trans:
  "list_all2 same_message a b \<Longrightarrow> list_all2 same_message b c \<Longrightarrow> list_all2 same_message a c"
  by (rule list_all2_trans [OF same_message_trans])

lemma same_messages_ids: "list_all2 same_message a b \<Longrightarrow> map mID b = map mID a"
  by (induction rule: list_all2_induct) (auto simp: same_message_def)

lemma same_messages_queued:
  "list_all2 same_message (outbox d) (outbox d') \<Longrightarrow> queued d m \<Longrightarrow> queued d' m"
  using list_all2_member [of same_message "outbox d" "outbox d'"]
  unfolding queued_def by (blast intro: same_message_trans)

lemma publish_one_effect:
  assumes "publish_one msg s = (Inr ids, s')"
  shows "list_all2 same_message (outbox (db s)) (outbox (db s')) \<and>
    (\<forall>i \<in> set ids. i = mID msg \<and> sent s' msg)"
proof (cases "PublishRaw (mTopic msg) (mPartitionKey msg) (mPayload msg) s")
  case (Pair p s1)
  then have db1: "db s1 = db s" and acc: "p = Inr () \<Longrightarrow> sent s1 msg"
    by (auto simp: PublishRaw_run Let_def sent_def split: if_splits)
  show ?thesis
  proof (cases p)
    case (Inl e)
    with Pair assms have "IncrementRetry (mID msg) s1 = (Inr (), s')" and "ids = []"
      by (auto simp: publish_one_def bind_Inr_iff)
    with increment_retry db1 show ?thesis by fastforce
  next
    case (Inr u)
    with Pair assms db1 acc show ?thesis
      by (auto simp: publish_one_def list_all2_refl)
  qed
qed

lemma sent_append: "kafka s' = kafka s @ rs \<Longrightarrow> sent s m \<Longrightarrow> sent s' m"
  by (auto simp: sent_def)

lemma publish_loop_effect:
  assumes "publish_loop msgs s = (Inr ids, s')"
  shows "list_all2 same_message (outbox (db s)) (outbox (db s')) \<and>
    (\<forall>i \<in> set ids. \<exists>m \<in> set msgs. mID m = i \<and> sent s' m)"
  using assms
proof (induction msgs arbitrary: s ids)
  case (Cons msg msgs)
  then obtain i1 s1 js where 1: "publish_one msg s = (Inr i1, s1)"
    and 2: "publish_loop msgs s1 = (Inr js, s')" and ids: "ids = i1 @ js"
    by (auto simp: bind_Inr_iff)
  obtain rs where "kafka s' = kafka s1 @ rs"
    using appendsD [OF appends_publish_loop 2] by blast
  with publish_one_effect [OF 1] Cons.IH [OF 2] ids show ?case
    by (auto intro: sent_append same_messages_trans)
qed (simp add: list_all2_refl)

text \<open>What one pass of the worker leaves of the table: retried messages, less the published ones.\<close>

lemma process_effect:
  fixes s :: session and w :: Worker
  obtains rest gone where "list_all2 same_message (outbox (db s)) rest"
    and "outbox (db (process w s)) = filter (\<lambda>m. \<not> gone m) rest"
    and "\<And>m. gone m \<Longrightarrow> m \<in> set rest \<Longrightarrow> \<exists>m' \<in> set (outbox (db s)). mID m' = mID m \<and> sent (process w s) m'"
proof -
  note result = that
  obtain c s0 where c: "CountPending s = (c, s0)" by (cases "CountPending s")
  have "frame id CountPending" "appends CountPending"
    unfolding CountPending_def by (intro frames appending; simp)+
  from frameD [OF this(1) c] have db0: "db s0 = db s" by simp
  obtain r s1 where e: "ExecTx (process_body w) s0 = (r, s1)" by (cases "ExecTx (process_body w) s0")
  then have res: "process w s = s1" by (simp add: process_def WithTx_def c)
  have nop: ?thesis if "db s1 = db s"
    by (rule result [of "outbox (db s)" "\<lambda>_. False"]) (use that res in \<open>simp_all add: list_all2_refl\<close>)
  show ?thesis
  proof (cases r)
    case (Inl err)
    with e tx.atomic db0 nop show ?thesis by metis
  next
    case (Inr u)
    from e [unfolded Inr] obtain t where
      body: "process_body w (s0\<lparr>calls := Suc (calls s0), in_tx := True, aborted := False\<rparr>) = (Inr u, t)"
      and s1: "s1 = t\<lparr>calls := Suc (calls t), in_tx := False, aborted := False\<rparr>" by (rule ExecTx_InrE)
    let ?s = "s0\<lparr>calls := Suc (calls s0), in_tx := True, aborted := False\<rparr>"
    from body obtain msgs t1 ids t2 where f: "FetchPending (wBatchSize w) 5000 ?s = (Inr msgs, t1)"
      and p: "publish_loop msgs t1 = (Inr ids, t2)"
      and d: "(if ids = [] then ret () else wrap ''mark published'' (MarkPublishedBatch ids)) t2 = (Inr u, t)"
      by (auto simp: process_body_def bind_Inr_iff)
    from f have msgs: "set msgs \<subseteq> set (outbox (db s))" "db t1 = db s"
      by (auto simp: FetchPending_def bind_Inr_iff stmt_Inr_iff db0 dest!: in_set_takeD)
    note l = publish_loop_effect [OF p]
    from d have fin: "kafka t = kafka t2"
      "outbox (db t) = filter (\<lambda>m. mID m \<notin> set ids) (outbox (db t2))"
      by (auto simp: MarkPublishedBatch_def stmt_Inr_iff split: if_splits)
    show ?thesis
      by (rule result [of "outbox (db t2)" "\<lambda>m. mID m \<in> set ids"])
        (use l msgs fin res s1 in \<open>fastforce simp: sent_def\<close>)+
  qed
qed

lemma process_appends: "\<exists>rs. kafka (process w s) = kafka s @ rs"
proof -
  have "appends CountPending" and "appends (ExecTx (process_body w))"
    unfolding CountPending_def process_body_def FetchPending_def MarkPublishedBatch_def
    by (auto intro!: appending)
  then show ?thesis
    unfolding process_def WithTx_def by (metis appendsD append_assoc prod.collapse)
qed

section \<open>The pipeline as a state machine\<close>

text \<open>
  \<open>pipeline placed hot b s\<close>: a state the outbox can reach. \<open>placed\<close> are all messages ever committed,
  \<open>hot\<close> those whose hot path goroutine has not run yet. A commit adds messages whose identifiers were
  never used (what \<open>uuid.NewV7\<close> promises) and starts hot paths for some of them; other transactions leave the table alone and may publish;
  the hot paths, the batch worker and any number of outbox workers run in any order, each under any
  failures.
\<close>

inductive pipeline :: "Message list \<Rightarrow> Message list \<Rightarrow> Batcher \<Rightarrow> session \<Rightarrow> bool" where
  start: "outbox (db s) = [] \<Longrightarrow> pipeline [] [] \<lparr>publishedMsgChan = [], batch = []\<rparr> s"
| commit: "pipeline placed hot b s \<Longrightarrow> outbox (db s') = outbox (db s) @ msgs \<Longrightarrow> kafka s' = kafka s \<Longrightarrow>
     distinct (map mID (placed @ msgs)) \<Longrightarrow> set started \<subseteq> set msgs \<Longrightarrow>
     pipeline (placed @ msgs) (hot @ started) b s'"
| other: "pipeline placed hot b s \<Longrightarrow> outbox (db s') = outbox (db s) \<Longrightarrow> kafka s' = kafka s @ rs \<Longrightarrow>
     pipeline placed hot b s'"
| hot: "pipeline placed hot b s \<Longrightarrow> msg \<in> set hot \<Longrightarrow> hot_path msg (b, s) = (b', s') \<Longrightarrow>
     pipeline placed (remove1 msg hot) b' s'"
| receive: "pipeline placed hot b s \<Longrightarrow> worker_receive (b, s) = (b', s') \<Longrightarrow> pipeline placed hot b' s'"
| tick: "pipeline placed hot b s \<Longrightarrow> worker_tick (b, s) = (b', s') \<Longrightarrow> pipeline placed hot b' s'"
| work: "pipeline placed hot b s \<Longrightarrow> pipeline placed hot b (process w s)"

text \<open>
  The invariant: what was placed is queued or sent, the table holds only placed messages under their
  own identifiers, and an identifier on its way to deletion belongs to a message the brokers have.
\<close>

definition pipeline_ok :: "Message list \<Rightarrow> Message list \<Rightarrow> Batcher \<Rightarrow> session \<Rightarrow> bool" where
  "pipeline_ok placed hot b s \<longleftrightarrow>
     (\<forall>m \<in> set placed. queued (db s) m \<or> sent s m) \<and>
     distinct (map mID placed) \<and> set hot \<subseteq> set placed \<and>
     (\<forall>m' \<in> set (outbox (db s)). \<exists>m \<in> set placed. same_message m m') \<and>
     (\<forall>i \<in> set (publishedMsgChan b) \<union> set (batch b). \<exists>m \<in> set placed. mID m = i \<and> sent s m)"

lemma same_id: "distinct (map mID ms) \<Longrightarrow> m \<in> set ms \<Longrightarrow> m' \<in> set ms \<Longrightarrow> mID m = mID m' \<Longrightarrow> m = m'"
  by (auto simp: distinct_map dest: inj_onD)

text \<open>Deleting messages that the brokers have keeps the invariant.\<close>

lemma pipeline_ok_delete:
  assumes "pipeline_ok placed hot b s"
    and "list_all2 same_message (outbox (db s)) rest" and "outbox (db s') = filter (\<lambda>m. \<not> gone m) rest"
    and "\<And>m. gone m \<Longrightarrow> m \<in> set rest \<Longrightarrow> \<exists>m' \<in> set placed. mID m' = mID m \<and> sent s' m'"
    and "kafka s' = kafka s @ rs" and "set hot' \<subseteq> set placed"
    and "\<forall>i \<in> set (publishedMsgChan b') \<union> set (batch b'). \<exists>m \<in> set placed. mID m = i \<and> sent s' m"
  shows "pipeline_ok placed hot' b' s'"
proof -
  have "queued (db s') m \<or> sent s' m" if m: "m \<in> set placed" for m
  proof (cases "sent s m")
    case True
    with assms(5) show ?thesis by (auto intro: sent_append)
  next
    case False
    with m assms(1) have "queued (db s) m" by (auto simp: pipeline_ok_def)
    then obtain m1 where "m1 \<in> set (outbox (db s))" "same_message m m1" by (auto simp: queued_def)
    with list_all2_member [OF assms(2)] obtain m2 where m2: "m2 \<in> set rest" "same_message m m2"
      by (blast intro: same_message_trans)
    show ?thesis
    proof (cases "gone m2")
      case True
      with assms(4) m2 obtain m' where m': "m' \<in> set placed" "mID m' = mID m2" "sent s' m'" by blast
      with m2 have "mID m' = mID m" by (simp add: same_message_def)
      with same_id [of placed m' m] assms(1) m m' have "m' = m" by (simp add: pipeline_ok_def)
      with m' show ?thesis by simp
    next
      case False
      with m2 assms(3) show ?thesis by (auto simp: queued_def)
    qed
  qed
  moreover have "\<exists>m \<in> set placed. same_message m m'" if "m' \<in> set (outbox (db s'))" for m'
  proof -
    from that assms(3) have "m' \<in> set rest" by auto
    with list_all2_member' [OF assms(2)] obtain m1 where "m1 \<in> set (outbox (db s))" "same_message m1 m'" by blast
    with assms(1) show ?thesis unfolding pipeline_ok_def by (blast intro: same_message_trans)
  qed
  ultimately show ?thesis using assms(1,6,7) by (simp add: pipeline_ok_def)
qed

lemma flush_ok:
  assumes "pipeline_ok placed hot b s" and "flushBatch (b, s) = (b', s')"
  shows "pipeline_ok placed hot b' s'"
proof (cases "batch b = []")
  case True
  with assms show ?thesis by (simp add: flushBatch_def)
next
  case False
  obtain r t where m: "MarkPublishedBatch (batch b) s = (r, t)" by (cases "MarkPublishedBatch (batch b) s")
  with False assms(2) have b': "b' = b\<lparr>batch := []\<rparr>" "s' = t" by (auto simp: flushBatch_def)
  note e = mark_batch [OF m]
  let ?gone = "\<lambda>x. outbox (db t) \<noteq> outbox (db s) \<and> mID x \<in> set (batch b)"
  have "outbox (db s') = filter (\<lambda>x. \<not> ?gone x) (outbox (db s))"
    using e b' by (cases "outbox (db t) = outbox (db s)") auto
  note f = this
  show ?thesis
  proof (rule pipeline_ok_delete [OF assms(1) _ f, where rs = "[]"])
    show "list_all2 same_message (outbox (db s)) (outbox (db s))" by (simp add: list_all2_refl)
  qed (use assms(1) e b' in \<open>auto simp: pipeline_ok_def sent_def\<close>)
qed

lemma pipeline_invariant: "pipeline placed hot b s \<Longrightarrow> pipeline_ok placed hot b s"
proof (induction rule: pipeline.induct)
  case (start s)
  then show ?case by (simp add: pipeline_ok_def)
next
  case (commit placed hot b s s' msgs started)
  then show ?case by (fastforce simp: pipeline_ok_def queued_def sent_def)
next
  case (other placed hot b s s' rs)
  then show ?case by (fastforce simp: pipeline_ok_def queued_def sent_def)
next
  case (hot placed hot b s msg b' s')
  obtain r t where p: "PublishRaw (mTopic msg) (mPartitionKey msg) (mPayload msg) s = (r, t)"
    by (cases "PublishRaw (mTopic msg) (mPartitionKey msg) (mPayload msg) s")
  then obtain rs where t: "db t = db s" "kafka t = kafka s @ rs" "r = Inr () \<longrightarrow> sent t msg"
    by (auto simp: PublishRaw_run Let_def sent_def split: if_splits)
  from hot.hyps p have s': "s' = t"
    "set (publishedMsgChan b') \<union> set (batch b') \<subseteq>
       set (publishedMsgChan b) \<union> set (batch b) \<union> (if r = Inr () then {mID msg} else {})"
    by (auto simp: hot_path_def split: sum.splits if_splits)
  show ?case
  proof (rule pipeline_ok_delete [OF hot.IH, of "outbox (db s)" s' "\<lambda>_. False" rs])
    show "list_all2 same_message (outbox (db s)) (outbox (db s))" by (simp add: list_all2_refl)
    show "\<forall>i \<in> set (publishedMsgChan b') \<union> set (batch b'). \<exists>m \<in> set placed. mID m = i \<and> sent s' m"
    proof
      fix i assume "i \<in> set (publishedMsgChan b') \<union> set (batch b')"
      with s'(2) consider "i \<in> set (publishedMsgChan b) \<union> set (batch b)" | "r = Inr ()" "i = mID msg"
        by (auto split: if_splits)
      then show "\<exists>m \<in> set placed. mID m = i \<and> sent s' m"
      proof cases
        case 1
        with hot.IH obtain m where "m \<in> set placed" "mID m = i" "sent s m"
          unfolding pipeline_ok_def by blast
        with sent_append [OF t(2)] s'(1) show ?thesis by blast
      next
        case 2
        with hot.IH hot.hyps(2) t(3) s'(1) show ?thesis by (auto simp: pipeline_ok_def)
      qed
    qed
    show "set (remove1 msg hot) \<subseteq> set placed"
      using hot.IH set_remove1_subset [of msg hot] by (auto simp: pipeline_ok_def)
  qed (use s' t in simp_all)
next
  case (receive placed hot b s b' s')
  show ?case
  proof (cases "publishedMsgChan b")
    case Nil
    with receive show ?thesis by (simp add: worker_receive_def)
  next
    case (Cons i js)
    let ?b = "b\<lparr>publishedMsgChan := js, batch := batch b @ [i]\<rparr>"
    have "pipeline_ok placed hot ?b s"
      using receive.IH Cons by (auto simp: pipeline_ok_def)
    with receive.hyps Cons flush_ok show ?thesis
      by (auto simp: worker_receive_def Let_def split: if_splits)
  qed
next
  case (tick placed hot b s b' s')
  then show ?case by (auto simp: worker_tick_def intro: flush_ok)
next
  case (work placed hot b s w)
  obtain rest gone where e: "list_all2 same_message (outbox (db s)) rest"
    "outbox (db (process w s)) = filter (\<lambda>m. \<not> gone m) rest"
    "\<And>m. gone m \<Longrightarrow> m \<in> set rest \<Longrightarrow> \<exists>m' \<in> set (outbox (db s)). mID m' = mID m \<and> sent (process w s) m'"
    by (rule process_effect [of s w]) blast
  obtain rs where rs: "kafka (process w s) = kafka s @ rs"
    using process_appends [of w s] by blast
  have gone: "\<exists>m' \<in> set placed. mID m' = mID m \<and> sent (process w s) m'" if g: "gone m" "m \<in> set rest" for m
  proof -
    from e(3) [OF g] obtain m1 where m1: "m1 \<in> set (outbox (db s))" "mID m1 = mID m" "sent (process w s) m1"
      by blast
    with work.IH obtain m' where "m' \<in> set placed" "same_message m' m1" by (auto simp: pipeline_ok_def)
    with m1 sent_same show ?thesis by (metis same_message_def)
  qed
  show ?case
    by (rule pipeline_ok_delete [OF work.IH e(1,2) gone rs])
      (use work.IH rs in \<open>fastforce simp: pipeline_ok_def intro: sent_append\<close>)+
qed

text \<open>
  C18: no event is lost. In every state the outbox pipeline can reach, however the commits, the hot
  paths, the batch deletions and the outbox workers interleave and fail, every message committed with
  a business transaction is still queued in the table or has been accepted by the brokers.
\<close>

theorem outbox_never_loses:
  assumes "pipeline placed hot b s" and "m \<in> set placed"
  shows "queued (db s) m \<or> sent s m"
  using pipeline_invariant [OF assms(1)] assms(2) by (simp add: pipeline_ok_def)

section \<open>Progress\<close>

definition record_of :: "Message \<Rightarrow> kafka_record" where
  "record_of m = (mTopic m, mPartitionKey m, mPayload m)"

lemma publish_loop_runs:
  assumes "\<forall>n. \<not> outage s n"
  shows "publish_loop msgs s = (Inr (map mID msgs),
           s\<lparr>kafka := kafka s @ map record_of msgs, calls := calls s + length msgs\<rparr>)"
  using assms
proof (induction msgs arbitrary: s)
  case (Cons m msgs)
  have "publish_one m s = (Inr [mID m], s\<lparr>kafka := kafka s @ [record_of m], calls := Suc (calls s)\<rparr>)"
    using Cons.prems by (simp add: publish_one_def PublishRaw_run record_of_def Let_def)
  with Cons show ?case by (simp add: bind_step bind_def ret_def)
qed (simp add: ret_def)

text \<open>
  C19: the worker drains the outbox in order. When nothing fails and every message is pending, older
  than the grace period of five seconds and within the batch size, one pass of the worker publishes
  all of them, oldest first, each exactly once, and leaves the table empty.
\<close>

theorem worker_drains:
  assumes "\<forall>n. \<not> outage s n" and "\<not> aborted s" and "length (outbox (db s)) \<le> wBatchSize w"
    and "\<forall>m \<in> set (outbox (db s)). mStatus m = StatusPending \<and> mCreatedAt m \<le> clock s (calls s + 2) - 5000"
  shows "outbox (db (process w s)) = [] \<and>
    kafka (process w s) = kafka s @ map record_of (sort_key mCreatedAt (outbox (db s)))"
proof -
  let ?s0 = "s\<lparr>calls := Suc (calls s)\<rparr>"
  have count: "snd (CountPending s) = ?s0"
    using assms(1,2) by (simp add: CountPending_def stmt_def Let_def)
  let ?t0 = "?s0\<lparr>calls := Suc (Suc (calls s)), in_tx := True, aborted := False\<rparr>"
  let ?msgs = "sort_key mCreatedAt (outbox (db s))"
  let ?t1 = "?t0\<lparr>calls := calls s + 4\<rparr>"
  have "filter (\<lambda>m. mStatus m = StatusPending \<and> mCreatedAt m \<le> clock s (calls s + 2) - 5000) (outbox (db s)) = outbox (db s)"
    using assms(4) by (intro filter_True) auto
  then have fetch: "FetchPending (wBatchSize w) 5000 ?t0 = (Inr ?msgs, ?t1)"
    using assms(1,3) by (simp add: FetchPending_def bind_def now_def stmt_def Let_def numeral_eq_Suc)
  let ?t2 = "?t1\<lparr>kafka := kafka s @ map record_of ?msgs, calls := calls s + 4 + length ?msgs\<rparr>"
  have loop: "publish_loop ?msgs ?t1 = (Inr (map mID ?msgs), ?t2)"
    using publish_loop_runs [of ?t1 ?msgs] assms(1) by simp
  have nil: "?msgs = [] \<longleftrightarrow> outbox (db s) = []"
    by (metis length_0_conv length_sort)
  have "\<exists>t3. process_body w ?t0 = (Inr (), t3) \<and> outbox (db t3) = [] \<and> kafka t3 = kafka ?t2 \<and> \<not> aborted t3 \<and> outage t3 = outage s"
    using assms(1) fetch loop
    by (cases "outbox (db s) = []")
      (auto simp: process_body_def bind_def wrap_def catch_def ret_def MarkPublishedBatch_def stmt_def Let_def
        filter_empty_conv nil)
  then show ?thesis
    using assms(1) by (auto simp: process_def WithTx_def count ExecTx_def Let_def)
qed

text \<open>
  A message whose publication fails is skipped, not waited for: a later message of the same partition
  key overtakes it.
\<close>

definition demo_message :: "uuid \<Rightarrow> millis \<Rightarrow> event \<Rightarrow> Message" where
  "demo_message i t e = \<lparr>mID = i, mAggregateID = ''a'', mAggregateType = ''order_placed'', mTopic = TopicOrders,
     mPartitionKey = ''BTC-USD'', mPayload = e, mStatus = StatusPending, mRetryCount = 0, mCreatedAt = t,
     mPublishedAt = 0\<rparr>"

definition demo_event_of :: "uuid \<Rightarrow> event" where
  "demo_event_of oid = EvOrderCancelRequested \<lparr>crEventType = EventOrderCancelRequested, crSymbol = ''BTC-USD'',
     crOrderID = oid, crSide = SideBuy, crUserID = 1\<rparr>"

definition demo_outbox :: "(nat \<Rightarrow> bool) \<Rightarrow> session" where
  "demo_outbox down = \<lparr>db = \<lparr>users = [], accounts = [], orders = [], trades = [],
     outbox = [demo_message 1 10 (demo_event_of 1), demo_message 2 20 (demo_event_of 2)], locks = []\<rparr>,
     kafka = [], calls = 0, in_tx = False, aborted = False, outage = down, lost_ack = (\<lambda>_. False),
     clock = (\<lambda>_. 10000), fresh = (\<lambda>n. of_nat n)\<rparr>"

lemma outbox_overtakes:
  "let s = process (NewWorker 10000 100) (demo_outbox (\<lambda>n. n = 4)) in
     kafka s = [record_of (demo_message 2 20 (demo_event_of 2))] \<and> map mID (outbox (db s)) = [1]"
  by code_simp

theorem worker_drains_witness:
  "outbox (db (process (NewWorker 10000 100) (demo_outbox (\<lambda>_. False)))) = [] \<and>
   length (kafka (process (NewWorker 10000 100) (demo_outbox (\<lambda>_. False)))) = 2"
  using worker_drains [of "demo_outbox (\<lambda>_. False)" "NewWorker 10000 100"]
  by (simp add: demo_outbox_def demo_message_def NewWorker_def)

theorem outbox_never_loses_witness:
  "\<exists>s. pipeline [demo_message 1 10 (demo_event_of 1), demo_message 2 20 (demo_event_of 2)]
      [demo_message 1 10 (demo_event_of 1), demo_message 2 20 (demo_event_of 2)]
      \<lparr>publishedMsgChan = [], batch = []\<rparr> s \<and>
     (queued (db s) (demo_message 1 10 (demo_event_of 1)) \<or> sent s (demo_message 1 10 (demo_event_of 1)))"
proof -
  let ?ms = "[demo_message 1 10 (demo_event_of 1), demo_message 2 20 (demo_event_of 2)]"
  let ?s = "demo_outbox (\<lambda>_. False)"
  have "pipeline [] [] \<lparr>publishedMsgChan = [], batch = []\<rparr> (?s\<lparr>db := (db ?s)\<lparr>outbox := []\<rparr>\<rparr>)"
    by (rule pipeline.start) simp
  then have "pipeline ([] @ ?ms) ([] @ ?ms) \<lparr>publishedMsgChan = [], batch = []\<rparr> ?s"
    by (rule pipeline.commit [where msgs = ?ms and started = ?ms]) (simp_all add: demo_outbox_def demo_message_def)
  then have p: "pipeline ?ms ?ms \<lparr>publishedMsgChan = [], batch = []\<rparr> ?s" by simp
  from outbox_never_loses [OF p, of "demo_message 1 10 (demo_event_of 1)"] p show ?thesis by auto
qed

end
