(* ===== verification/OrderService.thy ===== *)
theory OrderService
  imports Settlement Outbox Engine
begin

text \<open>
  The order service: src/internal/order/service.go and account_service.go. \<open>rnd\<close> stands for
  \<open>decimal.Round(8)\<close>, \<open>ustr\<close> for \<open>uuid.String()\<close>. What a call hands to goroutines after its commit,
  the messages for the hot path, is part of its value; \<open>Outbox\<close> models what the goroutines do.
  Symbols are ASCII.
\<close>

section \<open>The service\<close>

text \<open>
  Which optional collaborators are configured. \<open>cacheRepo\<close> is Redis: what it answers at a position of
  the session is arbitrary.
\<close>

record Service =
  cacheRepo :: "(nat \<Rightarrow> string \<Rightarrow> error + OrderBookSnapshot option) option"
  eventBus :: bool
  rawPublisher :: bool
  outboxRepo :: bool

text \<open>The batch deletion starts with its empty channel when there is an outbox.\<close>

definition order_NewService ::
  "(nat \<Rightarrow> string \<Rightarrow> error + OrderBookSnapshot option) option \<Rightarrow> bool \<Rightarrow> bool \<Rightarrow> bool \<Rightarrow> Service \<times> Batcher option" where
  "order_NewService cache bus raw outb =
     (\<lparr>cacheRepo = cache, eventBus = bus, rawPublisher = raw, outboxRepo = outb\<rparr>,
      if outb then Some \<lparr>publishedMsgChan = [], batch = []\<rparr> else None)"

definition upper_char :: "char \<Rightarrow> char" where
  "upper_char c = (if (97 :: nat) \<le> of_char c \<and> of_char c \<le> (122 :: nat) then char_of (of_char c - 32 :: nat) else c)"

definition ToUpper :: "string \<Rightarrow> string" where
  "ToUpper = map upper_char"

section \<open>Estimating a market buy\<close>

fun estimate_asks :: "OrderBookLevel list \<Rightarrow> decimal \<Rightarrow> decimal \<Rightarrow> estimate_error + decimal" where
  "estimate_asks [] remainingQty totalCost = Inl (InsufficientLiquidity remainingQty)"
| "estimate_asks (ask # rest) remainingQty totalCost =
     (let matchQty = (if lvlQuantity ask < remainingQty then lvlQuantity ask else remainingQty);
          totalCost' = totalCost + lvlPrice ask * matchQty;
          remainingQty' = remainingQty - matchQty
      in if remainingQty' = 0 then Inr totalCost' else estimate_asks rest remainingQty' totalCost')"

definition estimateFromSnapshotAsks :: "OrderBookLevel list \<Rightarrow> decimal \<Rightarrow> estimate_error + decimal" where
  "estimateFromSnapshotAsks levels quantity = estimate_asks levels quantity 0"

definition estimateMarketBuyFunds :: "Service \<Rightarrow> string \<Rightarrow> decimal \<Rightarrow> decimal dbm" where
  "estimateMarketBuyFunds svc symbol quantity s =
     (case cacheRepo svc of
        None \<Rightarrow> (Inl (ErrMsg ''cacheRepo not initialised''), s)
      | Some get \<Rightarrow>
          (let s1 = s\<lparr>calls := Suc (calls s)\<rparr>;
               miss = (Inl (ErrMsg ''order book cache missed''), s1)
           in case get (calls s) symbol of
                Inl e \<Rightarrow> miss
              | Inr None \<Rightarrow> miss
              | Inr (Some snapshot) \<Rightarrow>
                  (if snAsks snapshot = [] then miss
                   else case estimateFromSnapshotAsks (snAsks snapshot) quantity of
                          Inl e \<Rightarrow> (Inl (ErrMsg ''insufficient liquidity''), s1)
                        | Inr x \<Rightarrow> (Inr x, s1))))"

definition calculateLockAmount :: "Service \<Rightarrow> Order \<Rightarrow> (string \<times> decimal) dbm" where
  "calculateLockAmount svc order =
     (case splitSymbol (dSymbol order) of
        Inl e \<Rightarrow> fail e
      | Inr (base, quote) \<Rightarrow>
          if dSide order = SideBuy then
            (if dType order = TypeLimit then ret (quote, dPrice order * dQuantity order)
             else bind (wrap ''estimate market buy'' (estimateMarketBuyFunds svc (dSymbol order) (dQuantity order)))
                    (\<lambda>estimatedFunds. ret (quote, estimatedFunds * (105 / 100))))
          else ret (base, dQuantity order))"

section \<open>PlaceOrder\<close>

definition placed_event :: "Order \<Rightarrow> string \<Rightarrow> decimal \<Rightarrow> event" where
  "placed_event order currency amount = EvOrderPlaced
     \<lparr>opEventType = EventOrderPlaced, opSymbol = dSymbol order, opOrderID = dID order,
      opUserID = dUserID order, opSide = dSide order, opType = dType order, opPrice = dPrice order,
      opQuantity = dQuantity order, opCreatedAt = dCreatedAt order, opAmountLocked = amount,
      opLockedCurrency = currency\<rparr>"

definition order_message :: "(uuid \<Rightarrow> string) \<Rightarrow> string \<Rightarrow> Order \<Rightarrow> event \<Rightarrow> Message" where
  "order_message ustr aggregateType order payload =
     \<lparr>mID = 0, mAggregateID = ustr (dID order), mAggregateType = aggregateType, mTopic = TopicOrders,
      mPartitionKey = dSymbol order, mPayload = payload, mStatus = StatusPending, mRetryCount = 0,
      mCreatedAt = 0, mPublishedAt = 0\<rparr>"

definition normalise :: "(decimal \<Rightarrow> decimal) \<Rightarrow> Order \<Rightarrow> Order" where
  "normalise rnd order =
     order\<lparr>dSymbol := ToUpper (dSymbol order), dPrice := rnd (dPrice order), dQuantity := rnd (dQuantity order)\<rparr>"

definition fresh_order :: "uuid \<Rightarrow> millis \<Rightarrow> Order \<Rightarrow> Order" where
  "fresh_order i t order =
     order\<lparr>dID := i, dStatus := StatusNew, dFilledQuantity := 0, dCreatedAt := t, dUpdatedAt := t\<rparr>"

definition place_body :: "(uuid \<Rightarrow> string) \<Rightarrow> Service \<Rightarrow> Order \<Rightarrow> string \<Rightarrow> decimal \<Rightarrow> Message list dbm" where
  "place_body ustr svc order currencyToLock amountToLock =
     bind (wrap ''insufficient balance'' (LockFunds (dUserID order) currencyToLock amountToLock)) (\<lambda>_.
     bind (wrap ''create order'' (CreateOrder order)) (\<lambda>_.
     if \<not> IsSymbolAllowed (dSymbol order) then fail (ErrMsg ''symbol not allowed'')
     else if outboxRepo svc \<and> eventBus svc then
       bind (wrap ''insert outbox''
               (Insert (order_message ustr ''order_placed'' order (placed_event order currencyToLock amountToLock))))
         (\<lambda>outboxMsg. ret [outboxMsg])
     else ret []))"

text \<open>The value: the order as the caller now sees it and the messages committed with it.\<close>

definition PlaceOrder ::
  "(uuid \<Rightarrow> string) \<Rightarrow> (decimal \<Rightarrow> decimal) \<Rightarrow> Service \<Rightarrow> Order \<Rightarrow> (Order \<times> Message list) dbm" where
  "PlaceOrder ustr rnd svc order0 =
     (let order = normalise rnd order0 in
      if dQuantity order \<le> 0 then fail (ErrMsg ''invalid quantity'')
      else if dType order = TypeLimit \<and> dPrice order \<le> 0 then fail (ErrMsg ''invalid limit price'')
      else bind (wrap ''cannot lock funds'' (calculateLockAmount svc order)) (\<lambda>(currencyToLock, amountToLock).
           bind NewV7 (\<lambda>newID.
           bind now (\<lambda>t.
           let order' = fresh_order newID t order in
           bind (ExecTx (place_body ustr svc order' currencyToLock amountToLock)) (\<lambda>msgs.
           ret (order', msgs))))))"

text \<open>The goroutines started after the commit.\<close>

definition hot_messages :: "Service \<Rightarrow> Message list \<Rightarrow> Message list" where
  "hot_messages svc msgs = (if rawPublisher svc then msgs else [])"

section \<open>BatchPlaceOrders\<close>

definition lf_add :: "locked_funds \<Rightarrow> uuid \<Rightarrow> string \<Rightarrow> decimal \<Rightarrow> locked_funds" where
  "lf_add lockedFunds u currency amount =
     alist_upd u (alist_upd currency (\<lambda>x. x + amount) 0) [] lockedFunds"

type_synonym batch_acc = "Order list \<times> locked_funds \<times> Message list"

definition prepare_order ::
  "(uuid \<Rightarrow> string) \<Rightarrow> (decimal \<Rightarrow> decimal) \<Rightarrow> Service \<Rightarrow> millis \<Rightarrow> Order \<Rightarrow> batch_acc \<Rightarrow> batch_acc dbm" where
  "prepare_order ustr rnd svc t order0 = (\<lambda>(os, lockedFunds, outboxMsgs).
     let order = normalise rnd order0 in
     if dQuantity order \<le> 0 \<or> (dType order = TypeLimit \<and> dPrice order \<le> 0)
     then fail (ErrMsg ''invalid order parameters'')
     else bind (wrap ''calculate amount'' (calculateLockAmount svc order)) (\<lambda>(currency, amount).
          bind NewV7 (\<lambda>newID.
          let order' = fresh_order newID t order in
          ret (os @ [order'], lf_add lockedFunds (dUserID order') currency amount,
               if outboxRepo svc \<and> eventBus svc
               then outboxMsgs @ [order_message ustr ''order_placed'' order' (placed_event order' currency amount)]
               else outboxMsgs))))"

fun prepare_orders ::
  "(uuid \<Rightarrow> string) \<Rightarrow> (decimal \<Rightarrow> decimal) \<Rightarrow> Service \<Rightarrow> millis \<Rightarrow> Order list \<Rightarrow> batch_acc \<Rightarrow> batch_acc dbm" where
  "prepare_orders ustr rnd svc t [] acc = ret acc"
| "prepare_orders ustr rnd svc t (x # xs) acc =
     bind (prepare_order ustr rnd svc t x acc) (prepare_orders ustr rnd svc t xs)"

definition batch_body ::
  "(uuid \<Rightarrow> string) \<Rightarrow> Order list \<Rightarrow> locked_funds \<Rightarrow> Message list \<Rightarrow> Message list dbm" where
  "batch_body ustr os lockedFunds outboxMsgs =
     bind (wrap ''batch lock funds'' (BatchLockFunds ustr lockedFunds)) (\<lambda>_.
     bind (wrap ''batch create orders'' (BatchCreateOrders os)) (\<lambda>_.
     if outboxMsgs \<noteq> [] then wrap ''batch insert outbox'' (BatchInsert outboxMsgs) else ret []))"

definition BatchPlaceOrders ::
  "(uuid \<Rightarrow> string) \<Rightarrow> (decimal \<Rightarrow> decimal) \<Rightarrow> Service \<Rightarrow> Order list \<Rightarrow> (Order list \<times> Message list) dbm" where
  "BatchPlaceOrders ustr rnd svc xs =
     (if xs = [] then ret ([], [])
      else bind now (\<lambda>t.
           bind (prepare_orders ustr rnd svc t xs ([], [], [])) (\<lambda>(os, lockedFunds, outboxMsgs).
           bind (ExecTx (batch_body ustr os lockedFunds outboxMsgs)) (\<lambda>msgs.
           ret (os, msgs)))))"

section \<open>CancelOrder\<close>

definition cancel_body :: "(uuid \<Rightarrow> string) \<Rightarrow> Service \<Rightarrow> uuid \<Rightarrow> Message list dbm" where
  "cancel_body ustr svc orderID =
     bind (wrap ''lock order'' (GetOrderForUpdate orderID)) (\<lambda>order.
     if dStatus order = StatusFilled \<or> dStatus order = StatusCanceled
     then fail (ErrMsg ''already matched or canceled'')
     else if outboxRepo svc then
       bind (wrap ''insert outbox''
               (Insert (order_message ustr ''order_cancel_requested'' order
                 (EvOrderCancelRequested \<lparr>crEventType = EventOrderCancelRequested, crSymbol = dSymbol order,
                    crOrderID = orderID, crSide = dSide order, crUserID = dUserID order\<rparr>))))
         (\<lambda>msg. ret [msg])
     else ret [])"

definition CancelOrder :: "(uuid \<Rightarrow> string) \<Rightarrow> Service \<Rightarrow> uuid \<Rightarrow> uuid \<Rightarrow> Message list dbm" where
  "CancelOrder ustr svc orderID userID =
     bind (wrap ''order not found'' (GetOrder orderID)) (\<lambda>orderPreCheck.
     if dUserID orderPreCheck \<noteq> userID then fail (ErrMsg ''permission denied'')
     else if dStatus orderPreCheck = StatusFilled \<or> dStatus orderPreCheck = StatusCanceled
     then fail (ErrMsg ''cannot cancel a completed order'')
     else ExecTx (cancel_body ustr svc orderID))"

section \<open>account_service.go\<close>

definition test_currencies :: "(string \<times> decimal) list" where
  "test_currencies = [(''USD'', 1000000), (''BTC'', 100), (''ETH'', 1000)]"

definition create_test_account :: "uuid \<Rightarrow> millis \<Rightarrow> string \<times> decimal \<Rightarrow> Account dbm" where
  "create_test_account newUserID t = (\<lambda>(code, amount).
     bind NewV7 (\<lambda>accID.
     let acc = \<lparr>aID = accID, aUserID = newUserID, aCurrency = code, aBalance = amount, aLocked = 0,
                aCreatedAt = t, aUpdatedAt = t\<rparr>
     in bind (wrap ''create account'' (CreateAccount acc)) (\<lambda>_. ret acc)))"

definition RegisterAnonymousUser :: "(uuid \<Rightarrow> string) \<Rightarrow> (User \<times> Account list) dbm" where
  "RegisterAnonymousUser ustr =
     bind NewV7 (\<lambda>newUserID.
     bind now (\<lambda>t.
     let user = \<lparr>uID = newUserID, uEmail = ''anonymous_'' @ ustr newUserID @ ''@test.com'',
                 uPasswordHash = ''N/A'', uCreatedAt = t, uUpdatedAt = t\<rparr>
     in bind (ExecTx (bind (wrap ''create user'' (CreateUser user)) (\<lambda>_.
                      map_each test_currencies (create_test_account newUserID t)))) (\<lambda>accs.
        ret (user, accs))))"

definition GetBalances :: "uuid \<Rightarrow> Account list dbm" where
  "GetBalances userID = GetAccountsByUser userID"

definition RechargeTestUser :: "uuid \<Rightarrow> unit dbm" where
  "RechargeTestUser userID =
     ExecTx (bind (UpdateBalance userID ''BTC'' 10000) (\<lambda>_. UpdateBalance userID ''USD'' 100000000))"

end
