(* ===== verification/OrderService_Correct.thy ===== *)
theory OrderService_Correct
  imports OrderService
begin

text \<open>
  Correctness of the order service: placing and cancelling are all or nothing, the funds an order
  needs are locked and nothing else moves, the event is committed with the order, a batch locks the
  sum of its orders, the estimate agrees with the engine, registration opens the accounts.
\<close>

section \<open>Locking\<close>

text \<open>\<open>g\<close> of an account's key moves from available to locked.\<close>

definition moved :: "(uuid \<times> string \<Rightarrow> decimal) \<Rightarrow> Account \<Rightarrow> Account \<Rightarrow> bool" where
  "moved g a a' \<longleftrightarrow> acc_key a' = acc_key a \<and> aBalance a' = aBalance a - g (acc_key a) \<and>
     aLocked a' = aLocked a + g (acc_key a)"

lemma moved_comp: "moved g a b \<Longrightarrow> moved h b c \<Longrightarrow> moved (\<lambda>k. g k + h k) a c"
  by (auto simp: moved_def)

lemma moved_list_comp:
  "list_all2 (moved g) as bs \<Longrightarrow> list_all2 (moved h) bs cs \<Longrightarrow> list_all2 (moved (\<lambda>k. g k + h k)) as cs"
  by (rule list_all2_trans [OF moved_comp])

lemma lock_stmt_moved:
  assumes "lock_stmt t u c x s = (Inr (), s')" and "accounts_ok (db s)"
  shows "list_all2 (moved (\<lambda>k. if k = (u, c) then x else 0)) (accounts (db s)) (accounts (db s')) \<and>
    accounts_ok (db s') \<and> total cur (db s') = total cur (db s) \<and>
    db s' = (db s)\<lparr>accounts := accounts (db s')\<rparr>"
proof -
  note i = assms(1) [unfolded lock_stmt_Inr]
  from i obtain a0 where a0: "a0 \<in> set (accounts (db s))" "acc_key a0 = (u, c)" "x \<le> aBalance a0" by blast
  have all: "x \<le> aBalance a" if "a \<in> set (accounts (db s))" "acc_key a = (u, c)" for a
  proof -
    have "inj_on acc_key (set (accounts (db s)))"
      using assms(2) by (simp add: accounts_ok_def distinct_map)
    from inj_onD [OF this, of a a0] a0 that have "a = a0" by simp
    with a0 show ?thesis by simp
  qed
  have "accounts (db s') = update_where (\<lambda>a. acc_key a = (u, c) \<and> x \<le> aBalance a)
      (\<lambda>a. a\<lparr>aBalance := aBalance a - x, aLocked := aLocked a + x, aUpdatedAt := t\<rparr>) (accounts (db s))"
    using i by simp
  then have "list_all2 (moved (\<lambda>k. if k = (u, c) then x else 0)) (accounts (db s)) (accounts (db s'))"
    using all by (auto simp: update_where_def list_all2_map2 moved_def intro!: list.rel_refl_strong)
  then show ?thesis
    using lock_stmt_keeps [OF assms(1)] assms(2) i by simp
qed

definition triple_sum :: "(uuid \<times> string \<times> decimal) list \<Rightarrow> uuid \<times> string \<Rightarrow> decimal" where
  "triple_sum ts k = sum_list (map (\<lambda>(u, c, x). if k = (u, c) then x else 0) ts)"

lemma lock_loop_moved:
  assumes "for_each ts (\<lambda>(u, c, x). lock_stmt t u c x) s = (Inr (), s')" and "accounts_ok (db s)"
  shows "list_all2 (moved (triple_sum ts)) (accounts (db s)) (accounts (db s')) \<and>
    accounts_ok (db s') \<and> total cur (db s') = total cur (db s) \<and>
    db s' = (db s)\<lparr>accounts := accounts (db s')\<rparr>"
  using assms
proof (induction ts arbitrary: s)
  case Nil
  then show ?case by (auto simp: moved_def triple_sum_def intro!: list.rel_refl_strong)
next
  case (Cons x3 ts)
  obtain u c x where x3: "x3 = (u, c, x)" by (cases x3)
  from Cons.prems(1) obtain s1 where 1: "lock_stmt t u c x s = (Inr (), s1)"
    and 2: "for_each ts (\<lambda>(u, c, x). lock_stmt t u c x) s1 = (Inr (), s')"
    by (auto simp: bind_Inr_iff x3)
  note l1 = lock_stmt_moved [OF 1 Cons.prems(2), of cur]
  then have l2: "list_all2 (moved (triple_sum ts)) (accounts (db s1)) (accounts (db s')) \<and>
      accounts_ok (db s') \<and> total cur (db s') = total cur (db s1) \<and> db s' = (db s1)\<lparr>accounts := accounts (db s')\<rparr>"
    using Cons.IH [OF 2] by blast
  have "list_all2 (moved (\<lambda>k. (if k = (u, c) then x else 0) + triple_sum ts k)) (accounts (db s)) (accounts (db s'))"
    by (rule moved_list_comp [of _ _ "accounts (db s1)"]) (use l1 l2 in simp_all)
  moreover have "(\<lambda>k. (if k = (u, c) then x else 0) + triple_sum ts k) = triple_sum (x3 # ts)"
    by (auto simp: triple_sum_def x3)
  moreover have "db s' = (db s)\<lparr>accounts := accounts (db s')\<rparr>"
    using l1 l2 by (metis DB.update_convs(2) DB.surjective)
  ultimately show ?case using l1 l2 by simp
qed

section \<open>The batch's totals\<close>

definition lf_ok :: "locked_funds \<Rightarrow> bool" where
  "lf_ok lf \<longleftrightarrow> distinct (map fst lf) \<and> (\<forall>(u, m) \<in> set lf. distinct (map fst m))"

definition lf_get :: "locked_funds \<Rightarrow> uuid \<times> string \<Rightarrow> decimal" where
  "lf_get lf = (\<lambda>(u, c). case map_of lf u of None \<Rightarrow> 0
                       | Some m \<Rightarrow> (case map_of m c of None \<Rightarrow> 0 | Some x \<Rightarrow> x))"

lemma lf_get_add: "lf_get (lf_add lf u c x) k = lf_get lf k + (if k = (u, c) then x else 0)"
  by (cases k) (auto simp: lf_get_def lf_add_def map_of_alist_upd split: option.splits)

lemma lf_ok_add: "lf_ok lf \<Longrightarrow> lf_ok (lf_add lf u c x)"
  unfolding lf_add_def
proof (induction u "alist_upd c (\<lambda>y. y + x) 0" "[] :: (string \<times> decimal) list" lf rule: alist_upd.induct)
  case (2 u u' m lf)
  then show ?case
    using alist_upd_keys [of u "alist_upd c (\<lambda>y. y + x) 0" "[]" lf]
    by (auto simp: lf_ok_def alist_upd_distinct)
qed (simp add: lf_ok_def)

lemma sum_list_concat_map:
  fixes f :: "'a \<Rightarrow> decimal"
  shows "sum_list (map f (concat xss)) = sum_list (map (\<lambda>xs. sum_list (map f xs)) xss)"
  by (induction xss) auto

lemma sum_list_single:
  fixes x :: decimal
  assumes "distinct xs"
  shows "sum_list (map (\<lambda>y. if y = k then g y else 0) xs) = (if k \<in> set xs then g k else (0 :: decimal))"
  using assms by (induction xs) (auto simp: sum_list_0)

lemma lock_order_sum:
  assumes "lf_ok lf"
  shows "triple_sum (lock_order ustr lf) k = lf_get lf k"
proof -
  obtain u c where k: "k = (u, c)" by (cases k)
  let ?us = "exchange_sort ustr (map fst lf)"
  let ?val = "\<lambda>m cur. case map_of m cur of None \<Rightarrow> 0 | Some x \<Rightarrow> x"
  let ?in = "\<lambda>m. sum_list (map (\<lambda>cur. if cur = c then ?val m cur else 0) (exchange_sort (\<lambda>c. c) (map fst m)))"
  have inner: "?in m = ?val m c" if "distinct (map fst m)" for m :: "(string \<times> decimal) list"
  proof (cases "map_of m c")
    case None
    then have "c \<notin> set (map fst m)" by (simp add: map_of_eq_None_iff)
    with that None show ?thesis by (subst sum_list_single) (auto simp: exchange_sort_distinct)
  next
    case (Some x)
    then have "c \<in> set (map fst m)" by (force dest: map_of_SomeD)
    with that Some show ?thesis by (subst sum_list_single) (auto simp: exchange_sort_distinct)
  qed
  let ?f = "\<lambda>(u', c', x). if k = (u', c') then x else (0 :: decimal)"
  have per: "sum_list (map ?f (case map_of lf uid of None \<Rightarrow> []
      | Some currencies \<Rightarrow> map (\<lambda>cur. (uid, cur, ?val currencies cur)) (exchange_sort (\<lambda>c. c) (map fst currencies)))) =
      (if uid = u then (case map_of lf u of None \<Rightarrow> 0 | Some m \<Rightarrow> ?in m) else 0)" for uid
    by (cases "map_of lf uid"; cases "uid = u")
      (auto simp: k comp_def sum_list_0 intro!: arg_cong [where f = sum_list])
  have "triple_sum (lock_order ustr lf) k =
      sum_list (map (\<lambda>uid. if uid = u then (case map_of lf u of None \<Rightarrow> 0 | Some m \<Rightarrow> ?in m) else 0) ?us)"
    unfolding triple_sum_def lock_order_def sum_list_concat_map map_map
    by (simp only: comp_def per)
  also have "\<dots> = (if u \<in> set ?us then (case map_of lf u of None \<Rightarrow> 0 | Some m \<Rightarrow> ?in m) else 0)"
    using assms by (subst sum_list_single) (auto simp: lf_ok_def exchange_sort_distinct)
  also have "\<dots> = lf_get lf k"
  proof (cases "map_of lf u")
    case None
    then have "u \<notin> set (map fst lf)" by (simp add: map_of_eq_None_iff)
    with None show ?thesis by (simp add: lf_get_def k)
  next
    case (Some m)
    then have "u \<in> set (map fst lf)" and "distinct (map fst m)"
      using assms by (force simp: lf_ok_def dest: map_of_SomeD)+
    with Some inner [of m] show ?thesis by (simp add: lf_get_def k)
  qed
  finally show ?thesis .
qed

text \<open>The amount an order locks.\<close>

definition lock_spec :: "Order \<Rightarrow> string \<times> decimal \<Rightarrow> bool" where
  "lock_spec order cx \<longleftrightarrow> (\<exists>base quote. splitSymbol (dSymbol order) = Inr (base, quote) \<and>
     (if dSide order = SideBuy
      then fst cx = quote \<and> (dType order = TypeLimit \<longrightarrow> snd cx = dPrice order * dQuantity order)
      else fst cx = base \<and> snd cx = dQuantity order))"

lemma lock_spec_fresh: "lock_spec (fresh_order i t order) cx = lock_spec order cx"
  by (simp add: lock_spec_def fresh_order_def)

lemma estimate_same_db: "estimateMarketBuyFunds svc sy q s = (r, s') \<Longrightarrow> db s' = db s"
  by (auto simp: estimateMarketBuyFunds_def Let_def split: option.splits sum.splits if_splits)

lemma frame_estimate [frames]: "frame p (estimateMarketBuyFunds svc sy q)"
  by (rule frameI) (simp add: estimate_same_db)

lemma frame_case_fail [frames]:
  "(\<And>x. frame p (g x)) \<Longrightarrow> frame p (case r of Inl e \<Rightarrow> fail e | Inr x \<Rightarrow> g x)"
  by (auto split: sum.splits intro: frames)

lemma frame_case_prod [frames]: "(\<And>a b. frame p (g a b)) \<Longrightarrow> frame p (case x of (a, b) \<Rightarrow> g a b)"
  by (cases x) simp

lemma frame_calculateLockAmount [frames]: "frame p (calculateLockAmount svc order)"
  unfolding calculateLockAmount_def by (intro frames)

lemma calculateLockAmount_spec:
  assumes "calculateLockAmount svc order s = (Inr cx, s')"
  shows "lock_spec order cx"
proof -
  from assms obtain b q where bq: "splitSymbol (dSymbol order) = Inr (b, q)" and
    "(if dSide order = SideBuy then
        (if dType order = TypeLimit then ret (q, dPrice order * dQuantity order)
         else bind (wrap ''estimate market buy'' (estimateMarketBuyFunds svc (dSymbol order) (dQuantity order)))
                (\<lambda>estimatedFunds. ret (q, estimatedFunds * (105 / 100))))
      else ret (b, dQuantity order)) s = (Inr cx, s')"
    by (auto simp: calculateLockAmount_def)
  then show ?thesis
    unfolding lock_spec_def by (intro exI [of _ b] exI [of _ q]) (auto simp: bind_Inr_iff split: if_splits)
qed

section \<open>PlaceOrder\<close>

lemma LockFunds_moved:
  assumes "LockFunds u c x s = (Inr (), s')" and "accounts_ok (db s)"
  shows "list_all2 (moved (\<lambda>k. if k = (u, c) then x else 0)) (accounts (db s)) (accounts (db s')) \<and>
    accounts_ok (db s') \<and> total cur (db s') = total cur (db s) \<and>
    db s' = (db s)\<lparr>accounts := accounts (db s')\<rparr>"
proof -
  from assms(1) have "lock_stmt (clock s (calls s)) u c x (s\<lparr>calls := Suc (calls s)\<rparr>) = (Inr (), s')"
    by (simp add: LockFunds_def bind_Inr_iff)
  from lock_stmt_moved [OF this, of cur] assms(2) show ?thesis by simp
qed

lemma accounts_ok_accounts: "accounts d = accounts d' \<Longrightarrow> accounts_ok d = accounts_ok d'"
  by (simp add: accounts_ok_def)

lemma db_accounts:
  "d' = d\<lparr>accounts := as\<rparr> \<Longrightarrow> orders d' = orders d \<and> trades d' = trades d \<and> outbox d' = outbox d \<and>
     users d' = users d \<and> locks d' = locks d"
  by simp

lemma CreateOrder_Inr:
  "CreateOrder x s = (Inr (), s') \<Longrightarrow> db s' = (db s)\<lparr>orders := orders (db s) @ [x]\<rparr>"
  by (auto simp: CreateOrder_def stmt_Inr_iff insert_orders_def split: if_splits)

lemma Insert_Inr:
  assumes "Insert msg s = (Inr m, s')"
  obtains i t where "m = msg\<lparr>mID := i, mCreatedAt := t, mStatus := StatusPending\<rparr>"
    and "db s' = (db s)\<lparr>outbox := outbox (db s) @ [m]\<rparr>"
  using assms by (auto simp: Insert_def bind_Inr_iff stmt_Inr_iff insert_messages_def Let_def split: if_splits)

text \<open>The message an order's event is committed in.\<close>

definition placed_message :: "Order \<Rightarrow> string \<Rightarrow> decimal \<Rightarrow> Message \<Rightarrow> bool" where
  "placed_message order c x m \<longleftrightarrow> mTopic m = TopicOrders \<and> mPartitionKey m = dSymbol order \<and>
     mPayload m = placed_event order c x \<and> mStatus m = StatusPending"

definition placed_ok :: "Service \<Rightarrow> Order \<Rightarrow> Message list \<Rightarrow> DB \<Rightarrow> DB \<Rightarrow> bool" where
  "placed_ok svc order msgs d d' \<longleftrightarrow>
     orders d' = orders d @ [order] \<and> trades d' = trades d \<and> accounts_ok d' \<and>
     (\<exists>c x. lock_spec order (c, x) \<and>
        list_all2 (moved (\<lambda>k. if k = (dUserID order, c) then x else 0)) (accounts d) (accounts d') \<and>
        outbox d' = outbox d @ msgs \<and>
        (if outboxRepo svc \<and> eventBus svc then \<exists>m. msgs = [m] \<and> placed_message order c x m else msgs = []))"

lemma place_body_ok:
  assumes "place_body ustr svc order c x s = (Inr msgs, s')" and "accounts_ok (db s)" and "lock_spec order (c, x)"
  shows "placed_ok svc order msgs (db s) (db s') \<and> IsSymbolAllowed (dSymbol order)"
proof -
  from assms(1) obtain s1 s2 where 1: "LockFunds (dUserID order) c x s = (Inr (), s1)"
    and 2: "CreateOrder order s1 = (Inr (), s2)" and allowed: "IsSymbolAllowed (dSymbol order)"
    and 3: "(if outboxRepo svc \<and> eventBus svc then
       bind (wrap ''insert outbox''
               (Insert (order_message ustr ''order_placed'' order (placed_event order c x))))
         (\<lambda>outboxMsg. ret [outboxMsg])
     else ret []) s2 = (Inr msgs, s')"
    by (auto simp: place_body_def bind_Inr_iff split: if_splits)
  note l = LockFunds_moved [OF 1 assms(2)] and c = CreateOrder_Inr [OF 2]
  from l have "db s1 = (db s)\<lparr>accounts := accounts (db s1)\<rparr>" by blast
  note o1 = db_accounts [OF this]
  have "outbox (db s') = outbox (db s2) @ msgs \<and> accounts (db s') = accounts (db s2) \<and>
      orders (db s') = orders (db s2) \<and> trades (db s') = trades (db s2) \<and>
      (if outboxRepo svc \<and> eventBus svc then \<exists>m. msgs = [m] \<and> placed_message order c x m else msgs = [])"
  proof (cases "outboxRepo svc \<and> eventBus svc")
    case True
    with 3 obtain m where m: "msgs = [m]"
      "Insert (order_message ustr ''order_placed'' order (placed_event order c x)) s2 = (Inr m, s')"
      by (auto simp: bind_Inr_iff)
    from m(2) obtain i t where
      "m = (order_message ustr ''order_placed'' order (placed_event order c x))
         \<lparr>mID := i, mCreatedAt := t, mStatus := StatusPending\<rparr>"
      "db s' = (db s2)\<lparr>outbox := outbox (db s2) @ [m]\<rparr>" by (rule Insert_Inr)
    with m(1) True show ?thesis by (auto simp: placed_message_def order_message_def)
  next
    case False
    with 3 have "msgs = [] \<and> s' = s2" by (simp split: if_splits)
    with False show ?thesis by auto
  qed
  then have d: "accounts (db s') = accounts (db s1)" "orders (db s') = orders (db s) @ [order]"
    "trades (db s') = trades (db s)" "outbox (db s') = outbox (db s) @ msgs"
    and m: "if outboxRepo svc \<and> eventBus svc then \<exists>m. msgs = [m] \<and> placed_message order c x m else msgs = []"
    using o1 c by simp_all
  then show ?thesis
    unfolding placed_ok_def using conjunct1 [OF l] l assms(3) allowed accounts_ok_accounts [OF d(1)]
    by (intro conjI exI [of _ c] exI [of _ x]) simp_all
qed

lemma ExecTx_db:
  assumes "ExecTx fn s = (r, s')"
  shows "(\<exists>e. r = Inl e \<and> db s' = db s) \<or> (\<exists>x t t'. r = Inr x \<and> db t = db s \<and> fn t = (Inr x, t') \<and> db s' = db t')"
proof (cases r)
  case (Inl e)
  with assms tx.atomic show ?thesis by blast
next
  case (Inr x)
  from tx.committed [OF assms [unfolded Inr]] obtain t t' where
    "db t = db s" "fn t = (Inr x, t')" "db s' = db t'" by metis
  with Inr show ?thesis by auto
qed

lemma PlaceOrder_cases:
  assumes "PlaceOrder ustr rnd svc order0 s = (r, s')"
  obtains (failed) e where "r = Inl e" "db s' = db s"
  | (placed) i tm c x msgs t t' where "r = Inr (fresh_order i tm (normalise rnd order0), msgs)" "db t = db s"
      "place_body ustr svc (fresh_order i tm (normalise rnd order0)) c x t = (Inr msgs, t')" "db s' = db t'"
      "lock_spec (fresh_order i tm (normalise rnd order0)) (c, x)" "0 < dQuantity (normalise rnd order0)"
      "dType order0 = TypeLimit \<longrightarrow> 0 < dPrice (normalise rnd order0)"
proof -
  let ?o = "normalise rnd order0"
  show ?thesis
  proof (cases "dQuantity ?o \<le> 0 \<or> (dType ?o = TypeLimit \<and> dPrice ?o \<le> 0)")
    case True
    with assms failed show ?thesis by (auto simp: PlaceOrder_def Let_def fail_def split: if_splits)
  next
    case False
    then have c1: "\<not> dQuantity ?o \<le> 0" and c2: "\<not> (dType ?o = TypeLimit \<and> dPrice ?o \<le> 0)" by auto
    obtain q s1 where q: "wrap ''cannot lock funds'' (calculateLockAmount svc ?o) s = (q, s1)"
      by (cases "wrap ''cannot lock funds'' (calculateLockAmount svc ?o) s")
    have "frame id (wrap ''cannot lock funds'' (calculateLockAmount svc ?o))" by (intro frames)
    from frameD [OF this q] have db1: "db s1 = db s" by simp
    show ?thesis
    proof (cases q)
      case (Inl e)
      with q False assms db1 failed show ?thesis by (auto simp: PlaceOrder_def Let_def bind_def)
    next
      case (Inr cx)
      obtain c x where cx: "cx = (c, x)" by (cases cx)
      let ?n = "fresh_order (fresh s1 (calls s1)) (clock s1 (Suc (calls s1))) ?o"
      let ?s2 = "s1\<lparr>calls := Suc (Suc (calls s1))\<rparr>"
      have w: "wrap ''cannot lock funds'' (calculateLockAmount svc ?o) s = (Inr (c, x), s1)"
        using q Inr cx by (simp only:)
      have run: "PlaceOrder ustr rnd svc order0 s =
          bind (ExecTx (place_body ustr svc ?n c x)) (\<lambda>msgs. ret (?n, msgs)) ?s2"
        unfolding PlaceOrder_def Let_def if_not_P [OF c1] if_not_P [OF c2]
          bind_step [where m = "wrap ''cannot lock funds'' (calculateLockAmount svc ?o)" and s = s, OF w]
        by (simp add: bind_now bind_NewV7)
      have spec: "lock_spec ?n (c, x)"
        using calculateLockAmount_spec [of svc ?o s "(c, x)" s1] q Inr cx
        by (simp add: lock_spec_fresh)
      obtain r' s3 where e: "ExecTx (place_body ustr svc ?n c x) ?s2 = (r', s3)"
        by (cases "ExecTx (place_body ustr svc ?n c x) ?s2")
      from ExecTx_db [OF e] show ?thesis
      proof (elim disjE exE conjE)
        fix err assume "r' = Inl err" "db s3 = db ?s2"
        with run e assms db1 failed show ?thesis by (auto simp: bind_def)
      next
        fix msgs t t' assume h: "r' = Inr msgs" "db t = db ?s2" "place_body ustr svc ?n c x t = (Inr msgs, t')"
          "db s3 = db t'"
        moreover from run e h(1) assms have "r = Inr (?n, msgs) \<and> s' = s3" by (simp add: bind_def ret_def)
        ultimately show ?thesis using placed spec c1 c2 db1 by (auto simp: normalise_def)
      qed
    qed
  qed
qed

lemma PlaceOrder_ok:
  assumes "PlaceOrder ustr rnd svc order0 s = (r, s')" and "accounts_ok (db s)"
  shows "case r of Inl e \<Rightarrow> db s' = db s
    | Inr (order, msgs) \<Rightarrow> IsSymbolAllowed (dSymbol order) \<and> 0 < dQuantity order \<and>
        (dType order = TypeLimit \<longrightarrow> 0 < dPrice order) \<and> dStatus order = StatusNew \<and>
        dFilledQuantity order = 0 \<and> dUserID order = dUserID order0 \<and>
        placed_ok svc order msgs (db s) (db s')"
  using assms(1)
proof (cases rule: PlaceOrder_cases)
  case (placed i tm c x msgs t t')
  with place_body_ok [OF placed(3) _ placed(5)] assms(2) show ?thesis
    by (simp add: fresh_order_def normalise_def)
qed simp


section \<open>CancelOrder\<close>

definition cancel_request :: "Order \<Rightarrow> event" where
  "cancel_request x = EvOrderCancelRequested \<lparr>crEventType = EventOrderCancelRequested, crSymbol = dSymbol x,
     crOrderID = dID x, crSide = dSide x, crUserID = dUserID x\<rparr>"

lemma select_order_Inr: "select_order oid d = Inr (x, d') \<longleftrightarrow> find (\<lambda>x. dID x = oid) (orders d) = Some x \<and> d' = d"
  by (auto simp: select_order_def split: option.splits)

lemma cancel_body_ok:
  assumes "cancel_body ustr svc oid s = (Inr msgs, s')"
  shows "\<exists>x. find (\<lambda>x. dID x = oid) (orders (db s)) = Some x \<and> dStatus x \<noteq> StatusFilled \<and> dStatus x \<noteq> StatusCanceled \<and>
    db s' = (db s)\<lparr>outbox := outbox (db s) @ msgs\<rparr> \<and>
    (if outboxRepo svc then \<exists>m. msgs = [m] \<and> mPayload m = cancel_request x \<and> mTopic m = TopicOrders \<and>
       mPartitionKey m = dSymbol x else msgs = [])"
proof -
  from assms obtain x s1 where g: "wrap ''lock order'' (GetOrderForUpdate oid) s = (Inr x, s1)"
    and b: "(if dStatus x = StatusFilled \<or> dStatus x = StatusCanceled
       then fail (ErrMsg ''already matched or canceled'')
       else if outboxRepo svc then
         bind (wrap ''insert outbox''
               (Insert (order_message ustr ''order_cancel_requested'' x
                 (EvOrderCancelRequested \<lparr>crEventType = EventOrderCancelRequested, crSymbol = dSymbol x,
                    crOrderID = oid, crSide = dSide x, crUserID = dUserID x\<rparr>))))
           (\<lambda>msg. ret [msg])
       else ret []) s1 = (Inr msgs, s')"
    unfolding cancel_body_def by (rule bind_InrE)
  from b have st: "dStatus x \<noteq> StatusFilled" "dStatus x \<noteq> StatusCanceled"
    and r: "(if outboxRepo svc then
       bind (wrap ''insert outbox''
               (Insert (order_message ustr ''order_cancel_requested'' x
                 (EvOrderCancelRequested \<lparr>crEventType = EventOrderCancelRequested, crSymbol = dSymbol x,
                    crOrderID = oid, crSide = dSide x, crUserID = dUserID x\<rparr>))))
         (\<lambda>msg. ret [msg])
     else ret []) s1 = (Inr msgs, s')"
    by (auto split: if_splits)
  from g have "find (\<lambda>x. dID x = oid) (orders (db s)) = Some x" "db s1 = db s"
    by (auto simp: GetOrderForUpdate_def stmt_Inr_iff select_order_Inr)
  note x = this st
  have oid: "dID x = oid" using find_SomeD [OF x(1)] by simp
  show ?thesis
  proof (cases "outboxRepo svc")
    case True
    with r obtain m where m: "msgs = [m]" "Insert (order_message ustr ''order_cancel_requested'' x
        (EvOrderCancelRequested \<lparr>crEventType = EventOrderCancelRequested, crSymbol = dSymbol x,
           crOrderID = oid, crSide = dSide x, crUserID = dUserID x\<rparr>)) s1 = (Inr m, s')"
      by (auto simp: bind_Inr_iff)
    from m(2) obtain i t where "m = (order_message ustr ''order_cancel_requested'' x
        (EvOrderCancelRequested \<lparr>crEventType = EventOrderCancelRequested, crSymbol = dSymbol x,
           crOrderID = oid, crSide = dSide x, crUserID = dUserID x\<rparr>))
         \<lparr>mID := i, mCreatedAt := t, mStatus := StatusPending\<rparr>"
      "db s' = (db s1)\<lparr>outbox := outbox (db s1) @ [m]\<rparr>" by (rule Insert_Inr)
    with True m x oid show ?thesis
      by (intro exI [of _ x]) (simp add: order_message_def cancel_request_def)
  next
    case False
    with r x show ?thesis by (intro exI [of _ x]) simp
  qed
qed

lemma CancelOrder_ok:
  assumes "CancelOrder ustr svc oid userID s = (r, s')"
  shows "case r of Inl e \<Rightarrow> db s' = db s
    | Inr msgs \<Rightarrow> \<exists>x. find (\<lambda>x. dID x = oid) (orders (db s)) = Some x \<and> dUserID x = userID \<and>
        dStatus x \<noteq> StatusFilled \<and> dStatus x \<noteq> StatusCanceled \<and>
        db s' = (db s)\<lparr>outbox := outbox (db s) @ msgs\<rparr> \<and>
        (if outboxRepo svc then \<exists>m. msgs = [m] \<and> mPayload m = cancel_request x \<and> mTopic m = TopicOrders \<and>
           mPartitionKey m = dSymbol x else msgs = [])"
proof (cases r)
  case (Inl e)
  obtain q s1 where q: "wrap ''order not found'' (GetOrder oid) s = (q, s1)"
    by (cases "wrap ''order not found'' (GetOrder oid) s")
  have "frame id (wrap ''order not found'' (GetOrder oid))" by (intro frames)
  from frameD [OF this q] have db1: "db s1 = db s" by simp
  have "db s' = db s1"
    using assms q Inl tx.atomic
    by (auto simp: CancelOrder_def bind_def fail_def split: sum.splits if_splits)
  with Inl db1 show ?thesis by simp
next
  case (Inr msgs)
  from assms [unfolded Inr CancelOrder_def] obtain x s1 where
    g: "wrap ''order not found'' (GetOrder oid) s = (Inr x, s1)"
    and b: "(if dUserID x \<noteq> userID then fail (ErrMsg ''permission denied'')
     else if dStatus x = StatusFilled \<or> dStatus x = StatusCanceled
     then fail (ErrMsg ''cannot cancel a completed order'')
     else ExecTx (cancel_body ustr svc oid)) s1 = (Inr msgs, s')"
    by (rule bind_InrE)
  from g have "find (\<lambda>x. dID x = oid) (orders (db s)) = Some x" "db s1 = db s"
    by (auto simp: GetOrder_def stmt_Inr_iff select_order_Inr)
  moreover from b have "dUserID x = userID" and e: "ExecTx (cancel_body ustr svc oid) s1 = (Inr msgs, s')"
    by (auto split: if_splits)
  ultimately have x: "find (\<lambda>x. dID x = oid) (orders (db s)) = Some x" "db s1 = db s" "dUserID x = userID"
    by blast+
  from tx.committed [OF e] obtain t t' where t: "db t = db s1" "cancel_body ustr svc oid t = (Inr msgs, t')"
    "db s' = db t'" by metis
  from cancel_body_ok [OF t(2)] x t(1,3) Inr show ?thesis by auto
qed


section \<open>The estimate\<close>

lemma estimate_asks_levels: "estimate_asks (map level_of ms) q c = estimate_loop ms q c"
  by (induction ms arbitrary: q c) (simp_all add: level_of_def Let_def)

lemma estimate_asks_append:
  "estimate_asks xs q c = Inr x \<Longrightarrow> estimate_asks (xs @ ys) q c = Inr x"
  by (induction xs arbitrary: q c) (simp_all add: Let_def split: if_splits)

lemma snapshot_levels_take:
  "\<exists>n. snapshot_levels depth i xs = map level_of (take n xs) \<and> (depth \<le> 0 \<longrightarrow> length xs \<le> n)"
proof (induction depth i xs rule: snapshot_levels.induct)
  case (2 depth i x xs)
  show ?case
  proof (cases "depth > 0 \<and> int i \<ge> depth")
    case True
    then show ?thesis by (intro exI [of _ 0]) simp
  next
    case False
    with 2 obtain n where "snapshot_levels depth (Suc i) xs = map level_of (take n xs)"
      "depth \<le> 0 \<longrightarrow> length xs \<le> n" by auto
    with False show ?thesis by (intro exI [of _ "Suc n"]) auto
  qed
qed auto

text \<open>
  C23: the estimate from a cached snapshot agrees with the engine's own. On a full snapshot the two
  results are equal; on a snapshot cut at any depth, what the snapshot estimates is what the engine
  estimates, so a cut can only turn an estimate into a refusal.
\<close>

theorem snapshot_estimate_agrees:
  "estimateFromSnapshotAsks (snAsks (GetOrderBookSnapshot e 0)) q = EstimateMarketBuyRequiredFunds e q \<and>
   (estimateFromSnapshotAsks (snAsks (GetOrderBookSnapshot e depth)) q = Inr x \<longrightarrow>
      EstimateMarketBuyRequiredFunds e q = Inr x)"
proof -
  obtain n where "snapshot_levels 0 0 (asks e) = map level_of (take n (asks e))" "length (asks e) \<le> n"
    using snapshot_levels_take [of 0 0 "asks e"] by auto
  moreover obtain k where "snapshot_levels depth 0 (asks e) = map level_of (take k (asks e))"
    using snapshot_levels_take [of depth 0 "asks e"] by auto
  moreover have "estimate_asks (map level_of (take k (asks e))) q 0 = Inr x \<longrightarrow>
      estimate_asks (map level_of (take k (asks e)) @ map level_of (drop k (asks e))) q 0 = Inr x"
    by (blast intro: estimate_asks_append)
  ultimately show ?thesis
    unfolding estimateFromSnapshotAsks_def EstimateMarketBuyRequiredFunds_def GetOrderBookSnapshot_def
    by (simp add: estimate_asks_levels map_append [symmetric] del: map_append)
qed

section \<open>BatchPlaceOrders\<close>

definition batch_sum :: "Order list \<Rightarrow> (string \<times> decimal) list \<Rightarrow> uuid \<times> string \<Rightarrow> decimal" where
  "batch_sum os cxs k = sum_list (map (\<lambda>(x, (c, a)). if k = (dUserID x, c) then a else 0) (zip os cxs))"

lemma batch_sum_snoc:
  "length os = length cxs \<Longrightarrow> batch_sum (os @ [x]) (cxs @ [cx]) k =
     batch_sum os cxs k + (if k = (dUserID x, fst cx) then snd cx else 0)"
  by (auto simp: batch_sum_def split: prod.splits)

definition order_new :: "Order \<Rightarrow> bool" where
  "order_new x \<longleftrightarrow> dStatus x = StatusNew \<and> dFilledQuantity x = 0 \<and> 0 < dQuantity x \<and>
     (dType x = TypeLimit \<longrightarrow> 0 < dPrice x)"

definition batch_messages :: "Service \<Rightarrow> Order list \<Rightarrow> (string \<times> decimal) list \<Rightarrow> Message list \<Rightarrow> bool" where
  "batch_messages svc os cxs msgs \<longleftrightarrow>
     (if outboxRepo svc \<and> eventBus svc
      then list_all2 (\<lambda>(x, (c, a)) m. placed_message x c a m) (zip os cxs) msgs else msgs = [])"

definition acc_ok :: "Service \<Rightarrow> (string \<times> decimal) list \<Rightarrow> batch_acc \<Rightarrow> bool" where
  "acc_ok svc cxs = (\<lambda>(os, lf, msgs). list_all2 lock_spec os cxs \<and> lf_ok lf \<and> lf_get lf = batch_sum os cxs \<and>
     (\<forall>x \<in> set os. order_new x) \<and> batch_messages svc os cxs msgs)"

lemma prepare_order_ok:
  assumes "prepare_order ustr rnd svc t x (os, lf, msgs) s = (Inr acc, s')" and "acc_ok svc cxs (os, lf, msgs)"
  shows "\<exists>cx. acc_ok svc (cxs @ [cx]) acc \<and> length (fst acc) = Suc (length os)"
proof -
  let ?o = "normalise rnd x"
  from assms(1) obtain c a s1 i where v: "0 < dQuantity ?o" "dType ?o = TypeLimit \<longrightarrow> 0 < dPrice ?o"
    and l: "calculateLockAmount svc ?o s = (Inr (c, a), s1)"
    and acc: "acc = (os @ [fresh_order i t ?o], lf_add lf (dUserID (fresh_order i t ?o)) c a,
      if outboxRepo svc \<and> eventBus svc
      then msgs @ [order_message ustr ''order_placed'' (fresh_order i t ?o) (placed_event (fresh_order i t ?o) c a)]
      else msgs)"
    by (auto simp: prepare_order_def Let_def bind_Inr_iff split: if_splits prod.splits)
  let ?n = "fresh_order i t ?o"
  note A = assms(2) [unfolded acc_ok_def prod.case]
  have len: "length os = length cxs" using A by (auto dest: list_all2_lengthD)
  have spec: "lock_spec ?n (c, a)" using calculateLockAmount_spec [OF l] by (simp add: lock_spec_fresh)
  have pm: "placed_message ?n c a (order_message ustr ''order_placed'' ?n (placed_event ?n c a))"
    by (simp add: placed_message_def order_message_def)
  have "lf_get (lf_add lf (dUserID ?n) c a) = batch_sum (os @ [?n]) (cxs @ [(c, a)])"
    using A batch_sum_snoc [OF len, of ?n "(c, a)"] by (auto simp: lf_get_add)
  moreover have "batch_messages svc (os @ [?n]) (cxs @ [(c, a)]) (snd (snd acc))"
    using A acc len pm by (auto simp: batch_messages_def intro!: list_all2_appendI)
  moreover have "order_new ?n" using v by (simp add: order_new_def fresh_order_def)
  ultimately have "acc_ok svc (cxs @ [(c, a)]) acc"
    using A spec acc lf_ok_add unfolding acc_ok_def by (auto intro!: list_all2_appendI)
  then show ?thesis by (intro exI [of _ "(c, a)"]) (simp add: acc)
qed

lemma prepare_orders_ok:
  assumes "prepare_orders ustr rnd svc t xs acc s = (Inr acc', s')" and "acc_ok svc cxs acc"
  shows "\<exists>cxs'. acc_ok svc cxs' acc' \<and> length (fst acc') = length (fst acc) + length xs"
  using assms
proof (induction xs arbitrary: acc s cxs)
  case (Cons x xs)
  obtain os lf msgs where acc: "acc = (os, lf, msgs)" by (cases acc)
  from Cons.prems(1) obtain acc1 s1 where 1: "prepare_order ustr rnd svc t x acc s = (Inr acc1, s1)"
    and 2: "prepare_orders ustr rnd svc t xs acc1 s1 = (Inr acc', s')" by (auto simp: bind_Inr_iff)
  from prepare_order_ok [OF 1 [unfolded acc] Cons.prems(2) [unfolded acc]] obtain cx where
    "acc_ok svc (cxs @ [cx]) acc1" "length (fst acc1) = Suc (length os)" by blast
  with Cons.IH [OF 2] acc show ?case by fastforce
qed auto

lemma frame_prepare [frames]: "frame p (prepare_orders ustr rnd svc t xs acc)"
proof (induction xs arbitrary: acc)
  case (Cons x xs)
  have "frame p (prepare_order ustr rnd svc t x acc)" for acc
    unfolding prepare_order_def Let_def by (cases acc) (auto intro!: frames)
  from frame_bind [OF this [of acc] Cons] show ?case by simp
qed (simp add: frame_ret)

lemma BatchLockFunds_moved:
  assumes "BatchLockFunds ustr lf s = (Inr (), s')" and "accounts_ok (db s)" and "lf_ok lf"
  shows "list_all2 (moved (lf_get lf)) (accounts (db s)) (accounts (db s')) \<and>
    accounts_ok (db s') \<and> db s' = (db s)\<lparr>accounts := accounts (db s')\<rparr>"
proof -
  from assms(1) have "for_each (lock_order ustr lf) (\<lambda>(u, c, x). lock_stmt (clock s (calls s)) u c x)
      (s\<lparr>calls := Suc (calls s)\<rparr>) = (Inr (), s')"
    by (simp add: BatchLockFunds_def bind_now)
  from lock_loop_moved [OF this, of "''USD''"] assms(2) have
    "list_all2 (moved (triple_sum (lock_order ustr lf))) (accounts (db s)) (accounts (db s')) \<and>
     accounts_ok (db s') \<and> db s' = (db s)\<lparr>accounts := accounts (db s')\<rparr>" by simp
  moreover have "triple_sum (lock_order ustr lf) = lf_get lf"
    using lock_order_sum [OF assms(3)] by auto
  ultimately show ?thesis by simp
qed

lemma BatchCreateOrders_Inr:
  "BatchCreateOrders xs s = (Inr (), s') \<Longrightarrow> db s' = (db s)\<lparr>orders := orders (db s) @ xs\<rparr>"
  by (auto simp: BatchCreateOrders_def stmt_Inr_iff insert_orders_def split: if_splits)

lemma number_messages:
  "map_each msgs (\<lambda>m. bind NewV7 (\<lambda>i. ret (m\<lparr>mID := i, mCreatedAt := t, mStatus := StatusPending\<rparr>))) s = (Inr ms, s') \<Longrightarrow>
   db s' = db s \<and> list_all2 (\<lambda>m m'. \<exists>i. m' = m\<lparr>mID := i, mCreatedAt := t, mStatus := StatusPending\<rparr>) msgs ms"
proof (induction msgs arbitrary: s ms)
  case (Cons m msgs)
  from Cons.prems obtain ms' where "ms = m\<lparr>mID := fresh s (calls s), mCreatedAt := t, mStatus := StatusPending\<rparr> # ms'"
    and "map_each msgs (\<lambda>m. bind NewV7 (\<lambda>i. ret (m\<lparr>mID := i, mCreatedAt := t, mStatus := StatusPending\<rparr>)))
      (s\<lparr>calls := Suc (calls s)\<rparr>) = (Inr ms', s')"
    by (auto simp: bind_Inr_iff)
  with Cons.IH show ?case by fastforce
qed simp

lemma BatchInsert_Inr:
  assumes "BatchInsert msgs s = (Inr ms, s')"
  shows "db s' = (db s)\<lparr>outbox := outbox (db s) @ ms\<rparr> \<and>
    list_all2 (\<lambda>m m'. \<exists>i t. m' = m\<lparr>mID := i, mCreatedAt := t, mStatus := StatusPending\<rparr>) msgs ms"
proof (cases "msgs = []")
  case True
  with assms show ?thesis by (auto simp: BatchInsert_def)
next
  case False
  with assms obtain s1 s2 where
    1: "map_each msgs (\<lambda>m. bind NewV7 (\<lambda>i.
       ret (m\<lparr>mID := i, mCreatedAt := clock s (calls s), mStatus := StatusPending\<rparr>))) s1 = (Inr ms, s2)" "db s1 = db s"
    and 2: "stmt (insert_messages ms) s2 = (Inr (), s')"
    by (auto simp: BatchInsert_def bind_Inr_iff split: if_splits)
  from 2 have "db s' = (db s2)\<lparr>outbox := outbox (db s2) @ ms\<rparr>"
    by (auto simp: stmt_Inr_iff insert_messages_def split: if_splits)
  moreover have "list_all2 (\<lambda>m m'. \<exists>i t. m' = m\<lparr>mID := i, mCreatedAt := t, mStatus := StatusPending\<rparr>) msgs ms"
    using conjunct2 [OF number_messages [OF 1(1)]] by (rule list_all2_mono) blast
  ultimately show ?thesis using number_messages [OF 1(1)] 1(2) by simp
qed

lemma placed_message_numbered:
  "(\<lambda>(x, (c, a)) m. placed_message x c a m) y m \<Longrightarrow>
   \<exists>i t. m' = m\<lparr>mID := i, mCreatedAt := t, mStatus := StatusPending\<rparr> \<Longrightarrow>
   (\<lambda>(x, (c, a)) m. placed_message x c a m) y m'"
  by (auto simp: placed_message_def)

lemma batch_messages_numbered:
  assumes "batch_messages svc os cxs msgs"
    and "list_all2 (\<lambda>m m'. \<exists>i t. m' = m\<lparr>mID := i, mCreatedAt := t, mStatus := StatusPending\<rparr>) msgs ms"
  shows "batch_messages svc os cxs ms"
proof (cases "outboxRepo svc \<and> eventBus svc")
  case True
  with assms(1) have "list_all2 (\<lambda>(x, (c, a)) m. placed_message x c a m) (zip os cxs) msgs"
    by (simp add: batch_messages_def)
  from this assms(2) have "list_all2 (\<lambda>(x, (c, a)) m. placed_message x c a m) (zip os cxs) ms"
    by (rule list_all2_step) (rule placed_message_numbered)
  with True show ?thesis by (simp add: batch_messages_def)
qed (use assms in \<open>auto simp: batch_messages_def split: if_splits\<close>)

text \<open>The currency each prepared order locks is a key of the map, and each message belongs to one of the orders.\<close>

definition has_key :: "locked_funds \<Rightarrow> uuid \<Rightarrow> string \<Rightarrow> bool" where
  "has_key lf u c \<longleftrightarrow> (\<exists>m. map_of lf u = Some m \<and> c \<in> fst ` set m)"

definition keys_ok :: "batch_acc \<Rightarrow> bool" where
  "keys_ok = (\<lambda>(os, lf, msgs). \<forall>x \<in> set os. \<exists>cx. lock_spec x cx \<and> has_key lf (dUserID x) (fst cx))"

lemma has_key_add: "has_key lf u' c' \<or> (u', c') = (u, c) \<Longrightarrow> has_key (lf_add lf u c x) u' c'"
  by (auto simp: has_key_def lf_add_def map_of_alist_upd)

lemma prepare_orders_keys:
  assumes "prepare_orders ustr rnd svc t xs acc s = (Inr acc', s')" and "keys_ok acc"
  shows "keys_ok acc'"
  using assms
proof (induction xs arbitrary: acc s)
  case (Cons x xs)
  obtain os lf msgs where acc: "acc = (os, lf, msgs)" by (cases acc)
  let ?o = "normalise rnd x"
  from Cons.prems(1) obtain acc1 s1 where 1: "prepare_order ustr rnd svc t x acc s = (Inr acc1, s1)"
    and 2: "prepare_orders ustr rnd svc t xs acc1 s1 = (Inr acc', s')" by (auto simp: bind_Inr_iff)
  from 1 obtain c a s1 i ms' where l: "calculateLockAmount svc ?o s = (Inr (c, a), s1)"
    and acc1: "acc1 = (os @ [fresh_order i t ?o], lf_add lf (dUserID (fresh_order i t ?o)) c a, ms')"
    by (auto simp: acc prepare_order_def Let_def bind_Inr_iff split: if_splits prod.splits)
  have "lock_spec (fresh_order i t ?o) (c, a)"
    using calculateLockAmount_spec [OF l] by (simp add: lock_spec_fresh)
  then have "\<exists>cx. lock_spec (fresh_order i t ?o) cx \<and>
      has_key (lf_add lf (dUserID (fresh_order i t ?o)) c a) (dUserID (fresh_order i t ?o)) (fst cx)"
    by (intro exI [of _ "(c, a)"]) (simp add: has_key_add)
  moreover have "\<exists>cx. lock_spec y cx \<and> has_key (lf_add lf u c a) (dUserID y) (fst cx)" if "y \<in> set os" for y u
    using Cons.prems(2) that by (fastforce simp: acc keys_ok_def intro: has_key_add)
  ultimately have "keys_ok acc1" by (auto simp: keys_ok_def acc1)
  with 2 show ?case by (rule Cons.IH)
qed simp

lemma BatchPlaceOrders_cases:
  assumes "BatchPlaceOrders ustr rnd svc xs s = (r, s')"
  obtains (failed) e where "r = Inl e" "db s' = db s"
  | (empty) "xs = []" "r = Inr ([], [])" "s' = s"
  | (placed) os lf ms cxs msgs t t' where "r = Inr (os, msgs)" "db t = db s"
      "batch_body ustr os lf ms t = (Inr msgs, t')" "db s' = db t'" "acc_ok svc cxs (os, lf, ms)"
      "keys_ok (os, lf, ms)" "length os = length xs"
proof (cases "xs = []")
  case True
  with assms empty show ?thesis by (auto simp: BatchPlaceOrders_def)
next
  case False
  let ?s1 = "s\<lparr>calls := Suc (calls s)\<rparr>" and ?t = "clock s (calls s)"
  obtain q s2 where q: "prepare_orders ustr rnd svc ?t xs ([], [], []) ?s1 = (q, s2)"
    by (cases "prepare_orders ustr rnd svc ?t xs ([], [], []) ?s1")
  from frameD [OF frame_prepare [of id] q] have db2: "db s2 = db s" by simp
  show ?thesis
  proof (cases q)
    case (Inl e)
    with q False assms db2 failed show ?thesis by (auto simp: BatchPlaceOrders_def bind_now bind_fail)
  next
    case (Inr acc)
    obtain os lf ms where acc: "acc = (os, lf, ms)" by (cases acc)
    have "acc_ok svc [] ([], [], [])" and "keys_ok ([], [], [])"
      by (auto simp: acc_ok_def lf_ok_def lf_get_def batch_sum_def batch_messages_def keys_ok_def)
    from prepare_orders_ok [OF q [unfolded Inr] this(1)] prepare_orders_keys [OF q [unfolded Inr] this(2)]
    obtain cxs where ok: "acc_ok svc cxs (os, lf, ms)" "length os = length xs" "keys_ok (os, lf, ms)" by (auto simp: acc)
    have run: "BatchPlaceOrders ustr rnd svc xs s = bind (ExecTx (batch_body ustr os lf ms)) (\<lambda>msgs. ret (os, msgs)) s2"
      using False q Inr acc by (simp add: BatchPlaceOrders_def bind_now bind_step)
    obtain r' s3 where e: "ExecTx (batch_body ustr os lf ms) s2 = (r', s3)"
      by (cases "ExecTx (batch_body ustr os lf ms) s2")
    from ExecTx_db [OF e] show ?thesis
    proof (elim disjE exE conjE)
      fix err assume "r' = Inl err" "db s3 = db s2"
      with run e assms db2 failed show ?thesis by (auto simp: bind_def)
    next
      fix msgs t t' assume h: "r' = Inr msgs" "db t = db s2" "batch_body ustr os lf ms t = (Inr msgs, t')" "db s3 = db t'"
      moreover from run e h(1) assms have "r = Inr (os, msgs) \<and> s' = s3" by (simp add: bind_def ret_def)
      ultimately show ?thesis using placed ok db2 by simp
    qed
  qed
qed

lemma BatchPlaceOrders_ok:
  assumes "BatchPlaceOrders ustr rnd svc xs s = (r, s')" and "accounts_ok (db s)"
  shows "case r of Inl e \<Rightarrow> db s' = db s
    | Inr (os, msgs) \<Rightarrow> length os = length xs \<and> (\<forall>x \<in> set os. order_new x) \<and>
        orders (db s') = orders (db s) @ os \<and> outbox (db s') = outbox (db s) @ msgs \<and> accounts_ok (db s') \<and>
        (\<exists>cxs. list_all2 lock_spec os cxs \<and> batch_messages svc os cxs msgs \<and>
           list_all2 (moved (batch_sum os cxs)) (accounts (db s)) (accounts (db s')))"
  using assms(1)
proof (cases rule: BatchPlaceOrders_cases)
  case empty
  then show ?thesis using assms(2)
    by (auto simp: batch_sum_def batch_messages_def moved_def intro!: exI [of _ "[]"] list.rel_refl_strong)
next
  case (placed os lf ms cxs msgs t t')
  from placed(3) obtain t1 t2 where 1: "BatchLockFunds ustr lf t = (Inr (), t1)"
    and 2: "BatchCreateOrders os t1 = (Inr (), t2)"
    and 3: "(if ms \<noteq> [] then wrap ''batch insert outbox'' (BatchInsert ms) else ret []) t2 = (Inr msgs, t')"
    by (auto simp: batch_body_def bind_Inr_iff)
  note o = placed(5) [unfolded acc_ok_def prod.case]
  have l: "list_all2 (moved (lf_get lf)) (accounts (db s)) (accounts (db t1))" "accounts_ok (db t1)"
    and d1: "db t1 = (db s)\<lparr>accounts := accounts (db t1)\<rparr>"
    using BatchLockFunds_moved [OF 1] o placed(2) assms(2) by simp_all
  note d1 = db_accounts [OF d1] and d2 = BatchCreateOrders_Inr [OF 2]
  have m: "db t' = (db t2)\<lparr>outbox := outbox (db t2) @ msgs\<rparr> \<and> batch_messages svc os cxs msgs"
    using 3 o BatchInsert_Inr [of ms t2 msgs t'] batch_messages_numbered [of svc os cxs ms msgs]
    by (auto split: if_splits)
  then show ?thesis
    using placed o l d1 d2 accounts_ok_accounts [of "db t'" "db t1"] by auto
qed simp


section \<open>Registration\<close>

lemma CreateAccount_Inr:
  assumes "CreateAccount a s = (Inr (), s')"
  shows "(accounts_ok (db s) \<longrightarrow> accounts_ok (db s')) \<and> users (db s') = users (db s) \<and>
    has_account (aUserID a) (aCurrency a) (db s') \<and> (\<exists>new. accounts (db s') = accounts (db s) @ new)"
proof -
  from assms have "(find (\<lambda>b. acc_key b = acc_key a) (accounts (db s)) \<noteq> None \<and> db s' = db s) \<or>
     (find (\<lambda>b. acc_key b = acc_key a) (accounts (db s)) = None \<and> 0 \<le> aBalance a \<and> 0 \<le> aLocked a \<and>
      db s' = (db s)\<lparr>accounts := accounts (db s) @ [a]\<rparr>)"
    by (auto simp: CreateAccount_def stmt_Inr_iff split: if_splits)
  then show ?thesis
  proof (elim disjE conjE)
    assume f: "find (\<lambda>b. acc_key b = acc_key a) (accounts (db s)) \<noteq> None" and d: "db s' = db s"
    then obtain b where "b \<in> set (accounts (db s))" "acc_key b = acc_key a"
      by (auto dest: find_SomeD)
    then have "has_account (aUserID a) (aCurrency a) (db s')"
      unfolding has_account_def d by (metis acc_key_def imageI)
    with d show ?thesis by simp
  next
    assume f: "find (\<lambda>b. acc_key b = acc_key a) (accounts (db s)) = None" "0 \<le> aBalance a" "0 \<le> aLocked a"
      and d: "db s' = (db s)\<lparr>accounts := accounts (db s) @ [a]\<rparr>"
    then show ?thesis
      by (auto simp: accounts_ok_def has_account_def find_None_iff' acc_key_def [of a])
  qed
qed

lemma create_test_accounts:
  assumes "map_each cs (create_test_account u t) s = (Inr accs, s')" and "accounts_ok (db s)"
  shows "accounts_ok (db s') \<and> users (db s') = users (db s) \<and> (\<exists>new. accounts (db s') = accounts (db s) @ new) \<and>
    (\<forall>c \<in> fst ` set cs. has_account u c (db s')) \<and>
    list_all2 (\<lambda>(c, x) a. aUserID a = u \<and> aCurrency a = c \<and> aBalance a = x \<and> aLocked a = 0) cs accs"
  using assms
proof (induction cs arbitrary: s accs)
  case (Cons cx cs)
  obtain c x where cx: "cx = (c, x)" by (cases cx)
  let ?a = "\<lparr>aID = fresh s (calls s), aUserID = u, aCurrency = c, aBalance = x, aLocked = 0,
                aCreatedAt = t, aUpdatedAt = t\<rparr>"
  from Cons.prems(1) obtain accs' s1 where accs: "accs = ?a # accs'"
    and 1: "CreateAccount ?a (s\<lparr>calls := Suc (calls s)\<rparr>) = (Inr (), s1)"
    and 2: "map_each cs (create_test_account u t) s1 = (Inr accs', s')"
    by (auto simp: bind_Inr_iff create_test_account_def cx Let_def)
  note a = CreateAccount_Inr [OF 1]
  with Cons.prems(2) have ok: "accounts_ok (db s1)" by simp
  note b = Cons.IH [OF 2 ok]
  from a b have "has_account u c (db s')" by (auto simp: has_account_def)
  with a b accs show ?case by (auto simp: cx)
qed (auto simp: has_account_def)

lemma RegisterAnonymousUser_cases:
  assumes "RegisterAnonymousUser ustr s = (r, s')"
  obtains (failed) e where "r = Inl e" "db s' = db s"
  | (opened) user tm accs t1 t' where "r = Inr (user, accs)" "uID user \<notin> uID ` set (users (db s))"
      "db t1 = (db s)\<lparr>users := users (db s) @ [user]\<rparr>"
      "map_each test_currencies (create_test_account (uID user) tm) t1 = (Inr accs, t')" "db s' = db t'"
proof -
  let ?i = "fresh s (calls s)" and ?t = "clock s (Suc (calls s))"
  let ?u = "\<lparr>uID = ?i, uEmail = ''anonymous_'' @ ustr ?i @ ''@test.com'', uPasswordHash = ''N/A'',
      uCreatedAt = ?t, uUpdatedAt = ?t\<rparr>"
  let ?fn = "bind (wrap ''create user'' (CreateUser ?u)) (\<lambda>_. map_each test_currencies (create_test_account ?i ?t))"
  let ?s1 = "s\<lparr>calls := Suc (Suc (calls s))\<rparr>"
  have run: "RegisterAnonymousUser ustr s = bind (ExecTx ?fn) (\<lambda>accs. ret (?u, accs)) ?s1"
    by (simp add: RegisterAnonymousUser_def bind_now bind_NewV7 Let_def)
  obtain r' s2 where e: "ExecTx ?fn ?s1 = (r', s2)" by (cases "ExecTx ?fn ?s1")
  from ExecTx_db [OF e] show ?thesis
  proof (elim disjE exE conjE)
    fix err assume "r' = Inl err" "db s2 = db ?s1"
    with run e assms failed show ?thesis by (auto simp: bind_def)
  next
    fix accs t t' assume h: "r' = Inr accs" "db t = db ?s1" "?fn t = (Inr accs, t')" "db s2 = db t'"
    from h(3) obtain t1 where 1: "CreateUser ?u t = (Inr (), t1)"
      and 2: "map_each test_currencies (create_test_account ?i ?t) t1 = (Inr accs, t')"
      by (auto simp: bind_Inr_iff)
    from 1 have u: "db t1 = (db t)\<lparr>users := users (db t) @ [?u]\<rparr>" "?i \<notin> uID ` set (users (db t))"
      by (auto simp: CreateUser_def stmt_Inr_iff split: if_splits)
    from run e h(1) assms have "r = Inr (?u, accs) \<and> s' = s2" by (simp add: bind_def ret_def)
    with opened [of ?u accs t1 ?t t'] u h(2,4) 2 show ?thesis by simp
  qed
qed


section \<open>A concrete run\<close>

definition demo_service :: Service where
  "demo_service = \<lparr>cacheRepo = None, eventBus = True, rawPublisher = True, outboxRepo = True\<rparr>"

definition demo_users :: session where
  "demo_users = \<lparr>db = \<lparr>users = [\<lparr>uID = 1, uEmail = ''a'', uPasswordHash = ''x'', uCreatedAt = 0, uUpdatedAt = 0\<rparr>],
     accounts = [\<lparr>aID = 5, aUserID = 1, aCurrency = ''USD'', aBalance = 1000, aLocked = 0, aCreatedAt = 0, aUpdatedAt = 0\<rparr>],
     orders = [], trades = [], outbox = [], locks = []\<rparr>,
     kafka = [], calls = 0, in_tx = False, aborted = False, outage = (\<lambda>_. False), lost_ack = (\<lambda>_. False),
     clock = (\<lambda>n. int n), fresh = (\<lambda>n. of_nat (100 + n))\<rparr>"

definition demo_new_order :: "string \<Rightarrow> Order" where
  "demo_new_order sy = \<lparr>dID = 0, dUserID = 1, dSymbol = sy, dSide = SideBuy, dType = TypeLimit, dPrice = 100,
     dQuantity = 2, dFilledQuantity = 0, dStatus = 0, dCreatedAt = 0, dUpdatedAt = 0\<rparr>"

definition demo_place :: "(error + (Order \<times> Message list)) \<times> session" where
  "demo_place = PlaceOrder (\<lambda>_. ''id'') (\<lambda>x. x) demo_service (demo_new_order ''btc-usd'') demo_users"

lemma demo_users_ok: "accounts_ok (db demo_users)"
  by (simp add: accounts_ok_def demo_users_def)

lemma demo_place_eval:
  "map dSymbol (orders (db (snd demo_place))) = [''BTC-USD''] \<and> map aLocked (accounts (db (snd demo_place))) = [200]"
  by code_simp

lemma batch_accepts_any_symbol:
  "map dSymbol (orders (db (snd (BatchPlaceOrders (\<lambda>_. ''id'') (\<lambda>x. x) demo_service [demo_new_order ''FOO-USD''] demo_users))))
     = [''FOO-USD''] \<and> \<not> IsSymbolAllowed ''FOO-USD''"
  by code_simp





theorem snapshot_estimate_agrees_witness:
  "EstimateMarketBuyRequiredFunds ((NewOrderBook ''BTC-USD'')
     \<lparr>asks := [NewOrder 1 11 eSideSell 100 2, NewOrder 2 12 eSideSell 101 3]\<rparr>) 2 = Inr 200"
proof -
  let ?e = "(NewOrderBook ''BTC-USD'')\<lparr>asks := [NewOrder 1 11 eSideSell 100 2, NewOrder 2 12 eSideSell 101 3]\<rparr>"
  have "estimateFromSnapshotAsks (snAsks (GetOrderBookSnapshot ?e 1)) 2 = Inr 200" by code_simp
  with snapshot_estimate_agrees [of ?e 2 1 200] show ?thesis by simp
qed

end
