(* ===== verification/Cache.thy ===== *)
theory Cache
  imports Tx
begin

text \<open>
  The order book cache: src/internal/repository/cache_repository.go. Redis is a store of values; a
  value is a snapshot (its JSON decodes) or something else, which the Lua script treats as absent.
  Lua numbers hold tokens exactly below \<open>2 ^ 53\<close>. The script runs atomically in Redis, and every
  request may fail at the session's position.
\<close>

datatype cached = Snapshot OrderBookSnapshot | Undecodable string

type_synonym redis = "(string \<times> cached) list"

definition orderbook_key :: "string \<Rightarrow> string" where
  "orderbook_key symbol = ''exchange:orderbook:'' @ symbol"

definition redis_set :: "redis \<Rightarrow> string \<Rightarrow> cached \<Rightarrow> redis" where
  "redis_set st k v = alist_upd k (\<lambda>_. v) v st"

definition lua_script :: "redis \<Rightarrow> string \<Rightarrow> int \<Rightarrow> OrderBookSnapshot \<Rightarrow> redis \<times> int" where
  "lua_script st k new_token data =
     (case map_of st k of
        Some (Snapshot decoded) \<Rightarrow>
          if new_token > 0 \<and> new_token < snFencingToken decoded then (st, 0)
          else (redis_set st k (Snapshot data), 1)
      | _ \<Rightarrow> (redis_set st k (Snapshot data), 1))"

definition GetOrderBookSnapshot_cached :: "redis \<Rightarrow> string \<Rightarrow> OrderBookSnapshot dbm" where
  "GetOrderBookSnapshot_cached st symbol s =
     (let s1 = s\<lparr>calls := Suc (calls s)\<rparr> in
      if outage s (calls s) then (Inl ErrConn, s1)
      else case map_of st (orderbook_key symbol) of
             None \<Rightarrow> (Inl (ErrMsg ''redis: nil''), s1)
           | Some (Undecodable _) \<Rightarrow> (Inl (ErrMsg ''unmarshal cache''), s1)
           | Some (Snapshot sn) \<Rightarrow> (Inr sn, s1))"

text \<open>The store and the result; the caller keeps the store.\<close>

definition SetOrderBookSnapshot :: "OrderBookSnapshot \<Rightarrow> redis \<times> session \<Rightarrow> (error + unit) \<times> redis \<times> session" where
  "SetOrderBookSnapshot snapshot = (\<lambda>(st, s).
     let s1 = s\<lparr>calls := Suc (calls s)\<rparr> in
     if outage s (calls s)
     then (Inl (ErrWrap ''write redis snapshot'' ErrConn), st, s1)
     else (let (st', res) = lua_script st (orderbook_key (snSymbol snapshot)) (snFencingToken snapshot) snapshot
           in (if res = 0 then Inl (ErrMsg ''stale snapshot'') else Inr (), st', s1)))"

section \<open>Last write of the newest leader wins\<close>

lemma map_of_redis_set: "map_of (redis_set st k v) k' = (if k' = k then Some v else map_of st k')"
  by (auto simp: redis_set_def map_of_alist_upd)

text \<open>The reference: among the writes to a key, the last of those with the greatest token.\<close>

fun newest :: "OrderBookSnapshot list \<Rightarrow> OrderBookSnapshot option" where
  "newest [] = None"
| "newest (x # xs) =
     (case newest xs of None \<Rightarrow> Some x | Some y \<Rightarrow> if snFencingToken y < snFencingToken x then Some x else Some y)"

definition write_all :: "string \<Rightarrow> OrderBookSnapshot list \<Rightarrow> redis \<Rightarrow> redis" where
  "write_all k xs st = fold (\<lambda>x st. fst (lua_script st k (snFencingToken x) x)) xs st"

lemma newest_snoc:
  "newest (xs @ [x]) = (case newest xs of None \<Rightarrow> Some x
     | Some y \<Rightarrow> if snFencingToken x < snFencingToken y then Some y else Some x)"
  by (induction xs) (auto split: option.splits)


text \<open>
  C25: the order book cache is last write wins by leader generation. Starting from an empty key, after
  any sequence of writes that carry positive tokens the cache holds the last write among those with the
  greatest token, so a stale leader can never replace the picture of a newer one; no other key changes.
\<close>

theorem cache_keeps_newest:
  assumes "map_of st k = None" and "\<forall>x \<in> set xs. 0 < snFencingToken x"
  shows "map_of (write_all k xs st) k = map_option Snapshot (newest xs) \<and>
    (\<forall>k'. k' \<noteq> k \<longrightarrow> map_of (write_all k xs st) k' = map_of st k')"
  using assms(2)
proof (induction xs rule: rev_induct)
  case Nil
  with assms(1) show ?case by (simp add: write_all_def)
next
  case (snoc x xs)
  then have IH: "map_of (write_all k xs st) k = map_option Snapshot (newest xs)"
    "\<forall>k'. k' \<noteq> k \<longrightarrow> map_of (write_all k xs st) k' = map_of st k'" by auto
  have w: "write_all k (xs @ [x]) st = fst (lua_script (write_all k xs st) k (snFencingToken x) x)"
    by (simp add: write_all_def)
  from snoc.prems have "0 < snFencingToken x" by simp
  with IH show ?case
    unfolding w newest_snoc
    by (cases "newest xs") (auto simp: lua_script_def map_of_redis_set)
qed

theorem cache_keeps_newest_witness:
  "map_of (write_all ''k'' [(NewOrderBookSnapshot ''A'')\<lparr>snFencingToken := 2\<rparr>,
     (NewOrderBookSnapshot ''B'')\<lparr>snFencingToken := 1\<rparr>] []) ''k''
     = Some (Snapshot ((NewOrderBookSnapshot ''A'')\<lparr>snFencingToken := 2\<rparr>))"
  using cache_keeps_newest [of "[]" "''k''" "[(NewOrderBookSnapshot ''A'')\<lparr>snFencingToken := 2\<rparr>,
     (NewOrderBookSnapshot ''B'')\<lparr>snFencingToken := 1\<rparr>]"]
  by simp

text \<open>A write that carries token 0, as one published while the leadership is being lost, always wins.\<close>

lemma token_zero_overwrites:
  "map_of (fst (lua_script st k 0 x)) k = Some (Snapshot x)"
  by (auto simp: lua_script_def map_of_redis_set split: option.splits cached.splits)

end
