(* ===== verification/Matching.thy ===== *)
theory Matching
  imports Engine Repository Cache
begin

text \<open>
  The matching service: src/internal/matching/event_subscribers.go and initializer.go. Its state are
  the engines in memory and the Redis store; publishing, generated identifiers and clock readings use
  the positions of the session. \<open>subToken n\<close> is what an atomic load of the fencing token yields at
  position \<open>n\<close>: \<open>SetFencingToken\<close> runs in another goroutine, so the value may change between any two
  loads. \<open>ctxDone n\<close> says whether the consumer's context is cancelled at position \<open>n\<close>. A publish
  loop that neither succeeds nor sees its context cancelled does not return, which is the value
  \<open>None\<close>.
\<close>

section \<open>The subscriber\<close>

record Subscriber =
  subBus :: bool
  subCache :: bool
  subToken :: "nat \<Rightarrow> int"
  ctxDone :: "nat \<Rightarrow> bool"

record Matching =
  engineManager :: EngineManager
  store :: redis
  sess :: session

definition load_token :: "Subscriber \<Rightarrow> session \<Rightarrow> int \<times> session" where
  "load_token sub s = (subToken sub (calls s), s\<lparr>calls := Suc (calls s)\<rparr>)"

definition convertToMatchingOrder :: "OrderPlacedEvent \<Rightarrow> EOrder" where
  "convertToMatchingOrder event =
     (let matchSide = (if opSide event = SideBuy then eSideBuy else eSideSell) in
      if opType event = TypeLimit
      then NewOrder (opOrderID event) (opUserID event) matchSide (opPrice event) (opQuantity event)
      else NewMarketOrder (opOrderID event) (opUserID event) matchSide (opQuantity event))"

text \<open>\<open>for { err := Publish(...); if err == nil { break }; if ctx.Err() != nil { return ctx.Err() } ... }\<close>\<close>

partial_function (option) publish_retry ::
  "(nat \<Rightarrow> bool) \<Rightarrow> string \<Rightarrow> string \<Rightarrow> event \<Rightarrow> session \<Rightarrow> ((error + unit) \<times> session) option" where
  "publish_retry done topic key payload s =
     (case Publish topic key payload s of
        (Inr _, s1) \<Rightarrow> Some (Inr (), s1)
      | (Inl _, s1) \<Rightarrow>
          (let s2 = s1\<lparr>calls := Suc (calls s1)\<rparr> in
           if done (calls s1) then Some (Inl (ErrMsg ''context canceled''), s2)
           else publish_retry done topic key payload s2))"

fun publish_each ::
  "(nat \<Rightarrow> bool) \<Rightarrow> string \<Rightarrow> string \<Rightarrow> event list \<Rightarrow> session \<Rightarrow> ((error + unit) \<times> session) option" where
  "publish_each done topic key [] s = Some (Inr (), s)"
| "publish_each done topic key (e # es) s =
     (case publish_retry done topic key e s of
        None \<Rightarrow> None
      | Some (Inl err, s1) \<Rightarrow> Some (Inl err, s1)
      | Some (Inr _, s1) \<Rightarrow> publish_each done topic key es s1)"

text \<open>Best effort: both failures are only logged.\<close>

definition OnOrderBookUpdate :: "Subscriber \<Rightarrow> string \<Rightarrow> OrderBookSnapshot \<Rightarrow> Matching \<Rightarrow> Matching" where
  "OnOrderBookUpdate sub symbol snapshot0 m =
     (let (tok, s1) = load_token sub (sess m);
          snapshot = snapshot0\<lparr>snFencingToken := tok\<rparr>;
          (st, s2) = (if subCache sub then snd (SetOrderBookSnapshot snapshot (store m, s1)) else (store m, s1));
          s3 = (if subBus sub
                then snd (Publish TopicOrderBook symbol
                  (EvOrderBookUpdated \<lparr>obuEventType = EventOrderBookUpdated, obuSymbol = symbol, obuSnapshot = Some snapshot\<rparr>) s2)
                else s2)
      in m\<lparr>store := st, sess := s3\<rparr>)"

definition settlement_event :: "OrderPlacedEvent \<Rightarrow> EOrder \<Rightarrow> Trade list \<Rightarrow> int \<Rightarrow> event" where
  "settlement_event event matchOrder ts tok = EvSettlementRequested
     \<lparr>srEventType = EventSettlementRequested, srSymbol = opSymbol event, srTakerOrderID = opOrderID event,
      srAmountLocked = opAmountLocked event, srLockedCurrency = opLockedCurrency event,
      srRemainingQty = eQuantity matchOrder, srTrades = ts, srFencingToken = tok\<rparr>"

text \<open>\<open>CreatedAt\<close> of the event is left at its zero value, as in the code.\<close>

definition trade_event :: "string \<Rightarrow> Trade \<Rightarrow> event" where
  "trade_event symbol t = EvTradeExecuted
     \<lparr>teEventType = EventTradeExecuted, teSymbol = symbol, teTradeID = tID t, teMakerOrderID = tMakerOrderID t,
      teTakerOrderID = tTakerOrderID t, tePrice = tPrice t, teQuantity = tQuantity t, teCreatedAt = 0\<rparr>"

definition needsSettlement :: "OrderPlacedEvent \<Rightarrow> EOrder \<Rightarrow> Trade list \<Rightarrow> bool" where
  "needsSettlement event matchOrder ts \<longleftrightarrow>
     length ts > 0 \<or> opType event = TypeMarket \<or> eQuantity matchOrder = 0"

text \<open>
  The k-th trade takes two positions, one for its identifier and one for its time. The registry holds
  the mutated engine from here on, whether or not the publishing below succeeds.
\<close>

definition process_event :: "OrderPlacedEvent \<Rightarrow> Matching \<Rightarrow> Engine \<times> EOrder \<times> Trade list \<times> Matching" where
  "process_event event m =
     (let s = sess m;
          (mgr, eng) = GetEngine (engineManager m) (opSymbol event);
          (eng', matchOrder, ts) =
            Process (\<lambda>k. fresh s (calls s + 2 * k)) (\<lambda>k. clock s (calls s + 2 * k + 1)) eng
              (convertToMatchingOrder event)
      in (eng', matchOrder, ts,
          m\<lparr>engineManager := put_engine mgr (opSymbol event) eng',
             sess := s\<lparr>calls := calls s + 2 * length ts\<rparr>\<rparr>))"

definition publish_settlement ::
  "Subscriber \<Rightarrow> OrderPlacedEvent \<Rightarrow> EOrder \<Rightarrow> Trade list \<Rightarrow> session \<Rightarrow> ((error + unit) \<times> session) option" where
  "publish_settlement sub event matchOrder ts s =
     (let (tok, s1) = load_token sub s in
      case publish_retry (ctxDone sub) TopicSettlements (opSymbol event)
             (settlement_event event matchOrder ts tok) s1 of
        None \<Rightarrow> None
      | Some (Inl err, s2) \<Rightarrow> Some (Inl err, s2)
      | Some (Inr _, s2) \<Rightarrow>
          publish_each (ctxDone sub) TopicTrades (opSymbol event) (map (trade_event (opSymbol event)) ts) s2)"

definition handleOrderPlaced ::
  "Subscriber \<Rightarrow> OrderPlacedEvent \<Rightarrow> Matching \<Rightarrow> ((error + unit) \<times> Matching) option" where
  "handleOrderPlaced sub event m =
     (let (eng, matchOrder, ts, m1) = process_event event m;
          finish = (\<lambda>m. OnOrderBookUpdate sub (opSymbol event) (GetOrderBookSnapshot eng 20) m)
      in if needsSettlement event matchOrder ts \<and> subBus sub
         then (case publish_settlement sub event matchOrder ts (sess m1) of
                 None \<Rightarrow> None
               | Some (Inl err, s2) \<Rightarrow> Some (Inl err, m1\<lparr>sess := s2\<rparr>)
               | Some (Inr _, s2) \<Rightarrow> Some (Inr (), finish (m1\<lparr>sess := s2\<rparr>)))
         else Some (Inr (), finish m1))"

definition canceled_event :: "OrderCancelRequestedEvent \<Rightarrow> int \<Rightarrow> event" where
  "canceled_event event tok = EvOrderCanceled
     \<lparr>ocEventType = EventOrderCanceled, ocSymbol = crSymbol event, ocOrderID = crOrderID event,
      ocUserID = crUserID event, ocFencingToken = tok\<rparr>"

definition handleOrderCancelRequested ::
  "Subscriber \<Rightarrow> OrderCancelRequestedEvent \<Rightarrow> Matching \<Rightarrow> ((error + unit) \<times> Matching) option" where
  "handleOrderCancelRequested sub event m =
     (let matchSide = (if crSide event = SideBuy then eSideBuy else eSideSell);
          (mgr, eng) = GetEngine (engineManager m) (crSymbol event);
          (eng', canceled) = Cancel eng (crOrderID event) matchSide;
          m1 = m\<lparr>engineManager := put_engine mgr (crSymbol event) eng'\<rparr>;
          finish = (\<lambda>m. OnOrderBookUpdate sub (crSymbol event) (GetOrderBookSnapshot eng' 20) m)
      in if canceled then
           (if subBus sub then
              (let (tok, s1) = load_token sub (sess m1) in
               case publish_retry (ctxDone sub) TopicSettlements (crSymbol event) (canceled_event event tok) s1 of
                 None \<Rightarrow> None
               | Some (Inl err, s2) \<Rightarrow> Some (Inl err, m1\<lparr>sess := s2\<rparr>)
               | Some (Inr _, s2) \<Rightarrow> Some (Inr (), finish (m1\<lparr>sess := s2\<rparr>)))
            else Some (Inr (), finish m1))
         else Some (Inr (), m1))"

text \<open>What \<open>json.Unmarshal\<close> makes of the bytes is given by the three decoders.\<close>

definition MatchingHandleEvents ::
  "('v \<Rightarrow> error + string) \<Rightarrow> ('v \<Rightarrow> error + OrderPlacedEvent) \<Rightarrow> ('v \<Rightarrow> error + OrderCancelRequestedEvent)
     \<Rightarrow> Subscriber \<Rightarrow> 'v \<Rightarrow> Matching \<Rightarrow> ((error + unit) \<times> Matching) option" where
  "MatchingHandleEvents dec_envelope dec_placed dec_cancel sub value m =
     (let (tok, s1) = load_token sub (sess m);
          m1 = m\<lparr>sess := s1\<rparr>
      in if tok = 0 then Some (Inr (), m1)
         else case dec_envelope value of
           Inl e \<Rightarrow> Some (Inl (ErrWrap ''decode matching event'' e), m1)
         | Inr eventType \<Rightarrow>
             if eventType = EventOrderPlaced then
               (case dec_placed value of
                  Inl e \<Rightarrow> Some (Inl (ErrWrap ''decode OrderPlacedEvent'' e), m1)
                | Inr event \<Rightarrow> handleOrderPlaced sub event m1)
             else if eventType = EventOrderCancelRequested then
               (case dec_cancel value of
                  Inl e \<Rightarrow> Some (Inl (ErrWrap ''decode OrderCancelRequestedEvent'' e), m1)
                | Inr event \<Rightarrow> handleOrderCancelRequested sub event m1)
             else Some (Inr (), m1))"

definition SyncRecoveredOrderBooks :: "Subscriber \<Rightarrow> int \<Rightarrow> Matching \<Rightarrow> string list \<times> Matching" where
  "SyncRecoveredOrderBooks sub depth m =
     (let symbols = GetSymbols (engineManager m) in
      (symbols,
       fold (\<lambda>symbol m.
               let (mgr, eng) = GetEngine (engineManager m) symbol in
               OnOrderBookUpdate sub symbol (GetOrderBookSnapshot eng depth) (m\<lparr>engineManager := mgr\<rparr>))
         symbols m))"

section \<open>initializer.go\<close>

definition restored_order :: "Order \<Rightarrow> EOrder" where
  "restored_order order =
     \<lparr>eID = dID order, eUserID = dUserID order,
      eSide = (if dSide order = SideBuy then eSideBuy else eSideSell), eType = eTypeLimit,
      ePrice = dPrice order, eQuantity = dQuantity order - dFilledQuantity order\<rparr>"

definition restore_one :: "Order \<Rightarrow> EngineManager \<Rightarrow> EngineManager" where
  "restore_one order mgr =
     (if dType order \<noteq> TypeLimit then mgr
      else let (mgr', eng) = GetEngine mgr (dSymbol order)
           in put_engine mgr' (dSymbol order) (RestoreOrder eng (restored_order order)))"

definition RestoreEngineSnapshot :: "EngineManager \<Rightarrow> EngineManager dbm" where
  "RestoreEngineSnapshot mgr =
     bind (wrap ''load active orders'' GetActiveOrders) (\<lambda>os. ret (fold restore_one os mgr))"

end
