(* ===== verification/Matching_Correct.thy ===== *)
theory Matching_Correct
  imports Matching Engine_Correct
begin

text \<open>
  What the matching service guarantees: its publish loops return exactly when the broker answers or
  the context is cancelled, an order is matched once and its outcome is on the log at least once and
  before its trades, and a cold start rebuilds the books in price-time order.
\<close>

section \<open>The publish loop\<close>

declare publish_retry.simps [code]

lemma publish_retry_step:
  "publish_retry done topic key payload s =
     (if \<not> outage s (calls s)
      then Some (Inr (), s\<lparr>calls := Suc (calls s), kafka := kafka s @ [(topic, key, payload)]\<rparr>)
      else (let s2 = (if lost_ack s (calls s) then s\<lparr>kafka := kafka s @ [(topic, key, payload)]\<rparr> else s)
                       \<lparr>calls := calls s + 2\<rparr>
            in if done (Suc (calls s)) then Some (Inl (ErrMsg ''context canceled''), s2)
               else publish_retry done topic key payload s2))"
  by (subst publish_retry.simps) (simp add: Publish_run Let_def)

text \<open>One attempt ends the loop when it succeeds or when the context is seen cancelled after it.\<close>

definition attempt_ends :: "(nat \<Rightarrow> bool) \<Rightarrow> session \<Rightarrow> nat \<Rightarrow> bool" where
  "attempt_ends done s i \<longleftrightarrow> \<not> outage s (calls s + 2 * i) \<or> done (Suc (calls s + 2 * i))"

lemma publish_retry_returns:
  "attempt_ends done s i \<Longrightarrow> \<exists>r. publish_retry done topic key payload s = Some r"
proof (induction i arbitrary: s)
  case 0
  then show ?case by (subst publish_retry_step) (auto simp: attempt_ends_def Let_def)
next
  case (Suc i)
  let ?s2 = "(if lost_ack s (calls s) then s\<lparr>kafka := kafka s @ [(topic, key, payload)]\<rparr> else s)\<lparr>calls := calls s + 2\<rparr>"
  from Suc.prems have "attempt_ends done ?s2 i" by (auto simp: attempt_ends_def)
  from Suc.IH [OF this] show ?case by (subst publish_retry_step) (auto simp: Let_def)
qed


text \<open>What a run of the loop leaves behind, if it returns.\<close>

definition retried ::
  "(nat \<Rightarrow> bool) \<Rightarrow> kafka_record \<Rightarrow> session \<Rightarrow> (error + unit) \<Rightarrow> session \<Rightarrow> bool" where
  "retried stop rc s r s' \<longleftrightarrow>
     (\<exists>k. kafka s' = kafka s @ replicate k rc \<and> (r = Inr () \<longrightarrow> 0 < k)) \<and>
     (r = Inr () \<or> r = Inl (ErrMsg ''context canceled'') \<and> (\<exists>n \<ge> calls s. stop n)) \<and>
     db s' = db s \<and> outage s' = outage s \<and> calls s \<le> calls s' \<and> (\<exists>i. attempt_ends stop s i)"

lemma retriedI:
  assumes "kafka s' = kafka s @ replicate k rc" and "r = Inr () \<Longrightarrow> 0 < k"
    and "r = Inr () \<or> r = Inl (ErrMsg ''context canceled'') \<and> (\<exists>n \<ge> calls s. stop n)"
    and "db s' = db s" and "outage s' = outage s" and "calls s \<le> calls s'" and "attempt_ends stop s i"
  shows "retried stop rc s r s'"
  using assms unfolding retried_def by blast

lemma retried_once:
  "\<not> outage s (calls s) \<Longrightarrow> retried stop rc s (Inr ()) (s\<lparr>calls := Suc (calls s), kafka := kafka s @ [rc]\<rparr>)"
  by (rule retriedI [where k = 1 and i = 0]) (simp_all add: attempt_ends_def)

lemma retried_failed:
  assumes s2: "kafka s2 = kafka s @ replicate j rc" "db s2 = db s" "outage s2 = outage s" "calls s2 = calls s + 2"
  shows "stop (Suc (calls s)) \<Longrightarrow> retried stop rc s (Inl (ErrMsg ''context canceled'')) s2"
    and "retried stop rc s2 r s' \<Longrightarrow> retried stop rc s r s'"
proof -
  show "retried stop rc s (Inl (ErrMsg ''context canceled'')) s2" if "stop (Suc (calls s))"
    using s2 that
    by (intro retriedI [where k = j and i = 0]) (auto simp: attempt_ends_def intro: exI [of _ "Suc (calls s)"])
next
  assume "retried stop rc s2 r s'"
  then obtain k i where k: "kafka s' = kafka s2 @ replicate k rc" "r = Inr () \<Longrightarrow> 0 < k"
    and r: "r = Inr () \<or> r = Inl (ErrMsg ''context canceled'') \<and> (\<exists>n \<ge> calls s2. stop n)"
    and rest: "db s' = db s2" "outage s' = outage s2" "calls s2 \<le> calls s'"
    and i: "attempt_ends stop s2 i" by (auto simp: retried_def)
  from r s2(4) have "r = Inr () \<or> r = Inl (ErrMsg ''context canceled'') \<and> (\<exists>n \<ge> calls s. stop n)"
    by (metis add_leD1)
  moreover from i s2 have "attempt_ends stop s (Suc i)" by (simp add: attempt_ends_def)
  ultimately show "retried stop rc s r s'"
    using s2 k rest by (intro retriedI [where k = "j + k" and i = "Suc i"]) (simp_all add: replicate_add)
qed

lemmas publish_retry_induct = publish_retry.raw_induct [rotated, consumes 1, case_names step]

lemma publish_retry_Some:
  "publish_retry stop topic key payload s = Some y \<Longrightarrow> retried stop (topic, key, payload) s (fst y) (snd y)"
proof (induction stop topic key payload s y rule: publish_retry_induct)
  case (step self stop topic key payload s y)
  let ?rc = "(topic, key, payload)"
  define s2 where "s2 = (if lost_ack s (calls s) then s\<lparr>kafka := kafka s @ [?rc]\<rparr> else s)\<lparr>calls := calls s + 2\<rparr>"
  have s2: "kafka s2 = kafka s @ replicate (if lost_ack s (calls s) then 1 else 0) ?rc"
    "db s2 = db s" "outage s2 = outage s" "calls s2 = calls s + 2"
    by (simp_all add: s2_def)
  show ?case
  proof (cases "outage s (calls s)")
    case False
    with step(2) have "y = (Inr (), s\<lparr>calls := Suc (calls s), kafka := kafka s @ [?rc]\<rparr>)"
      by (auto simp: Publish_run Let_def)
    with retried_once [OF False] show ?thesis by simp
  next
    case True
    with step(2) have "(if stop (Suc (calls s)) then Some (Inl (ErrMsg ''context canceled''), s2)
        else self stop topic key payload s2) = Some y"
      by (simp add: Publish_run Let_def s2_def split: if_splits)
    with step(1) [of stop topic key payload s2 y] retried_failed [OF s2] show ?thesis
      by (auto split: if_splits)
  qed
qed

text \<open>
  C30: progress of the publish loop of the matching engine. \<open>publish_retry\<close> returns if and only if some
  attempt meets a broker that answers or is followed by a cancelled context: an outage that ends makes
  it return, and only an endless outage under a live context keeps the consumer waiting.
\<close>

theorem publish_retry_progress:
  "(\<exists>r. publish_retry stop topic key payload s = Some r) \<longleftrightarrow>
   (\<exists>i. attempt_ends stop s i)"
  using publish_retry_returns [of stop s _ topic key payload] publish_retry_Some [of stop topic key payload s]
  unfolding retried_def by fastforce

section \<open>The outcome of an order on the log\<close>

lemma publish_each_Some:
  "publish_each stop topic key es s = Some (r, s') \<Longrightarrow> db s' = db s \<and>
     (case r of Inl e \<Rightarrow> e = ErrMsg ''context canceled'' \<and> (\<exists>n. stop n)
      | Inr _ \<Rightarrow> \<exists>rs. kafka s' = kafka s @ rs \<and> at_least_once rs (map (\<lambda>e. (topic, key, e)) es))"
proof (induction es arbitrary: s)
  case Nil
  then show ?case by (auto split: sum.splits)
next
  case (Cons e es)
  then obtain r1 s1 where p: "publish_retry stop topic key e s = Some (r1, s1)"
    by (auto split: option.splits)
  from publish_retry_Some [OF p] have rt: "retried stop (topic, key, e) s r1 s1" by simp
  then obtain k where k: "kafka s1 = kafka s @ replicate k (topic, key, e)" "r1 = Inr () \<longrightarrow> 0 < k"
    by (auto simp: retried_def)
  show ?case
  proof (cases r1)
    case (Inl err)
    with Cons.prems p rt show ?thesis by (auto simp: retried_def)
  next
    case (Inr u)
    with Cons.prems p have rest: "publish_each stop topic key es s1 = Some (r, s')" by simp
    from Cons.IH [OF this] rt Inr k show ?thesis
      by (auto simp: retried_def split: sum.splits intro!: at_least_once.more)
  qed
qed

section \<open>Handling a placed order\<close>

text \<open>What the log must hold for an order: its settlement first, then each of its trades.\<close>

definition outcome_log :: "Subscriber \<Rightarrow> OrderPlacedEvent \<Rightarrow> EOrder \<Rightarrow> Trade list \<Rightarrow> int \<Rightarrow> kafka_record list" where
  "outcome_log sub event matchOrder ts tok =
     (if needsSettlement event matchOrder ts \<and> subBus sub
      then (TopicSettlements, opSymbol event, settlement_event event matchOrder ts tok) #
             map (\<lambda>t. (TopicTrades, opSymbol event, trade_event (opSymbol event) t)) ts
      else [])"

lemma OnOrderBookUpdate_effect:
  fixes m :: Matching
  assumes "OnOrderBookUpdate sub symbol sn m = m'"
  shows "engineManager m' = engineManager m \<and> db (sess m') = db (sess m) \<and>
    (\<exists>rs. kafka (sess m') = kafka (sess m) @ rs \<and> fst ` set rs \<subseteq> {TopicOrderBook})"
proof -
  obtain tok s1 where tok: "load_token sub (sess m) = (tok, s1)" by (cases "load_token sub (sess m)")
  then have 1: "db s1 = db (sess m)" "kafka s1 = kafka (sess m)" by (auto simp: load_token_def)
  let ?sn = "sn\<lparr>snFencingToken := tok\<rparr>"
  obtain r st0 t0 where set0: "SetOrderBookSnapshot ?sn (store m, s1) = (r, st0, t0)"
    by (cases "SetOrderBookSnapshot ?sn (store m, s1)") auto
  then have 2: "db t0 = db s1" "kafka t0 = kafka s1"
    by (auto simp: SetOrderBookSnapshot_def Let_def split: if_splits prod.splits)
  define s2 where "s2 = (if subCache sub then t0 else s1)"
  let ?e = "EvOrderBookUpdated \<lparr>obuEventType = EventOrderBookUpdated, obuSymbol = symbol, obuSnapshot = Some ?sn\<rparr>"
  have m': "m' = m\<lparr>store := if subCache sub then st0 else store m,
      sess := if subBus sub then snd (Publish TopicOrderBook symbol ?e s2) else s2\<rparr>"
    unfolding assms [symmetric] s2_def
    by (cases "subCache sub"; simp add: OnOrderBookUpdate_def tok set0 Let_def)
  have "db s2 = db (sess m)" "kafka s2 = kafka (sess m)" using 1 2 by (simp_all add: s2_def)
  moreover have "db (snd (Publish TopicOrderBook symbol ?e s2)) = db s2 \<and>
      (\<exists>rs. kafka (snd (Publish TopicOrderBook symbol ?e s2)) = kafka s2 @ rs \<and> fst ` set rs \<subseteq> {TopicOrderBook})"
    by (simp add: Publish_run Let_def)
  ultimately show ?thesis by (cases "subBus sub") (simp_all add: m')
qed

lemma publish_settlement_Some:
  assumes "publish_settlement sub event matchOrder ts s = Some (r, s')"
  shows "db s' = db s \<and>
     (case r of Inl e \<Rightarrow> e = ErrMsg ''context canceled'' \<and> (\<exists>n. ctxDone sub n)
      | Inr _ \<Rightarrow> \<exists>rs. kafka s' = kafka s @ rs \<and> at_least_once rs
          ((TopicSettlements, opSymbol event, settlement_event event matchOrder ts (subToken sub (calls s))) #
             map (\<lambda>t. (TopicTrades, opSymbol event, trade_event (opSymbol event) t)) ts))"
proof -
  let ?tok = "subToken sub (calls s)" and ?s1 = "s\<lparr>calls := Suc (calls s)\<rparr>"
  let ?e = "settlement_event event matchOrder ts ?tok"
  obtain r1 s2 where p: "publish_retry (ctxDone sub) TopicSettlements (opSymbol event) ?e ?s1 = Some (r1, s2)"
    using assms by (auto simp: publish_settlement_def load_token_def split: option.splits)
  from publish_retry_Some [OF p] have rt: "retried (ctxDone sub) (TopicSettlements, opSymbol event, ?e) ?s1 r1 s2" by simp
  show ?thesis
  proof (cases r1)
    case (Inl e)
    with assms p rt show ?thesis by (auto simp: publish_settlement_def load_token_def retried_def)
  next
    case (Inr u)
    with rt obtain k where k: "0 < k" "kafka s2 = kafka s @ replicate k (TopicSettlements, opSymbol event, ?e)" "db s2 = db s"
      by (auto simp: retried_def)
    from Inr assms p have "publish_each (ctxDone sub) TopicTrades (opSymbol event) (map (trade_event (opSymbol event)) ts) s2 = Some (r, s')"
      by (simp add: publish_settlement_def load_token_def)
    from publish_each_Some [OF this] k show ?thesis
      by (auto simp: comp_def split: sum.splits intro!: at_least_once.more)
  qed
qed

lemma process_event_effect:
  assumes "process_event event m = (eng, matchOrder, ts, m1)"
  shows "db (sess m1) = db (sess m)" "kafka (sess m1) = kafka (sess m)"
  using assms by (auto simp: process_event_def Let_def split: prod.splits)

lemma handleOrderPlaced_run:
  assumes "handleOrderPlaced sub event m = Some (r, m')"
    and "process_event event m = (eng, matchOrder, ts, m1)"
  shows "engineManager m' = engineManager m1 \<and> db (sess m') = db (sess m) \<and>
    (case r of
       Inl e \<Rightarrow> e = ErrMsg ''context canceled'' \<and> (\<exists>n. ctxDone sub n)
     | Inr _ \<Rightarrow> \<exists>rs sn n. kafka (sess m') = kafka (sess m) @ rs @ sn \<and> fst ` set sn \<subseteq> {TopicOrderBook} \<and>
         at_least_once rs (outcome_log sub event matchOrder ts (subToken sub n)))"
proof (cases "needsSettlement event matchOrder ts \<and> subBus sub")
  case False
  with assms have "OnOrderBookUpdate sub (opSymbol event) (GetOrderBookSnapshot eng 20) m1 = m'" and "r = Inr ()"
    by (auto simp: handleOrderPlaced_def)
  with OnOrderBookUpdate_effect [OF this(1)] process_event_effect [OF assms(2)] False show ?thesis
    by (auto simp: outcome_log_def)
next
  case True
  then obtain r1 s2 where p: "publish_settlement sub event matchOrder ts (sess m1) = Some (r1, s2)"
    using assms by (auto simp: handleOrderPlaced_def split: option.splits)
  note pub = publish_settlement_Some [OF p] and eff = process_event_effect [OF assms(2)]
  show ?thesis
  proof (cases r1)
    case (Inl e)
    with assms True p pub eff show ?thesis by (auto simp: handleOrderPlaced_def)
  next
    case (Inr u)
    with assms True p have m': "OnOrderBookUpdate sub (opSymbol event) (GetOrderBookSnapshot eng 20) (m1\<lparr>sess := s2\<rparr>) = m'"
      and "r = Inr ()" by (auto simp: handleOrderPlaced_def)
    with OnOrderBookUpdate_effect [OF m'] True pub eff Inr show ?thesis
      by (fastforce simp: outcome_log_def)
  qed
qed

text \<open>
  C26: one event, one match. If \<open>handleOrderPlaced\<close> returns, the registry holds exactly the result of
  one run of the matching loop, whatever was published, and the tables are untouched. Without an error
  the log has grown by the settlement event and then every trade event, each at least once and in this
  order when the order needs a settlement, by nothing else but an order book update; an error means
  that the consumer's context was cancelled.
\<close>

theorem handleOrderPlaced_matches_once:
  assumes "handleOrderPlaced sub event m = Some (r, m')"
    and "process_event event m = (eng, matchOrder, ts, m1)"
  shows "engineManager m' = engineManager m1 \<and> db (sess m') = db (sess m) \<and>
    (case r of
       Inl e \<Rightarrow> e = ErrMsg ''context canceled'' \<and> (\<exists>n. ctxDone sub n)
     | Inr _ \<Rightarrow> \<exists>rs sn n. kafka (sess m') = kafka (sess m) @ rs @ sn \<and> fst ` set sn \<subseteq> {TopicOrderBook} \<and>
         at_least_once rs (outcome_log sub event matchOrder ts (subToken sub n)))"
  using assms by (rule handleOrderPlaced_run)

section \<open>No order is forgotten\<close>

lemma fill_without_fills: "fills (fill u ok q ms) = [] \<Longrightarrow> stay (fill u ok q ms) = ms"
  by (cases ms) (auto split: prod.splits if_splits)

lemma Process_untraded:
  assumes "Process ids clk e order = (e', order', [])" and "eQuantity order' \<noteq> 0"
    and "eType order \<noteq> eTypeMarket" and "0 < eQuantity order"
  shows "e' = AddOrder e order \<and> order' = order"
proof -
  obtain fs r ms where f: "sweep e order = (fs, r, ms)" by (cases "sweep e order")
  have "trades_of ids clk (obSymbol e) (eID order) 0 fs = []"
    using Process_trades [of ids clk e order] assms(1) f by simp
  then have fs: "fs = []" by (cases fs) auto
  have o': "order' = order\<lparr>eQuantity := r\<rparr>" using Process_order [of ids clk e order] assms(1) f by simp
  have r: "r = eQuantity order" and ms: "ms = opposite e order"
    using fill_quantity_balance [of "eUserID order" "accepts order" "eQuantity order" "opposite e order"]
      fill_without_fills [of "eUserID order" "accepts order" "eQuantity order" "opposite e order"] f fs o' assms(2)
    by (simp_all add: sweep_def)
  show ?thesis
  proof (cases "eSide order = eSideBuy")
    case True
    with f [unfolded sweep_buy [OF True]] assms r ms fs o' show ?thesis
      by (simp add: Process_buy opposite_def)
  next
    case False
    with f [unfolded sweep_sell [OF False]] assms r ms fs o' show ?thesis
      by (simp add: Process_sell opposite_def)
  qed
qed

lemma convert_fields [simp]:
  "eID (convertToMatchingOrder event) = opOrderID event"
  "eUserID (convertToMatchingOrder event) = opUserID event"
  "eQuantity (convertToMatchingOrder event) = opQuantity event"
  "eType (convertToMatchingOrder event) = (if opType event = TypeLimit then eTypeLimit else eTypeMarket)"
  "eSide (convertToMatchingOrder event) = (if opSide event = SideBuy then eSideBuy else eSideSell)"
  by (simp_all add: convertToMatchingOrder_def NewOrder_def NewMarketOrder_def Let_def)

lemma process_event_Process:
  assumes "process_event event m = (eng, matchOrder, ts, m1)"
  obtains ids clk where "Process ids clk (snd (GetEngine (engineManager m) (opSymbol event)))
      (convertToMatchingOrder event) = (eng, matchOrder, ts)"
    and "engineManager m1 = put_engine (fst (GetEngine (engineManager m) (opSymbol event))) (opSymbol event) eng"
  using assms by (auto simp: process_event_def Let_def split: prod.splits)


section \<open>Cancelling and routing\<close>

lemma cancel_request_run:
  assumes "handleOrderCancelRequested sub event m = Some (r, m')"
  defines "e \<equiv> snd (GetEngine (engineManager m) (crSymbol event))"
    and "mgr \<equiv> fst (GetEngine (engineManager m) (crSymbol event))"
    and "c \<equiv> Cancel (snd (GetEngine (engineManager m) (crSymbol event))) (crOrderID event)
              (if crSide event = SideBuy then eSideBuy else eSideSell)"
  shows "engineManager m' = put_engine mgr (crSymbol event) (fst c) \<and> db (sess m') = db (sess m) \<and>
    (case r of
       Inl err \<Rightarrow> err = ErrMsg ''context canceled'' \<and> (\<exists>n. ctxDone sub n)
     | Inr _ \<Rightarrow> \<exists>rs sn n. kafka (sess m') = kafka (sess m) @ rs @ sn \<and> fst ` set sn \<subseteq> {TopicOrderBook} \<and>
         at_least_once rs (if snd c \<and> subBus sub
           then [(TopicSettlements, crSymbol event, canceled_event event (subToken sub n))] else []))"
proof -
  obtain e' canceled where c: "c = (e', canceled)" by (cases c)
  obtain mgr0 e0 where g: "GetEngine (engineManager m) (crSymbol event) = (mgr0, e0)"
    by (cases "GetEngine (engineManager m) (crSymbol event)")
  then have mgr: "mgr = mgr0" by (simp add: mgr_def)
  let ?m1 = "m\<lparr>engineManager := put_engine mgr0 (crSymbol event) e'\<rparr>"
  have run: "handleOrderCancelRequested sub event m =
     (if canceled then
        (if subBus sub then
           (case publish_retry (ctxDone sub) TopicSettlements (crSymbol event)
                   (canceled_event event (subToken sub (calls (sess m)))) ((sess m)\<lparr>calls := Suc (calls (sess m))\<rparr>) of
              None \<Rightarrow> None
            | Some (Inl err, s2) \<Rightarrow> Some (Inl err, ?m1\<lparr>sess := s2\<rparr>)
            | Some (Inr _, s2) \<Rightarrow> Some (Inr (), OnOrderBookUpdate sub (crSymbol event) (GetOrderBookSnapshot e' 20) (?m1\<lparr>sess := s2\<rparr>)))
         else Some (Inr (), OnOrderBookUpdate sub (crSymbol event) (GetOrderBookSnapshot e' 20) ?m1))
      else Some (Inr (), ?m1))"
    using c unfolding handleOrderCancelRequested_def c_def g
    by (cases "crSide event = SideBuy"; simp add: Let_def load_token_def)
  show ?thesis
  proof (cases "canceled \<and> subBus sub")
    case False
    with assms(1) OnOrderBookUpdate_effect [OF refl, of sub "crSymbol event" "GetOrderBookSnapshot e' 20" ?m1]
    show ?thesis unfolding run c mgr by (auto split: if_splits)
  next
    case True
    let ?tok = "subToken sub (calls (sess m))" and ?s1 = "(sess m)\<lparr>calls := Suc (calls (sess m))\<rparr>"
    obtain r1 s2 where p: "publish_retry (ctxDone sub) TopicSettlements (crSymbol event) (canceled_event event ?tok) ?s1 = Some (r1, s2)"
      using assms(1) True unfolding run by (auto split: option.splits)
    from publish_retry_Some [OF p]
    have rt: "retried (ctxDone sub) (TopicSettlements, crSymbol event, canceled_event event ?tok) ?s1 r1 s2" by simp
    show ?thesis
    proof (cases r1)
      case (Inl err)
      with assms(1) True p rt c mgr show ?thesis unfolding run by (auto simp: retried_def)
    next
      case (Inr u)
      let ?rc = "(TopicSettlements, crSymbol event, canceled_event event ?tok)"
      from rt Inr obtain k where k: "0 < k" "kafka s2 = kafka (sess m) @ replicate k ?rc" "db s2 = db (sess m)"
        by (auto simp: retried_def)
      then have "at_least_once (replicate k ?rc) [?rc]"
        using at_least_once.more [OF k(1) at_least_once.none, of ?rc] by simp
      moreover have "r = Inr ()" and "OnOrderBookUpdate sub (crSymbol event) (GetOrderBookSnapshot e' 20) (?m1\<lparr>sess := s2\<rparr>) = m'"
        using assms(1) True p Inr unfolding run by simp_all
      ultimately show ?thesis
        using OnOrderBookUpdate_effect [of sub "crSymbol event" "GetOrderBookSnapshot e' 20" "?m1\<lparr>sess := s2\<rparr>" m'] k c True mgr
        by fastforce
    qed
  qed
qed

lemma map_of_put_engine: "map_of (put_engine m s e) s' = (if s' = s then Some e else map_of m s')"
  by (simp add: put_engine_def update_conv')

text \<open>
  C31: a cancel request. \<open>handleOrderCancelRequested\<close> takes the order with the identifier out of its side
  of the book and touches nothing else of the book; the cancellation is published, at least once, exactly
  when the order was resting there, so an order that has already traded is not reported as cancelled.
\<close>

theorem cancel_request_handled:
  assumes "handleOrderCancelRequested sub event m = Some (Inr (), m')" and "registry_ok (engineManager m)"
  defines "e \<equiv> snd (GetEngine (engineManager m) (crSymbol event))"
    and "gone \<equiv> filter (\<lambda>x. eID x \<noteq> crOrderID event)"
  shows "map_of (engineManager m') (crSymbol event) =
      Some (if crSide event = SideBuy then e\<lparr>bids := gone (bids e)\<rparr> else e\<lparr>asks := gone (asks e)\<rparr>) \<and>
    (\<exists>rs sn n. kafka (sess m') = kafka (sess m) @ rs @ sn \<and> fst ` set sn \<subseteq> {TopicOrderBook} \<and>
       at_least_once rs
         (if crOrderID event \<in> eID ` set (if crSide event = SideBuy then bids e else asks e) \<and> subBus sub
          then [(TopicSettlements, crSymbol event, canceled_event event (subToken sub n))] else []))"
proof -
  let ?side = "if crSide event = SideBuy then eSideBuy else eSideSell"
  have e: "book_ok e" "uncrossed e" using GetEngine_ok [OF assms(2)] by (auto simp: e_def)
  note C = Cancel_ok [OF e, of "crOrderID event" ?side]
  have "Cancel e (crOrderID event) ?side =
      (if crSide event = SideBuy then e\<lparr>bids := gone (bids e)\<rparr> else e\<lparr>asks := gone (asks e)\<rparr>,
       crOrderID event \<in> eID ` set (if crSide event = SideBuy then bids e else asks e))"
    using C by (auto simp: Cancel_def RemoveOrder_def gone_def split: prod.splits if_splits)
  with cancel_request_run [OF assms(1)] show ?thesis
    by (simp add: map_of_put_engine e_def)
qed

lemma MatchingHandleEvents_run:
  assumes "MatchingHandleEvents dec_envelope dec_placed dec_cancel sub value m = Some (r, m')"
  defines "untouched \<equiv> engineManager m' = engineManager m \<and> store m' = store m \<and>
      kafka (sess m') = kafka (sess m)"
  shows "db (sess m') = db (sess m) \<and>
    (if subToken sub (calls (sess m)) = 0 then r = Inr () \<and> untouched
     else case r of Inl (ErrWrap msg e) \<Rightarrow> untouched \<and> e \<in> {e. dec_envelope value = Inl e \<or> dec_placed value = Inl e \<or> dec_cancel value = Inl e}
          | Inl e \<Rightarrow> e = ErrMsg ''context canceled'' \<and> (\<exists>n. ctxDone sub n)
          | Inr _ \<Rightarrow> True)"
proof -
  let ?m1 = "m\<lparr>sess := (sess m)\<lparr>calls := Suc (calls (sess m))\<rparr>\<rparr>"
  let ?ok = "db (sess m') = db (sess m) \<and>
      (case r of Inl e \<Rightarrow> e = ErrMsg ''context canceled'' \<and> (\<exists>n. ctxDone sub n) | Inr _ \<Rightarrow> True)"
  have placed: ?ok if "handleOrderPlaced sub event ?m1 = Some (r, m')" for event
  proof -
    obtain eng matchOrder ts m1 where "process_event event ?m1 = (eng, matchOrder, ts, m1)" by (rule prod_cases4)
    from handleOrderPlaced_run [OF that this] show ?thesis by (auto split: sum.splits)
  qed
  have cancel: ?ok if "handleOrderCancelRequested sub event ?m1 = Some (r, m')" for event
    using cancel_request_run [OF that] by (auto split: sum.splits)
  have handled: ?thesis if ?ok "subToken sub (calls (sess m)) \<noteq> 0"
    using that by (auto split: sum.splits error.splits)
  note run = assms(1) [unfolded MatchingHandleEvents_def load_token_def Let_def prod.case]
  show ?thesis
  proof (cases "subToken sub (calls (sess m)) = 0")
    case True
    with run show ?thesis by (auto simp: untouched_def)
  next
    case token: False
    show ?thesis
    proof (cases "dec_envelope value")
      case (Inl e)
      with token run show ?thesis by (auto simp: untouched_def)
    next
      case (Inr ty)
      show ?thesis
      proof (cases "ty = EventOrderPlaced")
        case True
        with token run Inr handled placed show ?thesis
          by (cases "dec_placed value") (auto simp: untouched_def)
      next
        case False
        with token run Inr handled cancel show ?thesis
          by (cases "ty = EventOrderCancelRequested"; cases "dec_cancel value") (auto simp: untouched_def)
      qed
    qed
  qed
qed

text \<open>
  C32: routing. \<open>HandleEvents\<close> of the matching service never writes the tables. On a standby (token 0)
  it acknowledges the message without touching the engines, the cache or the log; it fails only on a
  message it cannot decode, and then nothing has happened, or because its context was cancelled.
\<close>

theorem matching_errors:
  assumes "MatchingHandleEvents dec_envelope dec_placed dec_cancel sub value m = Some (r, m')"
  defines "untouched \<equiv> engineManager m' = engineManager m \<and> store m' = store m \<and>
      kafka (sess m') = kafka (sess m)"
  shows "db (sess m') = db (sess m) \<and>
    (if subToken sub (calls (sess m)) = 0 then r = Inr () \<and> untouched
     else case r of Inl (ErrWrap msg e) \<Rightarrow> untouched \<and> e \<in> {e. dec_envelope value = Inl e \<or> dec_placed value = Inl e \<or> dec_cancel value = Inl e}
          | Inl e \<Rightarrow> e = ErrMsg ''context canceled'' \<and> (\<exists>n. ctxDone sub n)
          | Inr _ \<Rightarrow> True)"
  using MatchingHandleEvents_run [OF assms(1)] unfolding untouched_def .

section \<open>Every reachable book is sound\<close>

definition book_ids :: "OrderBook \<Rightarrow> uuid set" where
  "book_ids e = eID ` set (bids e @ asks e)"

lemma Process_frame:
  assumes "book_ok e"
  shows "book_ids (fst (Process ids clk e order)) \<subseteq> insert (eID order) (book_ids e) \<and>
         obSymbol (fst (Process ids clk e order)) = obSymbol e"
proof (cases "eSide order = eSideBuy")
  case True
  obtain fs r ms where f: "fill (eUserID order) (accepts_buy (eType order) (ePrice order))
      (eQuantity order) (asks e) = (fs, r, ms)" by (metis prod_cases3)
  have "eID ` set ms \<subseteq> eID ` set (asks e)"
    using shrinks_ids [OF fill_shrinks [OF book_ok_positive(1) [OF assms]]] f by (metis snd_conv)
  then show ?thesis by (auto simp: Process_buy [OF True f] book_ids_def)
next
  case False
  obtain fs r ms where f: "fill (eUserID order) (accepts_sell (eType order) (ePrice order))
      (eQuantity order) (bids e) = (fs, r, ms)" by (metis prod_cases3)
  have "eID ` set ms \<subseteq> eID ` set (bids e)"
    using shrinks_ids [OF fill_shrinks [OF book_ok_positive(2) [OF assms]]] f by (metis snd_conv)
  then show ?thesis by (auto simp: Process_sell [OF False f] book_ids_def)
qed

text \<open>The registry is sound and holds only identifiers that were placed.\<close>

definition books_sound :: "uuid set \<Rightarrow> EngineManager \<Rightarrow> bool" where
  "books_sound seen mgr \<longleftrightarrow> registry_ok mgr \<and> (\<forall>(s, e) \<in> set mgr. book_ids e \<subseteq> seen)"

lemma books_sound_mono: "books_sound seen mgr \<Longrightarrow> seen \<subseteq> seen' \<Longrightarrow> books_sound seen' mgr"
  unfolding books_sound_def by fastforce

lemma books_sound_put:
  assumes "books_sound seen mgr" and "obSymbol e = s" "book_ok e" "uncrossed e" "book_ids e \<subseteq> seen"
  shows "books_sound seen (put_engine mgr s e)"
proof -
  have "set (put_engine mgr s e) \<subseteq> insert (s, e) (set mgr)"
    unfolding put_engine_def by (induction mgr) auto
  with assms registry_ok_put [of mgr e s] show ?thesis
    by (fastforce simp: books_sound_def)
qed

lemma books_sound_GetEngine:
  assumes "books_sound seen mgr" and "GetEngine mgr s = (mgr', e)"
  shows "books_sound seen mgr' \<and> obSymbol e = s \<and> book_ok e \<and> uncrossed e \<and> book_ids e \<subseteq> seen"
proof -
  have reg: "registry_ok mgr" using assms(1) by (simp add: books_sound_def)
  have new: "book_ids (NewEngine s) = {}" by (simp add: book_ids_def NewEngine_def NewOrderBook_def)
  show ?thesis
  proof (cases "map_of mgr s")
    case None
    with assms(2) have "mgr' = put_engine mgr s e" "e = NewEngine s" by (auto simp: GetEngine_def Let_def)
    with books_sound_put [OF assms(1), of e s] NewEngine_ok [of s] new show ?thesis by simp
  next
    case (Some e0)
    with assms(2) have "mgr' = mgr" "e = e0" by (auto simp: GetEngine_def)
    moreover from Some have "(s, e0) \<in> set mgr" by (rule map_of_SomeD)
    ultimately show ?thesis using assms(1) GetEngine_ok [OF reg, of s] assms(2) by (auto simp: books_sound_def)
  qed
qed

text \<open>
  The consumer's runs: events are handled one after another (one partition per symbol, one consumer),
  with whatever outcome; a placed order has a new identifier and a positive quantity, as the order
  service makes them.
\<close>

inductive consumed :: "Subscriber \<Rightarrow> uuid set \<Rightarrow> Matching \<Rightarrow> bool" for sub where
  start: "engineManager m = NewEngineManager \<Longrightarrow> consumed sub {} m"
| placed: "consumed sub seen m \<Longrightarrow> opOrderID event \<notin> seen \<Longrightarrow> 0 < opQuantity event \<Longrightarrow>
    handleOrderPlaced sub event m = Some (r, m') \<Longrightarrow> consumed sub (insert (opOrderID event) seen) m'"
| cancelled: "consumed sub seen m \<Longrightarrow> handleOrderCancelRequested sub event m = Some (r, m') \<Longrightarrow>
    consumed sub seen m'"
| environment: "consumed sub seen m \<Longrightarrow> engineManager m' = engineManager m \<Longrightarrow> consumed sub seen m'"

lemma consumed_sound: "consumed sub seen m \<Longrightarrow> books_sound seen (engineManager m)"
proof (induction rule: consumed.induct)
  case (start m)
  then show ?case by (simp add: books_sound_def registry_ok_def NewEngineManager_def)
next
  case (placed seen m event r m')
  obtain eng matchOrder ts m1 where p: "process_event event m = (eng, matchOrder, ts, m1)" by (rule prod_cases4)
  obtain mgr e where g: "GetEngine (engineManager m) (opSymbol event) = (mgr, e)"
    by (cases "GetEngine (engineManager m) (opSymbol event)")
  obtain ids clk where P: "Process ids clk e (convertToMatchingOrder event) = (eng, matchOrder, ts)"
    and m1: "engineManager m1 = put_engine mgr (opSymbol event) eng"
    using process_event_Process [OF p] g by auto
  note e = books_sound_GetEngine [OF placed.IH g]
  have "eID (convertToMatchingOrder event) \<notin> eID ` set (bids e @ asks e)"
    using e placed.hyps by (auto simp: book_ids_def)
  then have "book_ok eng \<and> uncrossed eng"
    using Process_keeps_book [of e "convertToMatchingOrder event" ids clk] e P placed.hyps by simp
  moreover have "book_ids eng \<subseteq> insert (opOrderID event) seen" "obSymbol eng = opSymbol event"
    using Process_frame [of e ids clk "convertToMatchingOrder event"] e P by auto
  moreover have "books_sound (insert (opOrderID event) seen) mgr"
    using e by (auto intro: books_sound_mono)
  ultimately have "books_sound (insert (opOrderID event) seen) (engineManager m1)"
    unfolding m1 by (intro books_sound_put) auto
  with handleOrderPlaced_run [OF _ p] placed.hyps show ?case by auto
next
  case (cancelled seen m event r m')
  let ?side = "if crSide event = SideBuy then eSideBuy else eSideSell"
  obtain mgr e where g: "GetEngine (engineManager m) (crSymbol event) = (mgr, e)"
    by (cases "GetEngine (engineManager m) (crSymbol event)")
  note e = books_sound_GetEngine [OF cancelled.IH g]
  let ?e' = "fst (Cancel e (crOrderID event) ?side)"
  have "book_ok ?e'" "uncrossed ?e'" using e Cancel_ok [of e "crOrderID event" ?side] by auto
  moreover have "book_ids ?e' \<subseteq> seen" "obSymbol ?e' = crSymbol event"
    using e Cancel_ok [of e "crOrderID event" ?side]
    by (auto simp: book_ids_def Cancel_def RemoveOrder_def split: if_splits prod.splits)
  moreover have "engineManager m' = put_engine mgr (crSymbol event) ?e'"
    using cancel_request_run [OF cancelled.hyps(2)] g by simp
  ultimately show ?case using e by (auto intro: books_sound_put)
qed simp


section \<open>Cold start\<close>

text \<open>The book that the active orders of a symbol make, best price first and oldest first within a price.\<close>

definition restored_book :: "string \<Rightarrow> Order list \<Rightarrow> OrderBook" where
  "restored_book symbol os =
     \<lparr>obSymbol = symbol,
      bids = sort_key bid_key (map restored_order (filter (\<lambda>x. dSide x = SideBuy) os)),
      asks = sort_key ask_key (map restored_order (filter (\<lambda>x. dSide x \<noteq> SideBuy) os))\<rparr>"

lemma restored_book_snoc:
  "RestoreOrder (restored_book symbol os) (restored_order x) = restored_book symbol (os @ [x])"
  by (simp add: RestoreOrder_def AddOrder_def restored_book_def restored_order_def sort_key_append_sorted)

lemma restored_book_Nil: "restored_book symbol [] = NewEngine symbol"
  by (simp add: restored_book_def NewEngine_def NewOrderBook_def)

lemma restore_all:
  "map_of (fold restore_one os NewEngineManager) symbol =
     (let xs = filter (\<lambda>x. dSymbol x = symbol \<and> dType x = TypeLimit) os
      in if xs = [] then None else Some (restored_book symbol xs))"
proof (induction os rule: rev_induct)
  case Nil
  then show ?case by (simp add: NewEngineManager_def)
next
  case (snoc x os)
  let ?mgr = "fold restore_one os NewEngineManager"
  show ?case
  proof (cases "dType x = TypeLimit \<and> dSymbol x = symbol")
    case False
    then have "map_of (restore_one x ?mgr) symbol = map_of ?mgr symbol"
      by (auto simp: restore_one_def GetEngine_def map_of_put_engine Let_def split: option.splits)
    with False snoc show ?thesis by (auto simp: Let_def)
  next
    case True
    let ?xs = "filter (\<lambda>x. dSymbol x = symbol \<and> dType x = TypeLimit) os"
    have "snd (GetEngine ?mgr symbol) = restored_book symbol ?xs"
      using snoc by (simp add: GetEngine_def Let_def restored_book_Nil split: option.splits if_splits)
    with True have "map_of (restore_one x ?mgr) symbol = Some (restored_book symbol (?xs @ [x]))"
      by (simp add: restore_one_def case_prod_beta map_of_put_engine restored_book_snoc)
    with True show ?thesis by (simp add: Let_def)
  qed
qed


end
