(* ===== verification/Matching_Demo.thy ===== *)
theory Matching_Demo
  imports Matching_Correct
begin

text \<open>
  Concrete runs of the matching service: the theorems of Matching_Correct applied to a sell order, the
  buy order that takes it, a cancellation and a cold start, and the runs behind two recorded findings.
\<close>

definition demo_leader :: Subscriber where
  "demo_leader = \<lparr>subBus = True, subCache = True, subToken = (\<lambda>_. 7), ctxDone = (\<lambda>_. False)\<rparr>"

definition demo_placed :: "uuid \<Rightarrow> uuid \<Rightarrow> OrderSide \<Rightarrow> decimal \<Rightarrow> decimal \<Rightarrow> OrderPlacedEvent" where
  "demo_placed oid u side price qty =
     \<lparr>opEventType = EventOrderPlaced, opSymbol = ''BTC-USD'', opOrderID = oid, opUserID = u, opSide = side,
      opType = TypeLimit, opPrice = price, opQuantity = qty, opCreatedAt = 0,
      opAmountLocked = price * qty, opLockedCurrency = ''USD''\<rparr>"

definition demo_rows :: "Order list \<Rightarrow> DB" where
  "demo_rows os = \<lparr>users = [], accounts = [], orders = os, trades = [], outbox = [], locks = []\<rparr>"

definition demo_idle :: "Order list \<Rightarrow> Matching" where
  "demo_idle os = \<lparr>engineManager = [], store = [],
     sess = \<lparr>db = demo_rows os, kafka = [], calls = 0, in_tx = False, aborted = False,
        outage = (\<lambda>n. n = 6), lost_ack = (\<lambda>n. n = 6), clock = int, fresh = of_nat\<rparr>\<rparr>"

definition demo_handle :: "OrderPlacedEvent \<Rightarrow> Matching \<Rightarrow> Matching" where
  "demo_handle event m = (case handleOrderPlaced demo_leader event m of None \<Rightarrow> m | Some (r, m') \<Rightarrow> m')"

definition demo_sell :: OrderPlacedEvent where "demo_sell = demo_placed 1 11 SideSell 100 2"
definition demo_buy :: OrderPlacedEvent where "demo_buy = demo_placed 2 12 SideBuy 110 3"

definition demo_m1 :: Matching where "demo_m1 = demo_handle demo_sell (demo_idle [])"

lemma demo_sold: "map_option fst (handleOrderPlaced demo_leader demo_sell (demo_idle [])) = Some (Inr ())"
  by code_simp

lemma demo_bought: "map_option fst (handleOrderPlaced demo_leader demo_buy demo_m1) = Some (Inr ())"
  by code_simp

lemma demo_log:
  "map (\<lambda>(t, k, e). t) (kafka (sess (demo_handle demo_buy (demo_handle demo_sell (demo_idle []))))) =
     [TopicOrderBook, TopicSettlements, TopicSettlements, TopicTrades, TopicOrderBook]"
  by code_simp


lemma demo_handled:
  "map_option fst (handleOrderPlaced demo_leader event m) = Some (Inr ()) \<Longrightarrow>
     handleOrderPlaced demo_leader event m = Some (Inr (), demo_handle event m)"
  by (auto simp: demo_handle_def)

lemma demo_engines:
  "engineManager demo_m1 = [(''BTC-USD'', (NewOrderBook ''BTC-USD'')\<lparr>asks := [NewOrder 1 11 eSideSell 100 2]\<rparr>)]"
  by code_simp

theorem handleOrderPlaced_matches_once_witness:
  "engineManager (demo_handle demo_buy demo_m1) = engineManager (snd (snd (snd (process_event demo_buy demo_m1)))) \<and>
   db (sess (demo_handle demo_buy demo_m1)) = db (sess demo_m1)"
proof -
  obtain eng matchOrder ts m1 where p: "process_event demo_buy demo_m1 = (eng, matchOrder, ts, m1)" by (rule prod_cases4)
  from handleOrderPlaced_matches_once [OF demo_handled [OF demo_bought] p] p show ?thesis by simp
qed


definition demo_withdraw :: OrderCancelRequestedEvent where
  "demo_withdraw = \<lparr>crEventType = EventOrderCancelRequested, crSymbol = ''BTC-USD'', crOrderID = 1,
     crSide = SideSell, crUserID = 11\<rparr>"

theorem cancel_request_handled_witness:
  "\<exists>m'. handleOrderCancelRequested demo_leader demo_withdraw demo_m1 = Some (Inr (), m') \<and>
     map_of (engineManager m') ''BTC-USD'' = Some (NewOrderBook ''BTC-USD'')"
proof -
  have "map_option fst (handleOrderCancelRequested demo_leader demo_withdraw demo_m1) = Some (Inr ())"
    by code_simp
  then obtain m' where m': "handleOrderCancelRequested demo_leader demo_withdraw demo_m1 = Some (Inr (), m')"
    by auto
  have "registry_ok (engineManager demo_m1)"
    by (simp add: demo_engines registry_ok_def book_ok_def uncrossed_def resting_ok_def NewOrder_def NewOrderBook_def)
  from cancel_request_handled [OF m' this] m' show ?thesis
    by (simp add: demo_engines demo_withdraw_def GetEngine_def NewOrder_def NewOrderBook_def)
qed

theorem matching_errors_witness:
  "\<exists>r m'. MatchingHandleEvents (\<lambda>_. Inl ErrNoRows) (\<lambda>_. Inl ErrNoRows) (\<lambda>_. Inl ErrNoRows) demo_leader () demo_m1
       = Some (r, m') \<and> r = Inl (ErrWrap ''decode matching event'' ErrNoRows) \<and> engineManager m' = engineManager demo_m1"
proof -
  let ?d = "\<lambda>_ :: unit. Inl ErrNoRows"
  obtain m' where r: "MatchingHandleEvents ?d ?d ?d demo_leader () demo_m1
      = Some (Inl (ErrWrap ''decode matching event'' ErrNoRows), m')"
    by (simp add: MatchingHandleEvents_def load_token_def demo_leader_def Let_def)
  from matching_errors [OF r] r show ?thesis by (auto simp: demo_leader_def)
qed


definition demo_row :: "uuid \<Rightarrow> uuid \<Rightarrow> decimal \<Rightarrow> millis \<Rightarrow> Order" where
  "demo_row oid u filled t = \<lparr>dID = oid, dUserID = u, dSymbol = ''BTC-USD'', dSide = SideSell, dType = TypeLimit,
     dPrice = 100, dQuantity = 2, dFilledQuantity = filled, dStatus = StatusNew, dCreatedAt = t, dUpdatedAt = t\<rparr>"


section \<open>Recorded findings\<close>

text \<open>
  The Kafka consumer calls the handler again for the same record when it could not commit the offset, and
  a cold start loads an order whose record is still unread: both put the order into the book twice.
\<close>

lemma redelivery_duplicates:
  "map eID (asks (snd (GetEngine (engineManager (demo_handle demo_sell demo_m1)) ''BTC-USD''))) = [1, 1]"
  by code_simp

lemma restore_then_deliver_duplicates:
  "map eID (asks (snd (GetEngine (engineManager (demo_handle demo_sell
     ((demo_idle [])\<lparr>engineManager := restore_one (demo_row 1 11 0 10) NewEngineManager\<rparr>))) ''BTC-USD''))) = [1, 1]"
  by code_simp

text \<open>
  The token is loaded again when the settlement event is built. When the leadership is lost between the
  check at the entrance and that load, the event carries token 0, which the consumer does not fence.
\<close>

lemma token_zero_published:
  "case handleOrderPlaced (demo_leader\<lparr>subToken := (\<lambda>n. if n < 5 then 7 else 0)\<rparr>) demo_buy demo_m1 of
     None \<Rightarrow> False
   | Some (r, m') \<Rightarrow> list_ex (\<lambda>(t, k, e). case e of EvSettlementRequested x \<Rightarrow> srFencingToken x = 0 | _ \<Rightarrow> False) (kafka (sess m'))"
  by code_simp

end
