(* ===== verification/Election.thy ===== *)
theory Election
  imports Matching
begin

text \<open>
  Leader election and the life of a matching engine instance:
  src/internal/infrastructure/election/repository.go and elector.go, and the callbacks and the shutdown
  of src/cmd/matching-engine/main.go. The statements of the election run outside a transaction, so a
  statement whose reply is lost (\<open>lost_ack\<close>) has taken effect although the caller sees an error.
  Tokens are BIGINT columns: an increment beyond \<open>2 ^ 63 - 1\<close> is rejected by the server.
\<close>

section \<open>repository.go\<close>

definition pool_stmt :: "(DB \<Rightarrow> error + 'a \<times> DB) \<Rightarrow> 'a dbm" where
  "pool_stmt f s =
     (let s1 = s\<lparr>calls := Suc (calls s)\<rparr> in
      case f (db s) of
        Inl e \<Rightarrow> (Inl (if outage s (calls s) then ErrConn else e), s1)
      | Inr (x, d) \<Rightarrow>
          if \<not> outage s (calls s) then (Inr x, s1\<lparr>db := d\<rparr>)
          else (Inl ErrConn, if lost_ack s (calls s) then s1\<lparr>db := d\<rparr> else s1))"

definition leaseDuration :: millis where
  "leaseDuration = 15 * 1000"

definition lock_of :: "string \<Rightarrow> DB \<Rightarrow> LeaderLock option" where
  "lock_of part d = find (\<lambda>l. lPartition l = part) (locks d)"

definition upsert_lock :: "string \<Rightarrow> string \<Rightarrow> millis \<Rightarrow> millis \<Rightarrow> DB \<Rightarrow> error + int \<times> DB" where
  "upsert_lock part instanceID expiresAt t d =
     (if length part > 128 \<or> length instanceID > 255 then Inl (ErrValueTooLong ''partition_leader_locks'')
      else case lock_of part d of
        None \<Rightarrow> Inr (1, d\<lparr>locks := locks d @ [\<lparr>lPartition = part, lLeaderID = instanceID, lFencingToken = 1,
                                              lExpiresAt = expiresAt\<rparr>]\<rparr>)
      | Some l \<Rightarrow>
          if \<not> lExpiresAt l < t then Inl ErrNoRows
          else if lFencingToken l + 1 \<ge> 2 ^ 63 then Inl (ErrOutOfRange ''fencing_token'')
          else Inr (lFencingToken l + 1,
                    d\<lparr>locks := update_where (\<lambda>l. lPartition l = part)
                        (\<lambda>l. l\<lparr>lLeaderID := instanceID, lFencingToken := lFencingToken l + 1, lExpiresAt := expiresAt\<rparr>)
                        (locks d)\<rparr>))"

definition AcquireLock :: "string \<Rightarrow> string \<Rightarrow> (int \<times> bool) dbm" where
  "AcquireLock part instanceID =
     bind now (\<lambda>t.
     bind now (\<lambda>t2.
     catch (bind (pool_stmt (upsert_lock part instanceID (t2 + leaseDuration) t)) (\<lambda>fencingToken. ret (fencingToken, True)))
       (\<lambda>e. if errors_is e ErrNoRows then ret (0, False) else fail (ErrWrap ''acquire leader lock'' e))))"

text \<open>The value is \<open>RowsAffected\<close>.\<close>

definition extend_stmt :: "string \<Rightarrow> string \<Rightarrow> int \<Rightarrow> millis \<Rightarrow> DB \<Rightarrow> error + nat \<times> DB" where
  "extend_stmt part instanceID fencingToken expiresAt d =
     (let mine = (\<lambda>l. lPartition l = part \<and> lLeaderID l = instanceID \<and> lFencingToken l = fencingToken)
      in Inr (rows_affected mine (locks d),
              d\<lparr>locks := update_where mine (\<lambda>l. l\<lparr>lExpiresAt := expiresAt\<rparr>) (locks d)\<rparr>))"

definition ExtendLease :: "string \<Rightarrow> string \<Rightarrow> int \<Rightarrow> unit dbm" where
  "ExtendLease part instanceID fencingToken =
     bind now (\<lambda>t.
     bind (wrap ''extend lease'' (pool_stmt (extend_stmt part instanceID fencingToken (t + leaseDuration)))) (\<lambda>n.
     if n = 0 then fail (ErrMsg ''lease lost'') else ret ()))"

definition release_stmt :: "string \<Rightarrow> string \<Rightarrow> DB \<Rightarrow> error + unit \<times> DB" where
  "release_stmt part instanceID d =
     Inr ((), d\<lparr>locks := update_where (\<lambda>l. lPartition l = part \<and> lLeaderID l = instanceID)
                 (\<lambda>l. l\<lparr>lExpiresAt := 0\<rparr>) (locks d)\<rparr>)"

definition ReleaseLock :: "string \<Rightarrow> string \<Rightarrow> unit dbm" where
  "ReleaseLock part instanceID = pool_stmt (release_stmt part instanceID)"

definition ValidateFencingToken :: "string \<Rightarrow> int \<Rightarrow> bool dbm" where
  "ValidateFencingToken part token =
     (if token \<le> 0 then ret True
      else catch (bind (pool_stmt (select_token part))
                   (\<lambda>currentToken. if token < currentToken then ret False else ret True))
             (\<lambda>e. if errors_is e ErrNoRows then ret True else fail (ErrWrap ''validate fencing token'' e)))"

section \<open>elector.go\<close>

record Elector =
  elPartition :: string
  elInstanceID :: string
  elToken :: int
  elLeader :: bool

definition NewElector :: "string \<Rightarrow> string \<Rightarrow> Elector" where
  "NewElector part instanceID = \<lparr>elPartition = part, elInstanceID = instanceID, elToken = 0, elLeader = False\<rparr>"

definition IsLeader :: "Elector \<Rightarrow> bool" where
  "IsLeader e = elLeader e"

definition FencingToken :: "Elector \<Rightarrow> int" where
  "FencingToken e = elToken e"

text \<open>
  The callbacks are closures over the elector and over the state \<open>'a\<close> of the program around it. They
  interact with the outside world too, so they take and return the session.
\<close>

type_synonym 'a callback = "Elector \<Rightarrow> 'a \<times> session \<Rightarrow> 'a \<times> session"

definition tick :: "'a callback \<Rightarrow> 'a callback \<Rightarrow> Elector \<times> 'a \<times> session \<Rightarrow> Elector \<times> 'a \<times> session" where
  "tick onBecomeLeader onLoseLeadership = (\<lambda>(e, a, s).
     if elLeader e then
       (case ExtendLease (elPartition e) (elInstanceID e) (elToken e) s of
          (Inl err, s1) \<Rightarrow>
            (let e' = e\<lparr>elLeader := False, elToken := 0\<rparr> in (e', onLoseLeadership e' (a, s1)))
        | (Inr _, s1) \<Rightarrow> (e, a, s1))
     else
       (case AcquireLock (elPartition e) (elInstanceID e) s of
          (Inl err, s1) \<Rightarrow> (e, a, s1)
        | (Inr (token, acquired), s1) \<Rightarrow>
            if acquired then
              (let e' = e\<lparr>elLeader := True, elToken := token\<rparr> in (e', onBecomeLeader e' (a, s1)))
            else (e, a, s1)))"

text \<open>The branch \<open>ctx.Done()\<close> of \<open>Run\<close>; the error of the release is logged.\<close>

definition run_done :: "Elector \<times> session \<Rightarrow> Elector \<times> session" where
  "run_done = (\<lambda>(e, s).
     if elLeader e
     then (e\<lparr>elLeader := False, elToken := 0\<rparr>, snd (ReleaseLock (elPartition e) (elInstanceID e) s))
     else (e, s))"

text \<open>The loop of \<open>Run\<close> with its two callbacks.\<close>

definition elector_Run ::
  "'a callback \<Rightarrow> 'a callback \<Rightarrow> branch list \<Rightarrow> Elector \<times> 'a \<times> session \<Rightarrow> (Elector \<times> 'a \<times> session) \<times> bool" where
  "elector_Run onBecomeLeader onLoseLeadership =
     ticker_loop (\<lambda>(e, a, s). let (e', s') = run_done (e, s) in (e', a, s')) (tick onBecomeLeader onLoseLeadership)"

text \<open>An elector whose loop returned does not believe to lead and carries no token.\<close>

lemma elector_Run_returns:
  assumes "elector_Run f g bs (e, w) = ((e', w'), True)" and "\<not> elLeader e \<Longrightarrow> elToken e = 0"
  shows "\<not> elLeader e' \<and> elToken e' = 0"
proof -
  let ?run = "ticker_loop (\<lambda>(e, a, s). let (e', s') = run_done (e, s) in (e', a, s')) (tick f g)"
  have "snd (?run bs x) \<longrightarrow> (\<not> elLeader (fst x) \<longrightarrow> elToken (fst x) = 0) \<longrightarrow>
      \<not> elLeader (fst (fst (?run bs x))) \<and> elToken (fst (fst (?run bs x))) = 0" for x
  proof (induction bs arbitrary: x)
    case (Cons b bs)
    show ?case
    proof (cases b)
      case CtxDone
      then show ?thesis by (auto simp: run_done_def split: prod.split)
    next
      case Ticked
      have "\<not> elLeader (fst (tick f g x)) \<longrightarrow> elToken (fst (tick f g x)) = 0" if "\<not> elLeader (fst x) \<longrightarrow> elToken (fst x) = 0"
        using that by (auto simp: tick_def Let_def split: prod.split sum.split)
      with Ticked Cons.IH [of "tick f g x"] show ?thesis by simp
    qed
  qed simp
  from this [of "(e, w)"] assms show ?thesis by (auto simp: elector_Run_def)
qed

section \<open>The instance (main.go)\<close>

text \<open>
  What \<open>main\<close> keeps: the registry and the token of the matching service, whether the consumer pointer
  is set, whether its goroutine still runs, and whether \<open>consumerCancel\<close> is set. The Redis store is
  shared by all instances; each callback sees its present value.
\<close>

record Instance =
  inEngines :: EngineManager
  inToken :: int
  matchConsumer :: bool
  consumerRunning :: bool
  consumerCancel :: bool

definition new_instance :: Instance where
  "new_instance = \<lparr>inEngines = NewEngineManager, inToken = 0, matchConsumer = False,
     consumerRunning = False, consumerCancel = False\<rparr>"

text \<open>
  Becoming leader: the steps of the closure in order. The errors of the restore and of the topic
  creation are logged and the start goes on; without a consumer the instance stays leader.
\<close>

definition onBecomeLeader :: "bool \<Rightarrow> (Instance \<times> redis) callback" where
  "onBecomeLeader cached el = (\<lambda>((a, st), s).
     let a1 = a\<lparr>inEngines := Reset (inEngines a), inToken := FencingToken el\<rparr>;
         (restored, s1) = RestoreEngineSnapshot (inEngines a1) s;
         engines = (case restored of Inl _ \<Rightarrow> inEngines a1 | Inr mgr \<Rightarrow> mgr);
         s2 = s1\<lparr>calls := Suc (calls s1)\<rparr>;
         sub = \<lparr>subBus = True, subCache = cached, subToken = (\<lambda>_. inToken a1), ctxDone = (\<lambda>_. False)\<rparr>;
         m = snd (SyncRecoveredOrderBooks sub 20 \<lparr>engineManager = engines, store = st, sess = s2\<rparr>);
         a2 = a1\<lparr>inEngines := engineManager m, consumerCancel := True\<rparr>;
         s3 = (sess m)\<lparr>calls := Suc (calls (sess m))\<rparr>
     in if outage (sess m) (calls (sess m)) then ((a2, store m), s3)
        else ((a2\<lparr>matchConsumer := True, consumerRunning := True\<rparr>, store m), s3))"

text \<open>
  Losing the leadership: the token is cleared first, the consumer's context is cancelled and the
  callback waits for the goroutine, which ends because its context is cancelled.
\<close>

definition onLoseLeadership :: "(Instance \<times> redis) callback" where
  "onLoseLeadership el = (\<lambda>((a, st), s).
     let a1 = a\<lparr>inToken := 0\<rparr>;
         a2 = (if consumerCancel a1 then a1\<lparr>consumerCancel := False, consumerRunning := False\<rparr> else a1);
         a3 = (if matchConsumer a2 then a2\<lparr>matchConsumer := False\<rparr> else a2)
     in ((a3, st), s))"

text \<open>
  Shutdown: cancelling the global context makes \<open>Run\<close> take its \<open>ctx.Done()\<close> branch, and \<open>main\<close> waits
  for the consumer when there is one. The result says whether that wait returns: the goroutine ends only
  when its own context is cancelled, which nothing on this path does.
\<close>

definition shutdown :: "Elector \<times> Instance \<times> session \<Rightarrow> (Elector \<times> Instance \<times> session) \<times> bool" where
  "shutdown = (\<lambda>(e, a, s).
     let (e', s') = run_done (e, s) in ((e', a, s'), matchConsumer a \<longrightarrow> \<not> consumerRunning a))"

end
