(* ===== verification/Election_Correct.thy ===== *)
theory Election_Correct
  imports Election Settlement_Correct Matching_Correct
begin

text \<open>
  Safety of the leader election over every run of a cluster of matching engine instances: instances that
  start, tick, stop, crash and consume in any order, with lost replies, outages and arbitrary clocks.
\<close>

abbreviation global_lock :: string where "global_lock \<equiv> ''matching-engine:global''"

section \<open>What the statements do to the lock\<close>

text \<open>Holder and token of a lock stay the same, or a new holder gets a greater token.\<close>

definition holder :: "string \<Rightarrow> DB \<Rightarrow> (string \<times> int) option" where
  "holder part d = map_option (\<lambda>l. (lLeaderID l, lFencingToken l)) (lock_of part d)"

definition granted_to :: "string \<Rightarrow> string \<Rightarrow> DB \<Rightarrow> DB \<Rightarrow> int \<Rightarrow> bool" where
  "granted_to part i d d' t \<longleftrightarrow> holder part d' = Some (i, t) \<and> t < 2 ^ 63 \<and>
     (case holder part d of None \<Rightarrow> t = 1 | Some (j, u) \<Rightarrow> t = u + 1)"

lemma upsert_lock_Inr:
  assumes "upsert_lock part i expires t d = Inr (token, d')"
  shows "granted_to part i d d' token"
proof (cases "lock_of part d")
  case None
  with assms show ?thesis
    by (auto simp: upsert_lock_def granted_to_def holder_def lock_of_def find_snoc split: if_splits)
next
  case (Some l)
  from Some have l: "lPartition l = part" by (auto simp: lock_of_def find_Some_iff)
  with Some assms show ?thesis
    by (auto simp: upsert_lock_def granted_to_def holder_def lock_of_def find_update_where split: if_splits)
qed

lemma extend_stmt_holder: "extend_stmt part i tok expires d = Inr (n, d') \<Longrightarrow> holder p d' = holder p d"
  unfolding extend_stmt_def holder_def lock_of_def Let_def
  by (auto intro!: map_find_update_where)

lemma release_stmt_holder: "release_stmt part i d = Inr (n, d') \<Longrightarrow> holder p d' = holder p d"
  unfolding release_stmt_def holder_def lock_of_def
  by (auto intro!: map_find_update_where)

section \<open>What the operations do\<close>

lemma pool_stmt_effect:
  assumes "pool_stmt f s = (r, s')"
  shows "(\<exists>x d. f (db s) = Inr (x, d) \<and> db s' = d \<and> (r = Inr x \<or> r = Inl ErrConn)) \<or>
    (db s' = db s \<and> (\<exists>e. r = Inl e \<and> (e = ErrConn \<or> f (db s) = Inl e)))"
  using assms by (auto simp: pool_stmt_def Let_def split: sum.splits if_splits prod.splits)

lemma AcquireLock_effect:
  assumes "AcquireLock part i s = (r, s')"
  shows "case r of
      Inr (t, True) \<Rightarrow> granted_to part i (db s) (db s') t
    | _ \<Rightarrow> db s' = db s \<or> (\<exists>t. granted_to part i (db s) (db s') t)"
proof -
  let ?f = "upsert_lock part i (clock s (Suc (calls s)) + leaseDuration) (clock s (calls s))"
  let ?s1 = "s\<lparr>calls := Suc (Suc (calls s))\<rparr>"
  obtain q s2 where q: "pool_stmt ?f ?s1 = (q, s2)" by (cases "pool_stmt ?f ?s1")
  have run: "AcquireLock part i s = (case q of
      Inr t \<Rightarrow> (Inr (t, True), s2)
    | Inl e \<Rightarrow> (if errors_is e ErrNoRows then Inr (0, False) else Inl (ErrWrap ''acquire leader lock'' e), s2))"
    using q by (auto simp: AcquireLock_def bind_def catch_def now_def ret_def fail_def split: sum.splits)
  from pool_stmt_effect [OF q]
  consider (stored) x where "?f (db ?s1) = Inr (x, db s2)" "q = Inr x \<or> q = Inl ErrConn"
    | (kept) e where "q = Inl e" "db s2 = db s"
    by auto
  then show ?thesis
  proof cases
    case stored
    with upsert_lock_Inr [OF stored(1)] assms run show ?thesis by (auto split: if_splits)
  next
    case kept
    with assms run show ?thesis by (auto split: if_splits)
  qed
qed

lemma ExtendLease_effect:
  assumes "ExtendLease part i tok s = (r, s')"
  shows "holder p (db s') = holder p (db s)"
proof -
  let ?f = "extend_stmt part i tok (clock s (calls s) + leaseDuration)" and ?s1 = "s\<lparr>calls := Suc (calls s)\<rparr>"
  obtain q s2 where q: "pool_stmt ?f ?s1 = (q, s2)" by (cases "pool_stmt ?f ?s1")
  have "s' = s2"
    using assms q by (auto simp: ExtendLease_def bind_def wrap_def catch_def now_def ret_def fail_def
        split: sum.splits if_splits)
  with pool_stmt_effect [OF q] show ?thesis by (auto dest: extend_stmt_holder)
qed

lemma ReleaseLock_effect: "ReleaseLock part i s = (r, s') \<Longrightarrow> holder p (db s') = holder p (db s)"
  unfolding ReleaseLock_def by (drule pool_stmt_effect) (auto dest: release_stmt_holder)

lemma SyncRecovered_db: "db (sess (snd (SyncRecoveredOrderBooks sub depth m))) = db (sess m)"
proof -
  have "db (sess (fold (\<lambda>symbol m. let (mgr, eng) = GetEngine (engineManager m) symbol in
      OnOrderBookUpdate sub symbol (GetOrderBookSnapshot eng depth) (m\<lparr>engineManager := mgr\<rparr>)) xs m)) = db (sess m)" for xs
  proof (induction xs arbitrary: m)
    case (Cons x xs)
    then show ?case
      using OnOrderBookUpdate_effect [OF refl] by (simp add: case_prod_beta Let_def)
  qed simp
  then show ?thesis by (simp add: SyncRecoveredOrderBooks_def Let_def)
qed

lemma RestoreEngineSnapshot_db: "RestoreEngineSnapshot mgr s = (r, s') \<Longrightarrow> db s' = db s"
proof -
  have "frame id (RestoreEngineSnapshot mgr)" unfolding RestoreEngineSnapshot_def by (intro frames)
  then show "RestoreEngineSnapshot mgr s = (r, s') \<Longrightarrow> db s' = db s" by (auto dest: frameD)
qed

lemma onBecomeLeader_effect:
  assumes "onBecomeLeader cached e ((a, st), s) = ((a', st'), s')"
  shows "db s' = db s \<and> inToken a' = elToken e"
proof -
  let ?a1 = "a\<lparr>inEngines := Reset (inEngines a), inToken := FencingToken e\<rparr>"
  obtain r s1 where r: "RestoreEngineSnapshot (inEngines ?a1) s = (r, s1)" by (cases "RestoreEngineSnapshot (inEngines ?a1) s")
  let ?sub = "\<lparr>subBus = True, subCache = cached, subToken = (\<lambda>_. inToken ?a1), ctxDone = (\<lambda>_. False)\<rparr>"
  let ?m0 = "\<lparr>engineManager = case r of Inl _ \<Rightarrow> inEngines ?a1 | Inr mgr \<Rightarrow> mgr, store = st,
      sess = s1\<lparr>calls := Suc (calls s1)\<rparr>\<rparr>"
  let ?m = "snd (SyncRecoveredOrderBooks ?sub 20 ?m0)"
  have "db (sess ?m) = db s"
    unfolding SyncRecovered_db using RestoreEngineSnapshot_db [OF r] by simp
  moreover have "db s' = db (sess ?m) \<and> inToken a' = FencingToken e"
    using assms r by (auto simp: onBecomeLeader_def Let_def split: if_splits)
  ultimately show ?thesis by (simp add: FencingToken_def)
qed

lemma onLoseLeadership_effect:
  "onLoseLeadership e ((a, st), s) = ((a', st'), s') \<Longrightarrow> s' = s \<and> st' = st \<and> inToken a' = 0 \<and>
     \<not> matchConsumer a' \<and> (consumerCancel a \<longrightarrow> \<not> consumerRunning a')"
  by (auto simp: onLoseLeadership_def Let_def split: if_splits)

text \<open>
  A tick, seen from the lock and from the instance: it stays as it is, it loses the leadership and
  clears its token, or it wins with the token of the lock.
\<close>

lemma tick_effect:
  assumes "tick (onBecomeLeader cached) onLoseLeadership (e, (a, st), s) = (e', (a', st'), s')"
  shows "e' = e \<and> a' = a \<and> (holder global_lock (db s') = holder global_lock (db s) \<or>
            \<not> elLeader e \<and> (\<exists>t. granted_to (elPartition e) (elInstanceID e) (db s) (db s') t)) \<or>
         elLeader e \<and> e' = e\<lparr>elLeader := False, elToken := 0\<rparr> \<and> inToken a' = 0 \<and>
            holder global_lock (db s') = holder global_lock (db s) \<or>
         \<not> elLeader e \<and> elLeader e' \<and> elPartition e' = elPartition e \<and> elInstanceID e' = elInstanceID e \<and>
            inToken a' = elToken e' \<and> granted_to (elPartition e) (elInstanceID e) (db s) (db s') (elToken e')"
proof (cases "elLeader e")
  case True
  obtain r s1 where r: "ExtendLease (elPartition e) (elInstanceID e) (elToken e) s = (r, s1)"
    by (cases "ExtendLease (elPartition e) (elInstanceID e) (elToken e) s")
  show ?thesis
  proof (cases r)
    case (Inl err)
    with True assms r have "e' = e\<lparr>elLeader := False, elToken := 0\<rparr>"
      and "onLoseLeadership e' ((a, st), s1) = ((a', st'), s')"
      by (auto simp: tick_def Let_def)
    with onLoseLeadership_effect [OF this(2)] ExtendLease_effect [OF r] True show ?thesis by simp
  next
    case (Inr u)
    with True assms r ExtendLease_effect [OF r] show ?thesis by (auto simp: tick_def)
  qed
next
  case False
  obtain r s1 where r: "AcquireLock (elPartition e) (elInstanceID e) s = (r, s1)"
    by (cases "AcquireLock (elPartition e) (elInstanceID e) s")
  note acq = AcquireLock_effect [OF r]
  show ?thesis
  proof (cases "\<exists>t. r = Inr (t, True)")
    case True
    then obtain t where t: "r = Inr (t, True)" ..
    with False assms r have "e' = e\<lparr>elLeader := True, elToken := t\<rparr>"
      and "onBecomeLeader cached e' ((a, st), s1) = ((a', st'), s')"
      by (auto simp: tick_def Let_def)
    with onBecomeLeader_effect [OF this(2)] acq t False show ?thesis by (simp add: granted_to_def)
  next
    case lost: False
    then have "e' = e \<and> a' = a \<and> s' = s1"
      using False assms r by (auto simp: tick_def Let_def split: sum.splits if_splits)
    moreover have "db s1 = db s \<or> (\<exists>t. granted_to (elPartition e) (elInstanceID e) (db s) (db s1) t)"
      using acq lost by (auto split: sum.splits prod.splits bool.splits)
    ultimately show ?thesis using False by auto
  qed
qed

section \<open>The cluster\<close>

type_synonym nodes = "string \<Rightarrow> (Elector \<times> Instance) option"

text \<open>
  \<open>g\<close> records every leadership that was granted to an instance, newest first. A node's consumer may
  run concurrently with the callback that clears its token, so each load sees the token or 0. Anything
  else (the other services, clocks, outages) is \<open>environment\<close>: it leaves the locks alone.
\<close>

inductive cluster :: "bool \<Rightarrow> (int \<times> string) list \<Rightarrow> nodes \<Rightarrow> redis \<Rightarrow> session \<Rightarrow> bool" for cached where
  start: "locks (db s) = [] \<Longrightarrow> cluster cached [] (\<lambda>_. None) st s"
| join: "cluster cached g ns st s \<Longrightarrow> ns i = None \<Longrightarrow>
    cluster cached g (ns(i \<mapsto> (NewElector global_lock i, new_instance))) st s"
| tick: "cluster cached g ns st s \<Longrightarrow> ns i = Some (e, a) \<Longrightarrow>
    tick (onBecomeLeader cached) onLoseLeadership (e, (a, st), s) = (e', (a', st'), s') \<Longrightarrow>
    cluster cached ((if elLeader e' \<and> \<not> elLeader e then [(elToken e', i)] else []) @ g) (ns(i \<mapsto> (e', a'))) st' s'"
| stop: "cluster cached g ns st s \<Longrightarrow> ns i = Some (e, a) \<Longrightarrow> shutdown (e, a, s) = ((e', a', s'), returns) \<Longrightarrow>
    cluster cached g (ns(i \<mapsto> (e', a'))) st s'"
| crash: "cluster cached g ns st s \<Longrightarrow> cluster cached g (ns(i := None)) st s"
| consume: "cluster cached g ns st s \<Longrightarrow> ns i = Some (e, a) \<Longrightarrow> consumerRunning a \<Longrightarrow>
    (\<And>n. subToken sub n \<in> {inToken a, 0}) \<Longrightarrow>
    MatchingHandleEvents d1 d2 d3 sub (v :: string) \<lparr>engineManager = inEngines a, store = st, sess = s\<rparr> = Some (r, m') \<Longrightarrow>
    cluster cached g (ns(i \<mapsto> (e, a\<lparr>inEngines := engineManager m'\<rparr>))) (store m') (sess m')"
| environment: "cluster cached g ns st s \<Longrightarrow> locks (db s') = locks (db s) \<Longrightarrow> cluster cached g ns st' s'"

definition node_ok :: "(int \<times> string) list \<Rightarrow> string \<Rightarrow> Elector \<times> Instance \<Rightarrow> bool" where
  "node_ok g i = (\<lambda>(e, a). elInstanceID e = i \<and> elPartition e = global_lock \<and>
     (inToken a \<noteq> 0 \<longrightarrow> (inToken a, i) \<in> set g) \<and> (elLeader e \<longrightarrow> elToken e = inToken a \<and> inToken a \<noteq> 0))"

definition lock_ok :: "(int \<times> string) list \<Rightarrow> (string \<times> int) option \<Rightarrow> bool" where
  "lock_ok g h \<longleftrightarrow> sorted_wrt (>) (map fst g) \<and>
     (\<forall>(t, i) \<in> set g. 0 < t \<and> (\<exists>j u. h = Some (j, u) \<and> (t < u \<or> t = u \<and> i = j))) \<and>
     (\<forall>j u. h = Some (j, u) \<longrightarrow> 0 < u \<and> u < 2 ^ 63)"

definition cluster_ok :: "(int \<times> string) list \<Rightarrow> nodes \<Rightarrow> DB \<Rightarrow> bool" where
  "cluster_ok g ns d \<longleftrightarrow> lock_ok g (holder global_lock d) \<and> (\<forall>i n. ns i = Some n \<longrightarrow> node_ok g i n)"

lemma node_ok_Cons: "node_ok g i n \<Longrightarrow> node_ok (x # g) i n"
  by (auto simp: node_ok_def)

lemma lock_ok_granted:
  assumes "lock_ok g (holder global_lock d)" and "granted_to global_lock i d d' t"
  shows "lock_ok g (holder global_lock d')" and "lock_ok ((t, i) # g) (holder global_lock d')"
  using assms unfolding lock_ok_def granted_to_def
  by (fastforce split: option.splits prod.splits)+

lemma cluster_ok_node:
  "cluster_ok g ns d \<Longrightarrow> node_ok g i n \<Longrightarrow> cluster_ok g (ns(i \<mapsto> n)) d"
  by (auto simp: cluster_ok_def)

lemma cluster_ok_same_holder:
  "cluster_ok g ns d \<Longrightarrow> holder global_lock d' = holder global_lock d \<Longrightarrow> cluster_ok g ns d'"
  by (simp add: cluster_ok_def)

lemma shutdown_effect:
  "shutdown (e, a, s) = ((e', a', s'), returns) \<Longrightarrow> a' = a \<and> \<not> elLeader e' \<and> elInstanceID e' = elInstanceID e \<and>
     elPartition e' = elPartition e \<and> holder p (db s') = holder p (db s)"
  using ReleaseLock_effect [OF prod.collapse [symmetric], of p "elPartition e" "elInstanceID e" s]
  by (auto simp: shutdown_def run_done_def split: if_splits)

lemma cluster_invariant: "cluster cached g ns st s \<Longrightarrow> cluster_ok g ns (db s)"
proof (induction rule: cluster.induct)
  case (start s st)
  then show ?case by (simp add: cluster_ok_def lock_ok_def holder_def lock_of_def)
next
  case (join g ns st s i)
  have "node_ok g i (NewElector global_lock i, new_instance)"
    by (simp add: node_ok_def NewElector_def new_instance_def)
  with join.IH show ?case by (rule cluster_ok_node)
next
  case (tick g ns st s i e a e' a' st' s')
  from tick.IH tick.hyps(2) have n: "node_ok g i (e, a)" and lk: "lock_ok g (holder global_lock (db s))"
    by (auto simp: cluster_ok_def)
  then have ids: "elInstanceID e = i" "elPartition e = global_lock" by (auto simp: node_ok_def)
  from tick_effect [OF tick.hyps(3)] show ?case
  proof (elim disjE conjE)
    assume same: "e' = e" "a' = a" "holder global_lock (db s') = holder global_lock (db s)"
    with tick.IH n have "cluster_ok g ns (db s')" by (auto intro: cluster_ok_same_holder)
    with same n show ?thesis by (auto simp: cluster_ok_def)
  next
    assume same: "e' = e" "a' = a" and "\<exists>t. granted_to (elPartition e) (elInstanceID e) (db s) (db s') t"
    with lk ids have "lock_ok g (holder global_lock (db s'))" by (auto intro: lock_ok_granted)
    with tick.IH same n show ?thesis by (auto simp: cluster_ok_def)
  next
    assume lost: "e' = e\<lparr>elLeader := False, elToken := 0\<rparr>" "inToken a' = 0"
      "holder global_lock (db s') = holder global_lock (db s)"
    with n have "node_ok g i (e', a')" by (auto simp: node_ok_def)
    from cluster_ok_node [OF cluster_ok_same_holder [OF tick.IH lost(3)] this] lost(1)
    show ?thesis by (simp add: fun_upd_def)
  next
    assume won: "\<not> elLeader e" "elLeader e'" "elPartition e' = elPartition e" "elInstanceID e' = elInstanceID e"
      "inToken a' = elToken e'" "granted_to (elPartition e) (elInstanceID e) (db s) (db s') (elToken e')"
    with lk ids have lk': "lock_ok ((elToken e', i) # g) (holder global_lock (db s'))" by (auto intro: lock_ok_granted)
    with won ids have "node_ok ((elToken e', i) # g) i (e', a')" by (auto simp: node_ok_def lock_ok_def)
    with lk' tick.IH won show ?thesis by (auto simp: cluster_ok_def intro: node_ok_Cons)
  qed
next
  case (stop g ns st s i e a e' a' s' returns)
  from stop.IH stop.hyps(2) have "node_ok g i (e, a)" by (auto simp: cluster_ok_def)
  with shutdown_effect [OF stop.hyps(3)] have "node_ok g i (e', a')" by (auto simp: node_ok_def)
  with stop.IH shutdown_effect [OF stop.hyps(3), of global_lock] show ?case
    by (intro cluster_ok_node [OF cluster_ok_same_holder]) auto
next
  case (consume g ns st s i e a sub d1 d2 d3 v r m')
  from consume.IH consume.hyps(2) have "node_ok g i (e, a\<lparr>inEngines := engineManager m'\<rparr>)"
    by (auto simp: cluster_ok_def node_ok_def)
  moreover have "db (sess m') = db s"
    using MatchingHandleEvents_run [OF consume.hyps(5)] by simp
  ultimately show ?case using consume.IH by (intro cluster_ok_node) simp_all
next
  case (environment g ns st s s' st')
  then show ?case by (auto intro: cluster_ok_same_holder simp: holder_def lock_of_def)
qed (auto simp: cluster_ok_def)

section \<open>Safety and progress\<close>

text \<open>
  C33: fencing. In every reachable state of the cluster two instances never work under the same token,
  and of any two instances that hold a token at least one is stale: the settlement consumer drops its
  events. No two leaderships ever got the same token, and tokens stay within a BIGINT.
\<close>

theorem at_most_one_effective_leader:
  assumes "cluster cached g ns st s" and "ns i = Some (e, a)" and "ns j = Some (e', a')" and "i \<noteq> j"
    and "inToken a \<noteq> 0" and "inToken a' \<noteq> 0"
  shows "inToken a \<noteq> inToken a' \<and> (stale (inToken a) (db s) \<or> stale (inToken a') (db s)) \<and>
    distinct (map fst g) \<and> fst ` set g \<subseteq> {1 ..< 2 ^ 63}"
proof -
  from cluster_invariant [OF assms(1)] have lk: "lock_ok g (holder global_lock (db s))"
    and n: "node_ok g i (e, a)" "node_ok g j (e', a')" using assms(2,3) by (auto simp: cluster_ok_def)
  from n assms(5,6) have g: "(inToken a, i) \<in> set g" "(inToken a', j) \<in> set g"
    by (auto simp: node_ok_def)
  from lk have each: "\<And>t i. (t, i) \<in> set g \<Longrightarrow> 0 < t \<and> (\<exists>j u. holder global_lock (db s) = Some (j, u) \<and> (t < u \<or> t = u \<and> i = j))"
    by (auto simp: lock_ok_def)
  from each [OF g(1)] obtain k u where h: "holder global_lock (db s) = Some (k, u)"
    and t1: "0 < inToken a" "inToken a < u \<or> inToken a = u \<and> i = k" by auto
  from each [OF g(2)] h have t2: "0 < inToken a'" "inToken a' < u \<or> inToken a' = u \<and> j = k" by auto
  have "sorted_wrt (>) xs \<Longrightarrow> distinct xs" for xs :: "int list" by (induction xs) auto
  with lk have d: "distinct (map fst g)" by (auto simp: lock_ok_def)
  with g assms(4) have "inToken a \<noteq> inToken a'" by (auto dest: eq_key_imp_eq_value)
  moreover have "stale x (db s)" if "0 < x" "x < u" for x
    using h that by (auto simp: stale_def holder_def lock_of_def)
  moreover have "fst ` set g \<subseteq> {1 ..< 2 ^ 63}"
  proof
    fix t assume "t \<in> fst ` set g"
    with each h have "0 < t" "t \<le> u" by fastforce+
    moreover have "u < 2 ^ 63" using lk h by (auto simp: lock_ok_def)
    ultimately show "t \<in> {1 ..< 2 ^ 63}" by auto
  qed
  ultimately show ?thesis using t1 t2 assms(4) d by blast
qed

text \<open>
  C34: takeover. A standby that ticks when the lock is free or its lease has expired, with the database
  answering, becomes leader with a token greater than every earlier one and hands it to its matching
  service; one that ticks under a live lease stays standby.
\<close>

theorem expired_lease_is_taken:
  assumes "\<not> elLeader e" and "\<not> outage s (calls s + 2)"
    and "length (elPartition e) \<le> 128" and "length (elInstanceID e) \<le> 255"
    and "\<forall>l. lock_of (elPartition e) (db s) = Some l \<longrightarrow> lFencingToken l + 1 < 2 ^ 63"
    and "tick (onBecomeLeader cached) onLoseLeadership (e, (a, st), s) = (e', (a', st'), s')"
  shows "if \<forall>l. lock_of (elPartition e) (db s) = Some l \<longrightarrow> lExpiresAt l < clock s (calls s)
    then elLeader e' \<and> inToken a' = elToken e' \<and>
      (\<forall>l. lock_of (elPartition e) (db s) = Some l \<longrightarrow> lFencingToken l < elToken e')
    else e' = e \<and> a' = a \<and> db s' = db s"
proof -
  let ?f = "upsert_lock (elPartition e) (elInstanceID e) (clock s (Suc (calls s)) + leaseDuration) (clock s (calls s))"
  let ?s1 = "s\<lparr>calls := Suc (Suc (calls s))\<rparr>"
  show ?thesis
  proof (cases "\<forall>l. lock_of (elPartition e) (db s) = Some l \<longrightarrow> lExpiresAt l < clock s (calls s)")
    case True
    then obtain t d where f: "?f (db s) = Inr (t, d)"
      and new: "\<forall>l. lock_of (elPartition e) (db s) = Some l \<longrightarrow> lFencingToken l < t"
      using assms(3-5) by (cases "lock_of (elPartition e) (db s)") (auto simp: upsert_lock_def)
    let ?s2 = "?s1\<lparr>calls := Suc (Suc (Suc (calls s))), db := d\<rparr>"
    have "AcquireLock (elPartition e) (elInstanceID e) s = (Inr (t, True), ?s2)"
      using f assms(2) by (simp add: AcquireLock_def bind_def catch_def now_def ret_def pool_stmt_def Let_def)
    with assms(1,6) have "e' = e\<lparr>elLeader := True, elToken := t\<rparr>"
      and "onBecomeLeader cached e' ((a, st), ?s2) = ((a', st'), s')"
      by (auto simp: tick_def Let_def)
    with onBecomeLeader_effect [OF this(2)] new True show ?thesis by simp
  next
    case False
    then have "?f (db s) = Inl ErrNoRows"
      using assms(3,4) by (auto simp: upsert_lock_def)
    then have "AcquireLock (elPartition e) (elInstanceID e) s = (Inr (0, False), ?s1\<lparr>calls := Suc (Suc (Suc (calls s)))\<rparr>)"
      using assms(2) by (simp add: AcquireLock_def bind_def catch_def now_def ret_def pool_stmt_def Let_def)
    with assms(1,6) False show ?thesis by (auto simp: tick_def)
  qed
qed

section \<open>Concrete runs and recorded findings\<close>

definition demo_quiet :: "(nat \<Rightarrow> millis) \<Rightarrow> session" where
  "demo_quiet clk = \<lparr>db = \<lparr>users = [], accounts = [], orders = [], trades = [], outbox = [], locks = []\<rparr>,
     kafka = [], calls = 0, in_tx = False, aborted = False, outage = (\<lambda>_. False), lost_ack = (\<lambda>_. False),
     clock = clk, fresh = of_nat\<rparr>"

text \<open>Instance a wins at time 0 and stalls; b takes the lease over at 20 seconds, a still believes to lead.\<close>

definition demo_clock :: "nat \<Rightarrow> millis" where
  "demo_clock n = (if n < 5 then 0 else 20000)"

definition demo_tick :: "string \<Rightarrow> session \<Rightarrow> Elector \<times> (Instance \<times> redis) \<times> session" where
  "demo_tick i s = tick (onBecomeLeader False) onLoseLeadership (NewElector global_lock i, (new_instance, []), s)"

definition demo_s1 :: session where "demo_s1 = snd (snd (demo_tick ''a'' (demo_quiet demo_clock)))"

lemma demo_ticks:
  "case demo_tick ''a'' (demo_quiet demo_clock) of (e, (a, st), s) \<Rightarrow> elLeader e \<and> inToken a = 1 \<and> st = []"
  "case demo_tick ''b'' demo_s1 of (e, (a, st), s) \<Rightarrow> elLeader e \<and> inToken a = 2"
  by code_simp+

lemma two_leaders:
  "\<exists>g ns st s e a e' a'. cluster False g ns st s \<and> ns ''a'' = Some (e, a) \<and> ns ''b'' = Some (e', a') \<and>
     elLeader e \<and> elLeader e' \<and> inToken a = 1 \<and> inToken a' = 2"
proof -
  let ?s0 = "demo_quiet demo_clock"
  obtain e a st1 where 1: "demo_tick ''a'' ?s0 = (e, (a, st1), demo_s1)" by (metis demo_s1_def prod.collapse)
  with demo_ticks(1) have a: "elLeader e" "inToken a = 1" "st1 = []" by auto
  obtain e' a' st2 s2 where 2: "demo_tick ''b'' demo_s1 = (e', (a', st2), s2)" by (metis prod.collapse)
  with demo_ticks(2) have b: "elLeader e'" "inToken a' = 2" by auto
  let ?n0 = "(NewElector global_lock ''a'', new_instance)" and ?m0 = "(NewElector global_lock ''b'', new_instance)"
  have "cluster False [] (\<lambda>_. None) [] ?s0" by (rule cluster.start) (simp add: demo_quiet_def)
  then have "cluster False [] ((\<lambda>_. None)(''a'' \<mapsto> ?n0)) [] ?s0" by (rule cluster.join) simp
  then have "cluster False [] (((\<lambda>_. None)(''a'' \<mapsto> ?n0))(''b'' \<mapsto> ?m0)) [] ?s0" by (rule cluster.join) simp
  from cluster.tick [OF this, of "''a''" "fst ?n0" "snd ?n0" e a st1 demo_s1] 1 a
  obtain g where "cluster False g (((\<lambda>_. None)(''a'' \<mapsto> ?n0, ''b'' \<mapsto> ?m0))(''a'' \<mapsto> (e, a))) [] demo_s1"
    by (auto simp: demo_tick_def)
  from cluster.tick [OF this, of "''b''" "fst ?m0" "snd ?m0" e' a' st2 s2] 2
  obtain g' where "cluster False g' ((((\<lambda>_. None)(''a'' \<mapsto> ?n0, ''b'' \<mapsto> ?m0))(''a'' \<mapsto> (e, a)))(''b'' \<mapsto> (e', a'))) st2 s2"
    by (auto simp: demo_tick_def)
  then show ?thesis
    using a b by (intro exI [of _ g'] exI [of _ "[''a'' \<mapsto> (e, a), ''b'' \<mapsto> (e', a')]"] exI [of _ st2]
        exI [of _ s2] exI [of _ e] exI [of _ a] exI [of _ e'] exI [of _ a']) simp
qed

theorem at_most_one_effective_leader_witness:
  "\<exists>(ns :: nodes) (s :: session) e a e' a'. ns ''a'' = Some (e, a) \<and> ns ''b'' = Some (e', a') \<and>
     (stale (inToken a) (db s) \<or> stale (inToken a') (db s))"
proof -
  from two_leaders obtain g ns st s e a e' a' where w: "cluster False g ns st s"
    "ns ''a'' = Some (e, a)" "ns ''b'' = Some (e', a')" "inToken a = 1" "inToken a' = 2" by blast
  from at_most_one_effective_leader [OF w(1-3)] w(4,5)
  have "stale (inToken a) (db s) \<or> stale (inToken a') (db s)" by simp
  with w(2,3) show ?thesis
    by (intro exI [of _ ns] exI [of _ s] exI [of _ e] exI [of _ a] exI [of _ e'] exI [of _ a']) simp
qed

theorem expired_lease_is_taken_witness:
  "elLeader (fst (demo_tick ''a'' (demo_quiet demo_clock)))"
proof -
  obtain e a st s where 1: "demo_tick ''a'' (demo_quiet demo_clock) = (e, (a, st), s)" by (metis prod.collapse)
  have none: "lock_of p (db (demo_quiet demo_clock)) = None" for p by (simp add: lock_of_def demo_quiet_def)
  from expired_lease_is_taken [OF _ _ _ _ _ 1 [unfolded demo_tick_def]] 1 none show ?thesis
    by (simp add: NewElector_def demo_quiet_def)
qed

text \<open>
  Shutdown of a leader: the lock is released while the consumer goes on under its token, and \<open>main\<close> waits
  for a goroutine that nothing cancels.
\<close>

lemma shutdown_leaves_consumer:
  "matchConsumer a \<Longrightarrow> consumerRunning a \<Longrightarrow> shutdown (e, a, s) = ((e', a', s'), returns) \<Longrightarrow>
     \<not> returns \<and> consumerRunning a' \<and> inToken a' = inToken a \<and> \<not> elLeader e'"
  by (auto simp: shutdown_def run_done_def split: if_splits)

end
