(* ===== verification/Consumer.thy ===== *)
theory Consumer
  imports Tx
begin

text \<open>
  The Kafka consumer: src/internal/infrastructure/kafka/consumer.go. One batch of a partition is a list
  of records with their offsets; the handler, the commit and every look at the context take a position
  of the session. \<open>cancelled n\<close> says whether the context is cancelled at position \<open>n\<close>, a commit fails in
  an outage and may have been stored all the same (\<open>lost_ack\<close>). A record whose handler never succeeds
  under a live context is retried for ever, which is the value \<open>None\<close>. \<open>waits\<close> and \<open>acknowledged\<close> record
  the back-off times and the offsets for which the handler returned nil.
\<close>

section \<open>NewConsumer\<close>

datatype offset = AtEnd | AtStart

definition reset_offset :: "string \<Rightarrow> offset" where
  "reset_offset cfg = (if cfg = '''' \<or> cfg = ''latest'' then AtEnd else if cfg = ''earliest'' then AtStart else AtEnd)"

section \<open>One record\<close>

record 'a Consumer =
  app :: 'a
  csess :: session
  committed :: nat
  waits :: "millis list"
  acknowledged :: "nat list"

type_synonym ('v, 'a) handler = "'v \<Rightarrow> 'a \<times> session \<Rightarrow> ((error + unit) \<times> 'a \<times> session) option"

datatype outcome = Committed | Stopped

definition next_backoff :: "millis \<Rightarrow> millis" where
  "next_backoff backoff = (let b = backoff * 2 in if b > 30000 then 30000 else b)"

definition look :: "(nat \<Rightarrow> bool) \<Rightarrow> 'a Consumer \<Rightarrow> bool \<times> 'a Consumer" where
  "look cancelled w = (cancelled (calls (csess w)), w\<lparr>csess := (csess w)\<lparr>calls := Suc (calls (csess w))\<rparr>\<rparr>)"

text \<open>The \<open>select\<close> between the timer and the context.\<close>

definition back_off :: "(nat \<Rightarrow> bool) \<Rightarrow> millis \<Rightarrow> 'a Consumer \<Rightarrow> bool \<times> 'a Consumer" where
  "back_off cancelled backoff w =
     (let (stop, w1) = look cancelled w in if stop then (True, w1) else (False, w1\<lparr>waits := waits w1 @ [backoff]\<rparr>))"

definition commit_record :: "nat \<Rightarrow> 'a Consumer \<Rightarrow> bool \<times> 'a Consumer" where
  "commit_record off w =
     (let s = csess w;
          w1 = w\<lparr>csess := s\<lparr>calls := Suc (calls s)\<rparr>\<rparr>
      in if \<not> outage s (calls s) then (True, w1\<lparr>committed := Suc off\<rparr>)
         else (False, if lost_ack s (calls s) then w1\<lparr>committed := Suc off\<rparr> else w1))"

text \<open>The handler's call; its success is acknowledged to the loop.\<close>

definition run_handler :: "('v, 'a) handler \<Rightarrow> nat \<Rightarrow> 'v \<Rightarrow> 'a Consumer \<Rightarrow> ((error + unit) \<times> 'a Consumer) option" where
  "run_handler h off v w =
     (case h v (app w, csess w) of
        None \<Rightarrow> None
      | Some (r, a, s) \<Rightarrow>
          (let w1 = w\<lparr>app := a, csess := s\<rparr>
           in Some (r, case r of Inl _ \<Rightarrow> w1 | Inr _ \<Rightarrow> w1\<lparr>acknowledged := acknowledged w1 @ [off]\<rparr>)))"

text \<open>The inner \<open>for\<close> loop: handle, commit, and start over after a back-off when either fails.\<close>

partial_function (option) consume_record ::
  "(nat \<Rightarrow> bool) \<Rightarrow> ('v, 'a) handler \<Rightarrow> nat \<Rightarrow> 'v \<Rightarrow> millis \<Rightarrow> 'a Consumer \<Rightarrow> (outcome \<times> 'a Consumer) option" where
  "consume_record cancelled h off v backoff w =
     (let (stop, w1) = look cancelled w in
      if stop then Some (Stopped, w1)
      else case run_handler h off v w1 of
        None \<Rightarrow> None
      | Some (Inl e, w2) \<Rightarrow>
          (let (stop, w3) = back_off cancelled backoff w2 in
           if stop then Some (Stopped, w3) else consume_record cancelled h off v (next_backoff backoff) w3)
      | Some (Inr _, w2) \<Rightarrow>
          (let (ok, w3) = commit_record off w2 in
           if ok then Some (Committed, w3)
           else (let (stop, w4) = look cancelled w3 in
                 if stop then Some (Stopped, w4)
                 else (let (stop, w5) = back_off cancelled backoff w4 in
                       if stop then Some (Stopped, w5)
                       else consume_record cancelled h off v (next_backoff backoff) w5))))"

text \<open>\<open>EachRecord\<close>: a \<open>return\<close> of the closure leaves only the record, the next one looks again.\<close>

fun consume_batch ::
  "(nat \<Rightarrow> bool) \<Rightarrow> ('v, 'a) handler \<Rightarrow> (nat \<times> 'v) list \<Rightarrow> 'a Consumer \<Rightarrow> (outcome list \<times> 'a Consumer) option" where
  "consume_batch cancelled h [] w = Some ([], w)"
| "consume_batch cancelled h ((off, v) # recs) w =
     (case consume_record cancelled h off v 100 w of
        None \<Rightarrow> None
      | Some (x, w1) \<Rightarrow>
          (case consume_batch cancelled h recs w1 of
             None \<Rightarrow> None
           | Some (xs, w2) \<Rightarrow> Some (x # xs, w2)))"

text \<open>
  The goroutine of \<open>Start\<close> over the polls it makes, each with its errors and its records in the order
  \<open>EachRecord\<close> visits them: a poll that carries an error is skipped as a whole. The list ends where
  \<open>PollFetches\<close> waits for records.
\<close>

fun Start ::
  "(nat \<Rightarrow> bool) \<Rightarrow> ('v, 'a) handler \<Rightarrow> (error list \<times> (nat \<times> 'v) list) list \<Rightarrow> 'a Consumer \<Rightarrow>
   (outcome list \<times> 'a Consumer) option" where
  "Start cancelled h [] w = Some ([], w)"
| "Start cancelled h ((errs, recs) # polls) w =
     (let (stop, w1) = look cancelled w in
      if stop then Some ([], w1)
      else if length errs > 0 then Start cancelled h polls w1
      else case consume_batch cancelled h recs w1 of
        None \<Rightarrow> None
      | Some (xs, w2) \<Rightarrow>
          (case Start cancelled h polls w2 of
             None \<Rightarrow> None
           | Some (ys, w3) \<Rightarrow> Some (xs @ ys, w3)))"

section \<open>At least once, in order, with bounded waits\<close>

lemma next_backoff_bounds: "100 \<le> b \<Longrightarrow> b \<le> 30000 \<Longrightarrow> 100 \<le> next_backoff b \<and> next_backoff b \<le> 30000 \<and> b \<le> next_backoff b"
  by (auto simp: next_backoff_def Let_def)

text \<open>What one record's loop leaves behind, when it returns.\<close>

definition record_done :: "(nat \<Rightarrow> bool) \<Rightarrow> nat \<Rightarrow> millis \<Rightarrow> 'a Consumer \<Rightarrow> outcome \<Rightarrow> 'a Consumer \<Rightarrow> bool" where
  "record_done cancelled off backoff w x w' \<longleftrightarrow>
     (\<exists>k. acknowledged w' = acknowledged w @ replicate k off \<and> (x = Committed \<longrightarrow> 0 < k) \<and>
          (committed w' = Suc off \<and> 0 < k \<or> x = Stopped \<and> committed w' = committed w)) \<and>
     (\<exists>ws. waits w' = waits w @ ws \<and> sorted ws \<and> (\<forall>b \<in> set ws. backoff \<le> b \<and> b \<le> 30000)) \<and>
     (x = Stopped \<longrightarrow> (\<exists>n < calls (csess w'). cancelled n))"

lemma look_keeps: "look cancelled w = (b, w') \<Longrightarrow> acknowledged w' = acknowledged w \<and> committed w' = committed w \<and>
     waits w' = waits w \<and> (b \<longrightarrow> (\<exists>n < calls (csess w'). cancelled n))"
  by (auto simp: look_def)

lemma back_off_keeps:
  "back_off cancelled backoff w = (stop, w') \<Longrightarrow> acknowledged w' = acknowledged w \<and> committed w' = committed w \<and>
     waits w' = (if stop then waits w else waits w @ [backoff]) \<and> (stop \<longrightarrow> (\<exists>n < calls (csess w'). cancelled n))"
  by (auto simp: back_off_def look_def split: if_splits)

lemma commit_record_keeps:
  "commit_record off w = (ok, w') \<Longrightarrow> acknowledged w' = acknowledged w \<and> waits w' = waits w \<and>
     (committed w' = Suc off \<or> \<not> ok \<and> committed w' = committed w)"
  by (auto simp: commit_record_def Let_def split: if_splits)

lemma run_handler_keeps:
  "run_handler h off v w = Some (r, w') \<Longrightarrow> committed w' = committed w \<and> waits w' = waits w \<and>
     acknowledged w' = acknowledged w @ (case r of Inl _ \<Rightarrow> [] | Inr _ \<Rightarrow> [off])"
  by (auto simp: run_handler_def Let_def split: option.splits sum.splits)

lemmas consumer_keeps = look_keeps back_off_keeps commit_record_keeps run_handler_keeps

lemma record_doneI:
  assumes "acknowledged w' = acknowledged w @ replicate k off" and "waits w' = waits w @ ws"
    and "x = Committed \<Longrightarrow> 0 < k" and "committed w' = Suc off \<and> 0 < k \<or> x = Stopped \<and> committed w' = committed w"
    and "sorted ws" and "\<And>b. b \<in> set ws \<Longrightarrow> backoff \<le> b \<and> b \<le> 30000"
    and "x = Stopped \<Longrightarrow> \<exists>n < calls (csess w'). cancelled n"
  shows "record_done cancelled off backoff w x w'"
  using assms unfolding record_done_def by blast

lemma record_done_retry:
  assumes "record_done cancelled off (next_backoff backoff) w1 x w'" and "100 \<le> backoff" "backoff \<le> 30000"
    and "acknowledged w1 = acknowledged w @ replicate j off" and "waits w1 = waits w @ [backoff]"
    and "committed w1 = committed w \<or> committed w1 = Suc off \<and> 0 < j"
  shows "record_done cancelled off backoff w x w'"
proof -
  from assms(1) obtain k ws where k: "acknowledged w' = acknowledged w1 @ replicate k off" "x = Committed \<Longrightarrow> 0 < k"
    "committed w' = Suc off \<and> 0 < k \<or> x = Stopped \<and> committed w' = committed w1"
    and ws: "waits w' = waits w1 @ ws" "sorted ws" "\<And>b. b \<in> set ws \<Longrightarrow> next_backoff backoff \<le> b \<and> b \<le> 30000"
    and st: "x = Stopped \<Longrightarrow> \<exists>n < calls (csess w'). cancelled n"
    by (auto simp: record_done_def)
  note nb = next_backoff_bounds [OF assms(2,3)]
  show ?thesis
  proof (rule record_doneI [where k = "j + k" and ws = "backoff # ws"])
    show "sorted (backoff # ws)" using ws(2,3) nb by fastforce
    show "b \<in> set (backoff # ws) \<Longrightarrow> backoff \<le> b \<and> b \<le> 30000" for b
      using ws(3) [of b] nb assms(3) by auto
    show "committed w' = Suc off \<and> 0 < j + k \<or> x = Stopped \<and> committed w' = committed w"
      using k(3) assms(6) by auto
  qed (use k ws(1) st assms(4,5) in \<open>simp_all add: replicate_add\<close>)
qed

lemmas consume_record_induct = consume_record.raw_induct [rotated, consumes 1, case_names step]

lemma consume_record_done:
  "consume_record cancelled h off v backoff w = Some y \<Longrightarrow>
     100 \<le> backoff \<longrightarrow> backoff \<le> 30000 \<longrightarrow> record_done cancelled off backoff w (fst y) (snd y)"
proof (induction cancelled h off v backoff w y rule: consume_record_induct)
  case (step self cancelled h off v backoff w y)
  note IH = step(1)
  show ?case
  proof (intro impI)
    assume b: "100 \<le> backoff" "backoff \<le> 30000"
    note nb = next_backoff_bounds [OF b]
    obtain stop1 w1 where l1: "look cancelled w = (stop1, w1)" by (cases "look cancelled w")
    show "record_done cancelled off backoff w (fst y) (snd y)"
    proof (cases stop1)
      case True
      with step(2) l1 consumer_keeps(1) [OF l1] show ?thesis
        by (intro record_doneI [where k = 0 and ws = "[]"]) auto
    next
      case False
      then obtain r w2 where h: "run_handler h off v w1 = Some (r, w2)"
        using step(2) l1 by (auto split: option.splits)
      show ?thesis
      proof (cases r)
        case (Inl e)
        obtain stop3 w3 where b3: "back_off cancelled backoff w2 = (stop3, w3)" by (cases "back_off cancelled backoff w2")
        note keep = consumer_keeps(1) [OF l1] consumer_keeps(4) [OF h] consumer_keeps(2) [OF b3]
        show ?thesis
        proof (cases stop3)
          case True
          with step(2) l1 False h Inl b3 keep show ?thesis
            by (intro record_doneI [where k = 0 and ws = "[]"]) auto
        next
          case go: False
          with step(2) l1 False h Inl b3 have "self cancelled h off v (next_backoff backoff) w3 = Some y" by simp
          from IH [OF this] nb have "record_done cancelled off (next_backoff backoff) w3 (fst y) (snd y)" by simp
          from record_done_retry [OF this b, of w 0] keep Inl go show ?thesis by simp
        qed
      next
        case (Inr u)
        obtain ok w3 where c: "commit_record off w2 = (ok, w3)" by (cases "commit_record off w2")
        obtain stop4 w4 where l4: "look cancelled w3 = (stop4, w4)" by (cases "look cancelled w3")
        obtain stop5 w5 where b5: "back_off cancelled backoff w4 = (stop5, w5)" by (cases "back_off cancelled backoff w4")
        note keep = consumer_keeps(1) [OF l1] consumer_keeps(4) [OF h] consumer_keeps(3) [OF c]
          consumer_keeps(1) [OF l4] consumer_keeps(2) [OF b5]
        have ack: "acknowledged w3 = acknowledged w @ replicate 1 off" "waits w3 = waits w"
          "committed w3 = Suc off \<or> \<not> ok \<and> committed w3 = committed w" using keep Inr by simp_all
        consider (committed) "ok" "y = (Committed, w3)"
          | (stopped) "\<not> ok" "stop4" "y = (Stopped, w4)"
          | (stopped5) "\<not> ok" "\<not> stop4" "stop5" "y = (Stopped, w5)"
          | (again) "\<not> ok" "\<not> stop4" "\<not> stop5" "self cancelled h off v (next_backoff backoff) w5 = Some y"
          using step(2) l1 False h Inr c l4 b5 by (auto split: if_splits)
        then show ?thesis
        proof cases
          case again
          from IH [OF again(4)] nb have "record_done cancelled off (next_backoff backoff) w5 (fst y) (snd y)" by simp
          from record_done_retry [OF this b, of w 1] ack keep again show ?thesis by auto
        qed (use ack keep in \<open>auto intro!: record_doneI [where k = 1 and ws = "[]"]\<close>)
      qed
    qed
  qed
qed

text \<open>Once the context is cancelled the rest of the batch is skipped.\<close>

lemma consume_record_cancelled:
  "cancelled (calls (csess w)) \<Longrightarrow>
     consume_record cancelled h off v backoff w = Some (Stopped, snd (look cancelled w))"
  by (subst consume_record.simps) (simp add: look_def)

lemma consume_batch_cancelled:
  assumes "\<And>m n. m \<le> n \<Longrightarrow> cancelled m \<Longrightarrow> cancelled n" and "cancelled (calls (csess w))"
    and "consume_batch cancelled h recs w = Some (xs, w')"
  shows "set xs \<subseteq> {Stopped} \<and> acknowledged w' = acknowledged w \<and> committed w' = committed w \<and> waits w' = waits w"
  using assms(2,3)
proof (induction recs arbitrary: w xs)
  case (Cons r recs)
  obtain off v where r: "r = (off, v)" by (cases r)
  let ?w1 = "snd (look cancelled w)"
  have "cancelled (calls (csess ?w1))"
    using Cons.prems(1) assms(1) [of "calls (csess w)" "Suc (calls (csess w))"] by (simp add: look_def)
  moreover obtain ys where "consume_batch cancelled h recs ?w1 = Some (ys, w')" "xs = Stopped # ys"
    using Cons.prems consume_record_cancelled [of cancelled w h off v 100] r by (auto split: option.splits)
  ultimately show ?case
    using Cons.IH [of ?w1 ys] by (auto simp: look_def)
qed simp

text \<open>
  C35: delivery. When the consumer is done with a batch (a cancelled context stays cancelled), the records
  it acknowledged are a prefix of the batch, each handled successfully at least once and in order; the
  group's offset moved past a record only when that record is among them, and past all of them when the
  batch ran to its end. Every back-off lies between 100 ms and 30 s.
\<close>

theorem consumer_at_least_once:
  assumes "\<And>m n. m \<le> n \<Longrightarrow> cancelled m \<Longrightarrow> cancelled n"
    and "consume_batch cancelled h recs w = Some (xs, w')"
  shows "\<exists>handled rest rs ws. recs = handled @ rest \<and>
    acknowledged w' = acknowledged w @ rs \<and> at_least_once rs (map fst handled) \<and>
    committed w' \<in> insert (committed w) (Suc ` fst ` set handled) \<and>
    (set xs \<subseteq> {Committed} \<longrightarrow> rest = [] \<and> (recs \<noteq> [] \<longrightarrow> committed w' = Suc (fst (last recs)))) \<and>
    waits w' = waits w @ ws \<and> set ws \<subseteq> {100..30000}"
  using assms(2)
proof (induction recs arbitrary: w xs)
  case Nil
  then show ?case by (intro exI [of _ "[]"]) auto
next
  case (Cons r recs)
  obtain off v where r: "r = (off, v)" by (cases r)
  obtain x w1 ys where 1: "consume_record cancelled h off v 100 w = Some (x, w1)"
    and 2: "consume_batch cancelled h recs w1 = Some (ys, w')" and xs: "xs = x # ys"
    using Cons.prems r by (auto split: option.splits)
  from consume_record_done [OF 1] have "record_done cancelled off 100 w x w1" by simp
  then obtain k ws1 where k: "acknowledged w1 = acknowledged w @ replicate k off" "x = Committed \<longrightarrow> 0 < k"
    "committed w1 = Suc off \<and> 0 < k \<or> x = Stopped \<and> committed w1 = committed w"
    and ws1: "waits w1 = waits w @ ws1" "\<forall>b \<in> set ws1. 100 \<le> b \<and> b \<le> 30000"
    and st: "x = Stopped \<longrightarrow> (\<exists>n < calls (csess w1). cancelled n)"
    unfolding record_done_def by blast
  show ?case
  proof (cases x)
    case Committed
    from Cons.IH [OF 2] obtain handled rest rs ws where IH: "recs = handled @ rest"
      "acknowledged w' = acknowledged w1 @ rs" "at_least_once rs (map fst handled)"
      "committed w' \<in> insert (committed w1) (Suc ` fst ` set handled)"
      "set ys \<subseteq> {Committed} \<longrightarrow> rest = [] \<and> (recs \<noteq> [] \<longrightarrow> committed w' = Suc (fst (last recs)))"
      "waits w' = waits w1 @ ws" "set ws \<subseteq> {100..30000}" by blast
    have "at_least_once (replicate k off @ rs) (map fst (r # handled))"
      using k(2) Committed IH(3) r by (auto intro: at_least_once.more)
    moreover have "committed w' \<in> insert (committed w) (Suc ` fst ` set (r # handled))"
      using IH(4) k(3) Committed r by auto
    moreover have "recs = [] \<Longrightarrow> committed w' = Suc off"
      using 2 k(3) Committed by simp
    ultimately show ?thesis
      using IH k(1) ws1 xs r
      by (intro exI [of _ "r # handled"] exI [of _ rest] exI [of _ "replicate k off @ rs"] exI [of _ "ws1 @ ws"]) auto
  next
    case Stopped
    with st assms(1) have "cancelled (calls (csess w1))" by (meson less_imp_le)
    from consume_batch_cancelled [OF assms(1) this 2]
    have same: "acknowledged w' = acknowledged w1" "committed w' = committed w1" "waits w' = waits w1" by auto
    show ?thesis
    proof (cases "0 < k")
      case True
      with same k ws1 xs Stopped r show ?thesis
        by (intro exI [of _ "[r]"] exI [of _ recs] exI [of _ "replicate k off"] exI [of _ ws1])
           (auto intro: at_least_once_replicate)
    next
      case False
      with same k ws1 xs Stopped r show ?thesis
        by (intro exI [of _ "[]"] exI [of _ "r # recs"] exI [of _ "[]"] exI [of _ ws1]) auto
    qed
  qed
qed

text \<open>Two records; the first attempt at the first one fails and is repeated after 100 ms.\<close>

declare consume_record.simps [code]

definition no_rows :: DB where
  "no_rows = \<lparr>users = [], accounts = [], orders = [], trades = [], outbox = [], locks = []\<rparr>"

definition demo_handler :: "(string, string list) handler" where
  "demo_handler v = (\<lambda>(log, s).
     Some (if log = [] then Inl (ErrMsg ''unavailable'') else Inr (), log @ [v], s))"

definition demo_consumer :: "string list Consumer" where
  "demo_consumer = \<lparr>app = [], csess = \<lparr>db = no_rows, kafka = [], calls = 0, in_tx = False, aborted = False,
       outage = (\<lambda>_. False), lost_ack = (\<lambda>_. False), clock = int, fresh = of_nat\<rparr>,
     committed = 7, waits = [], acknowledged = []\<rparr>"

theorem consumer_at_least_once_witness:
  "\<exists>w'. consume_batch (\<lambda>_. False) demo_handler [(7, ''a''), (8, ''b'')] demo_consumer = Some ([Committed, Committed], w') \<and>
     app w' = [''a'', ''a'', ''b''] \<and> acknowledged w' = [7, 8] \<and> committed w' = 9 \<and> waits w' = [100] \<and>
     (\<exists>rs. acknowledged w' = rs \<and> at_least_once rs [7, 8])"
proof -
  let ?run = "consume_batch (\<lambda>_. False) demo_handler [(7, ''a''), (8, ''b'')] demo_consumer"
  have run: "map_option (\<lambda>(xs, w'). (xs, app w', acknowledged w', committed w', waits w')) ?run =
      Some ([Committed, Committed], [''a'', ''a'', ''b''], [7, 8], 9, [100])"
    by code_simp
  then obtain w' where w': "?run = Some ([Committed, Committed], w')" "app w' = [''a'', ''a'', ''b'']"
    "acknowledged w' = [7, 8]" "committed w' = 9" "waits w' = [100]" by auto
  moreover have "acknowledged demo_consumer = []" by (simp add: demo_consumer_def)
  ultimately show ?thesis
    using consumer_at_least_once [OF _ w'(1)] by auto
qed

text \<open>
  A recorded finding: records that come with a poll in which another partition failed are skipped, and
  the commit of a later record of their partition moves the group past them: 7 is never handled.
\<close>

lemma erroneous_poll_loses_records:
  "map_option (\<lambda>(xs, w). (acknowledged w, committed w))
     (Start (\<lambda>_. False) demo_handler [([ErrMsg ''partition 2''], [(7, ''a'')]), ([], [(8, ''b'')])] demo_consumer) =
   Some ([8], 9)"
  by code_simp

end
