(* ===== verification/Middleware.thy ===== *)
theory Middleware
  imports Prelude
begin

text \<open>
  The gateway's middleware: src/internal/middleware. Times are arguments (seconds as rationals, the
  readings of \<open>time.Now()\<close> in the order the code makes them), so are requests and the handler behind
  the middleware. \<open>json.Marshal\<close> and \<open>json.Unmarshal\<close> of an entry are inverse to each other, so Redis
  holds entries. \<open>golang.org/x/time/rate\<close> is not part of the repository: a limiter is an argument.
\<close>

type_synonym seconds = rat

section \<open>Idempotency stores (idempotency.go, redis_idempotency_store.go)\<close>

record idempotencyEntry =
  ieStatusCode :: int
  ieBody :: string
  ieExpiresAt :: seconds

type_synonym memoryIdempotencyStore = "(string \<times> idempotencyEntry) list"

definition NewMemoryIdempotencyStore :: memoryIdempotencyStore where
  "NewMemoryIdempotencyStore = []"

definition memory_Get :: "string \<Rightarrow> seconds \<Rightarrow> memoryIdempotencyStore \<Rightarrow> idempotencyEntry option" where
  "memory_Get key t store =
     (case map_of store key of
        None \<Rightarrow> None
      | Some entry \<Rightarrow> if t > ieExpiresAt entry then None else Some entry)"

definition memory_Set ::
  "string \<Rightarrow> int \<Rightarrow> string \<Rightarrow> seconds \<Rightarrow> seconds \<Rightarrow> memoryIdempotencyStore \<Rightarrow> memoryIdempotencyStore" where
  "memory_Set key statusCode body ttl t store =
     (let entry = \<lparr>ieStatusCode = statusCode, ieBody = body, ieExpiresAt = t + ttl\<rparr>
      in alist_upd key (\<lambda>_. entry) entry store)"

text \<open>One tick of \<open>cleanupLoop\<close>.\<close>

definition memory_cleanup :: "seconds \<Rightarrow> memoryIdempotencyStore \<Rightarrow> memoryIdempotencyStore" where
  "memory_cleanup t store = filter (\<lambda>(key, entry). \<not> t > ieExpiresAt entry) store"

text \<open>
  Redis: values with the time their TTL ends. \<open>rdUp\<close> says whether the server answers; an error of
  \<open>Get\<close> is a miss and one of \<open>Set\<close> is only logged.
\<close>

record redis_server =
  rdUp :: bool
  rdEntries :: "(string \<times> (idempotencyEntry \<times> seconds)) list"

definition idempotency_key :: "string \<Rightarrow> string" where
  "idempotency_key key = ''exchange:idempotency:'' @ key"

definition redis_Get :: "string \<Rightarrow> seconds \<Rightarrow> redis_server \<Rightarrow> idempotencyEntry option" where
  "redis_Get key t rd =
     (if \<not> rdUp rd then None
      else case map_of (rdEntries rd) (idempotency_key key) of
        None \<Rightarrow> None
      | Some (entry, ends) \<Rightarrow> if t \<le> ends then Some entry else None)"

definition redis_Set :: "string \<Rightarrow> int \<Rightarrow> string \<Rightarrow> seconds \<Rightarrow> seconds \<Rightarrow> redis_server \<Rightarrow> redis_server" where
  "redis_Set key statusCode body ttl t rd =
     (let entry = \<lparr>ieStatusCode = statusCode, ieBody = body, ieExpiresAt = t + ttl\<rparr>
      in if rdUp rd
         then rd\<lparr>rdEntries := alist_upd (idempotency_key key) (\<lambda>_. (entry, t + ttl)) (entry, t + ttl) (rdEntries rd)\<rparr>
         else rd)"

section \<open>The idempotency middleware\<close>

text \<open>What a handler does to its \<open>ResponseWriter\<close>, and what \<open>bodyLogWriter\<close> keeps of it.\<close>

datatype writer_call = WriteHeader int | Write string

record bodyLogWriter =
  statusCode :: int
  blwBody :: string

definition blw_call :: "writer_call \<Rightarrow> bodyLogWriter \<Rightarrow> bodyLogWriter" where
  "blw_call c w =
     (case c of
        WriteHeader code \<Rightarrow> w\<lparr>statusCode := code\<rparr>
      | Write b \<Rightarrow> (let w' = (if statusCode w = 0 then w\<lparr>statusCode := 200\<rparr> else w) in w'\<lparr>blwBody := blwBody w' @ b\<rparr>))"

definition blw_run :: "writer_call list \<Rightarrow> bodyLogWriter" where
  "blw_run cs = fold blw_call cs \<lparr>statusCode = 0, blwBody = ''''\<rparr>"

text \<open>The client's view of the writes: status 200 when the handler sets none.\<close>

type_synonym response = "int \<times> string"

definition client_response :: "writer_call list \<Rightarrow> response" where
  "client_response cs = (let w = blw_run cs in (if statusCode w = 0 then 200 else statusCode w, blwBody w))"

type_synonym ('req, 'w) http_handler = "'req \<Rightarrow> 'w \<Rightarrow> writer_call list \<times> 'w"

definition IdempotencyMiddleware ::
  "(string \<Rightarrow> seconds \<Rightarrow> 'st \<Rightarrow> idempotencyEntry option) \<Rightarrow>
   (string \<Rightarrow> int \<Rightarrow> string \<Rightarrow> seconds \<Rightarrow> seconds \<Rightarrow> 'st \<Rightarrow> 'st) \<Rightarrow> seconds \<Rightarrow> ('req, 'w) http_handler \<Rightarrow>
   string \<Rightarrow> 'req \<Rightarrow> seconds \<Rightarrow> seconds \<Rightarrow> 'st \<times> 'w \<Rightarrow> response \<times> 'st \<times> 'w" where
  "IdempotencyMiddleware lookup insert_entry ttl next_handler key req t t' = (\<lambda>(store, w).
     if key = '''' then (let (cs, w') = next_handler req w in (client_response cs, store, w'))
     else case lookup key t store of
       Some entry \<Rightarrow> ((ieStatusCode entry, ieBody entry), store, w)
     | None \<Rightarrow>
         (let (cs, w') = next_handler req w;
              blw = blw_run cs
          in (client_response cs,
              if statusCode blw < 400 \<and> length (blwBody blw) > 0
              then insert_entry key (statusCode blw) (blwBody blw) ttl t' store else store,
              w')))"

text \<open>Requests served one after another, each with its key and the times of the look-up and of the store.\<close>

fun serve_all ::
  "(string \<Rightarrow> seconds \<Rightarrow> 'st \<Rightarrow> idempotencyEntry option) \<Rightarrow>
   (string \<Rightarrow> int \<Rightarrow> string \<Rightarrow> seconds \<Rightarrow> seconds \<Rightarrow> 'st \<Rightarrow> 'st) \<Rightarrow> seconds \<Rightarrow> ('req, 'w) http_handler \<Rightarrow>
   (string \<times> 'req \<times> seconds \<times> seconds) list \<Rightarrow> 'st \<times> 'w \<Rightarrow> 'st \<times> 'w" where
  "serve_all lookup insert_entry ttl h [] sw = sw"
| "serve_all lookup insert_entry ttl h ((key, req, t, t') # rs) sw =
     serve_all lookup insert_entry ttl h rs (snd (IdempotencyMiddleware lookup insert_entry ttl h key req t t' sw))"

text \<open>\<open>net/http\<close> panics on a status code below 100.\<close>

definition valid_writes :: "writer_call list \<Rightarrow> bool" where
  "valid_writes cs \<longleftrightarrow> (\<forall>c \<in> set cs. case c of WriteHeader code \<Rightarrow> 100 \<le> code | Write b \<Rightarrow> True)"

lemma blw_run_status: "valid_writes cs \<Longrightarrow> blwBody (blw_run cs) \<noteq> '''' \<Longrightarrow> 100 \<le> statusCode (blw_run cs)"
proof -
  have "valid_writes cs \<Longrightarrow> statusCode w = 0 \<and> blwBody w = '''' \<or> 100 \<le> statusCode w \<Longrightarrow>
      statusCode (fold blw_call cs w) = 0 \<and> blwBody (fold blw_call cs w) = '''' \<or> 100 \<le> statusCode (fold blw_call cs w)" for w
  proof (induction cs arbitrary: w)
    case (Cons c cs)
    from Cons.prems have "statusCode (blw_call c w) = 0 \<and> blwBody (blw_call c w) = '''' \<or> 100 \<le> statusCode (blw_call c w)"
      by (auto simp: blw_call_def Let_def valid_writes_def split: writer_call.splits)
    with Cons show ?case by (simp add: valid_writes_def)
  qed simp
  from this [of "\<lparr>statusCode = 0, blwBody = ''''\<rparr>"]
  show "valid_writes cs \<Longrightarrow> blwBody (blw_run cs) \<noteq> '''' \<Longrightarrow> 100 \<le> statusCode (blw_run cs)"
    by (auto simp: blw_run_def)
qed

section \<open>The contract of an idempotency store\<close>

text \<open>
  What the middleware relies on: a result that was set is found, unchanged, until its TTL is over, and
  setting one key does not disturb another.
\<close>

locale idempotency_store =
  fixes get :: "string \<Rightarrow> seconds \<Rightarrow> 'st \<Rightarrow> idempotencyEntry option"
    and set_entry :: "string \<Rightarrow> int \<Rightarrow> string \<Rightarrow> seconds \<Rightarrow> seconds \<Rightarrow> 'st \<Rightarrow> 'st"
    and available :: "'st \<Rightarrow> bool"
  assumes get_set: "available st \<Longrightarrow> t' \<le> t + ttl \<Longrightarrow>
      \<exists>e. get k t' (set_entry k code body ttl t st) = Some e \<and> ieStatusCode e = code \<and> ieBody e = body"
    and get_other: "k' \<noteq> k \<Longrightarrow> get k' t' (set_entry k code body ttl t st) = get k' t' st"
    and available_set: "available (set_entry k code body ttl t st) = available st"
begin

abbreviation mw where "mw \<equiv> IdempotencyMiddleware get set_entry"

text \<open>A result within its TTL answers for the handler, whatever the request is.\<close>

lemma hit:
  assumes "key \<noteq> ''''" and "get key t st = Some e"
  shows "mw ttl h key req t t' (st, w) = ((ieStatusCode e, ieBody e), st, w)"
  using assms by (simp add: IdempotencyMiddleware_def)

text \<open>Requests under other keys do not disturb it.\<close>

lemma other_keys:
  assumes "key' \<noteq> key" and "mw ttl h key' req t t' (st, w) = (r, st', w')"
  shows "get key x st' = get key x st \<and> (available st \<longrightarrow> available st')"
  using assms by (auto simp: IdempotencyMiddleware_def get_other available_set Let_def split: if_splits option.splits prod.splits)

lemma others_keep:
  "key \<notin> fst ` set rs \<Longrightarrow> get key x (fst (serve_all get set_entry ttl h rs (st, w))) = get key x st"
proof (induction rs arbitrary: st w)
  case (Cons r rs)
  obtain key' req t t' where r: "r = (key', req, t, t')" by (cases r)
  obtain y st' w' where m: "mw ttl h key' req t t' (st, w) = (y, st', w')" by (cases "mw ttl h key' req t t' (st, w)")
  with other_keys [OF _ m] Cons r show ?case by auto
qed simp

text \<open>
  The first request under a key runs the handler; if it answered with a status below 400 and a body, a
  later one under the same key, within the TTL and after any requests under other keys, gets the same
  answer and the handler does not run.
\<close>

lemma stored:
  assumes "key \<noteq> ''''" and "available st" and "get key t st = None" and "valid_writes (fst (h req w))"
    and "mw ttl h key req t t' (st, w) = (r, st1, w1)" and "fst r < 400" and "snd r \<noteq> ''''" and "t2 \<le> t' + ttl"
  shows "\<exists>e. get key t2 st1 = Some e \<and> r = (ieStatusCode e, ieBody e)"
proof -
  obtain cs where cs: "h req w = (cs, w1)" "r = client_response cs"
    using assms(1,3,5) by (auto simp: IdempotencyMiddleware_def Let_def split: prod.splits)
  let ?b = "blw_run cs"
  have body: "blwBody ?b \<noteq> ''''" using assms(7) cs(2) by (simp add: client_response_def Let_def)
  with assms(4) cs(1) have "100 \<le> statusCode ?b" by (auto dest: blw_run_status)
  then have r: "r = (statusCode ?b, blwBody ?b)" using cs(2) by (simp add: client_response_def Let_def)
  with assms(6) body have "st1 = set_entry key (statusCode ?b) (blwBody ?b) ttl t' st"
    using assms(1,3,5) cs by (auto simp: IdempotencyMiddleware_def Let_def split: prod.splits)
  with get_set [OF assms(2,8), of key "statusCode ?b" "blwBody ?b"] r show ?thesis by auto
qed

lemma replay:
  assumes "key \<noteq> ''''" and "available st" and "get key t st = None" and "valid_writes (fst (h req w))"
    and "mw ttl h key req t t' (st, w) = (r, st1, w1)" and "fst r < 400" and "snd r \<noteq> ''''"
    and "key \<notin> fst ` set rs" and "serve_all get set_entry ttl h rs (st1, w1) = (st2, w2)" and "t2 \<le> t' + ttl"
  shows "mw ttl h key req2 t2 t3 (st2, w2) = (r, st2, w2)"
proof -
  obtain e where e: "get key t2 st1 = Some e" "r = (ieStatusCode e, ieBody e)"
    using stored [OF assms(1-7,10)] by blast
  have "get key t2 st2 = Some e"
    using others_keep [OF assms(8), of t2 ttl h st1 w1] assms(9) e(1) by simp
  from hit [OF assms(1) this] e(2) show ?thesis by simp
qed

end

interpretation mem: idempotency_store memory_Get memory_Set "\<lambda>_. True"
proof
  fix st :: memoryIdempotencyStore and t t' ttl :: seconds and k body code
  assume "t' \<le> t + ttl"
  then show "\<exists>e. memory_Get k t' (memory_Set k code body ttl t st) = Some e \<and> ieStatusCode e = code \<and> ieBody e = body"
    by (simp add: memory_Get_def memory_Set_def Let_def map_of_alist_upd)
qed (simp_all add: memory_Get_def memory_Set_def Let_def map_of_alist_upd)

interpretation rds: idempotency_store redis_Get redis_Set rdUp
proof
  fix st :: redis_server and t t' ttl :: seconds and k body code
  assume "rdUp st" "t' \<le> t + ttl"
  then show "\<exists>e. redis_Get k t' (redis_Set k code body ttl t st) = Some e \<and> ieStatusCode e = code \<and> ieBody e = body"
    by (simp add: redis_Get_def redis_Set_def Let_def map_of_alist_upd)
qed (simp_all add: redis_Get_def redis_Set_def Let_def map_of_alist_upd idempotency_key_def)

text \<open>The clean-up of the in-memory store is invisible: it drops only what would not be found.\<close>

lemma memory_cleanup_invisible:
  "distinct (map fst store) \<Longrightarrow> t \<le> t' \<Longrightarrow> memory_Get key t' (memory_cleanup t store) = memory_Get key t' store"
proof (induction store)
  case (Cons x store)
  obtain k e where x: "x = (k, e)" by (cases x)
  from Cons have IH: "memory_Get key t' (memory_cleanup t store) = memory_Get key t' store" by simp
  have "k \<notin> fst ` set (memory_cleanup t store)" using Cons.prems x by (auto simp: memory_cleanup_def)
  then have "map_of (memory_cleanup t store) k = None" by (simp add: map_of_eq_None_iff)
  with IH Cons.prems x show ?case
    by (auto simp: memory_Get_def memory_cleanup_def split: if_splits option.splits)
qed (simp add: memory_cleanup_def)

text \<open>The key alone selects the stored answer: neither the request nor the handler matters.\<close>

lemma idempotency_key_shared:
  "key \<noteq> '''' \<Longrightarrow> redis_Get key t rd = Some e \<Longrightarrow>
     IdempotencyMiddleware redis_Get redis_Set ttl h key req t t' (rd, w) =
     IdempotencyMiddleware redis_Get redis_Set ttl h' key req' t t' (rd, w)"
  by (simp add: rds.hit)

text \<open>
  Idempotency of the gateway. When a request under an idempotency key was answered with a status
  below 400 and a body, every later request under this key within the TTL gets the same answer and the
  handler behind the middleware does not run, whatever was served under other keys in between. (The key
  alone decides: the second request may come from another user or ask for something else.)
\<close>

theorem idempotent_replay:
  assumes "key \<noteq> ''''" and "rdUp rd" and "redis_Get key t rd = None" and "valid_writes (fst (h req w))"
    and "IdempotencyMiddleware redis_Get redis_Set ttl h key req t t' (rd, w) = (r, rd1, w1)"
    and "fst r < 400" and "snd r \<noteq> ''''" and "key \<notin> fst ` set rs"
    and "serve_all redis_Get redis_Set ttl h rs (rd1, w1) = (rd2, w2)" and "t2 \<le> t' + ttl"
  shows "IdempotencyMiddleware redis_Get redis_Set ttl h key req2 t2 t3 (rd2, w2) = (r, rd2, w2)"
  using assms by (rule rds.replay)

text \<open>A counting handler: the second request under the key does not reach it.\<close>

definition demo_counter :: "(string, nat) http_handler" where
  "demo_counter req n = ([WriteHeader 202, Write (''order '' @ req)], Suc n)"

theorem idempotent_replay_witness:
  "\<exists>r rd1. IdempotencyMiddleware redis_Get redis_Set 86400 demo_counter ''k'' ''1'' 0 0
        (\<lparr>rdUp = True, rdEntries = []\<rparr>, 0) = (r, rd1, 1) \<and>
     IdempotencyMiddleware redis_Get redis_Set 86400 demo_counter ''k'' ''2'' 60 60 (rd1, 1) = (r, rd1, 1)"
proof -
  let ?rd = "\<lparr>rdUp = True, rdEntries = []\<rparr>"
  obtain r rd1 where 1: "IdempotencyMiddleware redis_Get redis_Set 86400 demo_counter ''k'' ''1'' 0 0 (?rd, 0) = (r, rd1, 1)"
    "r = (202, ''order 1'')"
    by (simp add: IdempotencyMiddleware_def demo_counter_def redis_Get_def Let_def client_response_def
        blw_run_def blw_call_def)
  from idempotent_replay [OF _ _ _ _ 1(1), where rs = "[]" and ?t2.0 = 60 and ?t3.0 = 60 and ?req2.0 = "''2''"] 1
  show ?thesis
    by (auto simp: demo_counter_def valid_writes_def redis_Get_def)
qed

end
