(* ===== verification/RateLimiter.thy ===== *)
theory RateLimiter
  imports Middleware
begin

text \<open>
  Rate limiting: src/internal/middleware/rate_limiter.go and redis_rate_limiter.go. The Lua script is
  modelled over exact numbers; times are seconds. A key of Redis disappears when the server's clock
  reaches the end of its TTL. The in-memory variant keeps one limiter of golang.org/x/time/rate per key,
  which is an argument of the definitions.
\<close>

section \<open>redis_rate_limiter.go\<close>

record RedisRateLimiter =
  rlRate :: rat
  rlCapacity :: rat

definition NewRedisRateLimiter :: "int \<Rightarrow> seconds \<Rightarrow> RedisRateLimiter" where
  "NewRedisRateLimiter limit window = \<lparr>rlRate = of_int limit / window, rlCapacity = of_int limit\<rparr>"

type_synonym redis_numbers = "(string \<times> (rat \<times> seconds)) list"

definition redis_get :: "seconds \<Rightarrow> string \<Rightarrow> redis_numbers \<Rightarrow> rat option" where
  "redis_get srv k st = (case map_of st k of None \<Rightarrow> None | Some (v, ends) \<Rightarrow> if srv < ends then Some v else None)"

definition redis_setex :: "seconds \<Rightarrow> string \<Rightarrow> seconds \<Rightarrow> rat \<Rightarrow> redis_numbers \<Rightarrow> redis_numbers" where
  "redis_setex srv k ttl v st = alist_upd k (\<lambda>_. (v, srv + ttl)) (v, srv + ttl) st"

definition bucket_ttl :: "rat \<Rightarrow> rat \<Rightarrow> seconds" where
  "bucket_ttl rate capacity =
     (let fill_time = capacity / rate;
          ttl = of_int \<lfloor>fill_time * 2\<rfloor>
      in if ttl < 10 then 10 else ttl)"

definition filled :: "rat \<Rightarrow> rat \<Rightarrow> string \<Rightarrow> string \<Rightarrow> seconds \<Rightarrow> seconds \<Rightarrow> redis_numbers \<Rightarrow> rat" where
  "filled rate capacity tokens_key timestamp_key now srv st =
     (let last_tokens = (case redis_get srv tokens_key st of Some v \<Rightarrow> v | None \<Rightarrow> capacity);
          last_refreshed = (case redis_get srv timestamp_key st of Some v \<Rightarrow> v | None \<Rightarrow> 0);
          delta = max 0 (now - last_refreshed)
      in min capacity (last_tokens + delta * rate))"

definition rateLimitScript ::
  "string \<Rightarrow> string \<Rightarrow> rat \<Rightarrow> rat \<Rightarrow> seconds \<Rightarrow> seconds \<Rightarrow> redis_numbers \<Rightarrow> int \<times> redis_numbers" where
  "rateLimitScript tokens_key timestamp_key rate capacity now srv st =
     (let ttl = bucket_ttl rate capacity;
          filled_tokens = filled rate capacity tokens_key timestamp_key now srv st;
          (allowed, filled_tokens') = (if filled_tokens \<ge> 1 then (1, filled_tokens - 1) else (0, filled_tokens))
      in (allowed, redis_setex srv timestamp_key ttl now (redis_setex srv tokens_key ttl filled_tokens' st)))"

definition tokens_key :: "string \<Rightarrow> string" where
  "tokens_key ip = ''exchange:ratelimit:tokens:'' @ ip"

definition timestamp_key :: "string \<Rightarrow> string" where
  "timestamp_key ip = ''exchange:ratelimit:ts:'' @ ip"

lemma keys_differ: "tokens_key ip \<noteq> timestamp_key ip"
  by (simp add: tokens_key_def timestamp_key_def)

text \<open>An error of Redis lets the request pass.\<close>

definition redis_Allow :: "RedisRateLimiter \<Rightarrow> string \<Rightarrow> bool \<Rightarrow> seconds \<Rightarrow> seconds \<Rightarrow> redis_numbers \<Rightarrow> bool \<times> redis_numbers" where
  "redis_Allow r ip up now srv st =
     (if \<not> up then (True, st)
      else (let (res, st') = rateLimitScript (tokens_key ip) (timestamp_key ip)
                               (rlRate r) (rlCapacity r) now srv st
            in (res = 1, st')))"

section \<open>rate_limiter.go\<close>

record 'l memoryRateLimiter =
  limiters :: "(string \<times> 'l) list"
  accessed :: "(string \<times> seconds) list"

definition NewMemoryRateLimiter :: "'l memoryRateLimiter" where
  "NewMemoryRateLimiter = \<lparr>limiters = [], accessed = []\<rparr>"

definition memory_Allow ::
  "'l \<Rightarrow> (seconds \<Rightarrow> 'l \<Rightarrow> bool \<times> 'l) \<Rightarrow> string \<Rightarrow> seconds \<Rightarrow> 'l memoryRateLimiter \<Rightarrow> bool \<times> 'l memoryRateLimiter" where
  "memory_Allow new_limiter limiter_Allow key t m =
     (let ls = (case map_of (limiters m) key of None \<Rightarrow> (key, new_limiter) # limiters m | Some l \<Rightarrow> limiters m);
          l = (case map_of ls key of Some l \<Rightarrow> l | None \<Rightarrow> new_limiter);
          (ok, l') = limiter_Allow t l
      in (ok, \<lparr>limiters = alist_upd key (\<lambda>_. l') l' ls, accessed = alist_upd key (\<lambda>_. t) t (accessed m)\<rparr>))"

text \<open>One tick of \<open>cleanupLoop\<close>: limiters idle for more than \<open>ttl\<close> go.\<close>

definition limiter_cleanup :: "seconds \<Rightarrow> seconds \<Rightarrow> 'l memoryRateLimiter \<Rightarrow> 'l memoryRateLimiter" where
  "limiter_cleanup ttl t m =
     (let idle = map fst (filter (\<lambda>(key, lastSeen). t - lastSeen > ttl) (accessed m))
      in \<lparr>limiters = filter (\<lambda>(key, l). key \<notin> set idle) (limiters m),
          accessed = filter (\<lambda>(key, x). key \<notin> set idle) (accessed m)\<rparr>)"

text \<open>The middleware: 429 and no further handler, or the next handler.\<close>

definition RateLimitMiddleware ::
  "('st \<Rightarrow> bool \<times> 'st) \<Rightarrow> ('req, 'w) http_handler \<Rightarrow> 'req \<Rightarrow> 'st \<times> 'w \<Rightarrow> writer_call list \<times> 'st \<times> 'w" where
  "RateLimitMiddleware allow next_handler req = (\<lambda>(st, w).
     let (ok, st') = allow st in
     if \<not> ok then ([WriteHeader 429, Write ''rate limit exceeded''], st', w)
     else (let (cs, w') = next_handler req w in (cs, st', w')))"

section \<open>The contract of a token bucket\<close>

text \<open>
  \<open>level t st\<close> is what the bucket holds for a request at \<open>t\<close>: it never exceeds the capacity, an allowed
  request takes one token, and it refills at most at the rate. \<open>ok t st\<close> is the invariant at time \<open>t\<close>.
\<close>

locale token_bucket =
  fixes allow :: "seconds \<Rightarrow> 'st \<Rightarrow> bool \<times> 'st" and level :: "seconds \<Rightarrow> 'st \<Rightarrow> rat"
    and ok :: "seconds \<Rightarrow> 'st \<Rightarrow> bool" and rate capacity :: rat
  assumes level_capacity: "ok t st \<Longrightarrow> level t st \<le> capacity"
    and level_nonneg: "ok t st \<Longrightarrow> 0 \<le> level t st"
    and allowed_level: "ok t st \<Longrightarrow> allow t st = (True, st') \<Longrightarrow> 1 \<le> level t st"
    and refill: "ok t st \<Longrightarrow> allow t st = (b, st') \<Longrightarrow> t \<le> t' \<Longrightarrow>
      level t' st' \<le> level t st - (if b then 1 else 0) + rate * (t' - t)"
    and ok_next: "ok t st \<Longrightarrow> allow t st = (b, st') \<Longrightarrow> t \<le> t' \<Longrightarrow> ok t' st'"
    and rate_nonneg: "0 \<le> rate"
begin

fun admitted :: "seconds list \<Rightarrow> 'st \<Rightarrow> nat" where
  "admitted [] st = 0"
| "admitted (t # ts) st = (let (b, st') = allow t st in (if b then 1 else 0) + admitted ts st')"

text \<open>The requests admitted from a state are paid for by its level and by the refill.\<close>

lemma admitted_level:
  "ok t st \<Longrightarrow> sorted (t # ts) \<Longrightarrow> of_nat (admitted (t # ts) st) \<le> level t st + rate * (last (t # ts) - t)"
proof (induction ts arbitrary: t st)
  case Nil
  then show ?case using allowed_level level_nonneg by (cases "allow t st") (auto simp: Let_def)
next
  case (Cons t' ts)
  obtain b st' where a: "allow t st = (b, st')" by (cases "allow t st")
  from Cons.prems have "t \<le> t'" "sorted (t' # ts)" by auto
  with Cons.IH [OF ok_next [OF Cons.prems(1) a]]
  have "of_nat (admitted (t' # ts) st') \<le> level t' st' + rate * (last (t' # ts) - t')" by blast
  also have "\<dots> \<le> level t st - (if b then 1 else 0) + rate * (t' - t) + rate * (last (t' # ts) - t')"
    using refill [OF Cons.prems(1) a \<open>t \<le> t'\<close>] by simp
  finally have "of_nat (admitted (t' # ts) st') \<le> level t st - (if b then 1 else 0) + rate * (last (t' # ts) - t)"
    by (simp add: algebra_simps)
  moreover have "of_nat (admitted (t # t' # ts) st) = (if b then 1 else 0) + (of_nat (admitted (t' # ts) st') :: rat)"
    using a by simp
  ultimately show ?case by simp
qed

lemma admitted_bound:
  assumes "ok t st" and "sorted (t # ts)"
  shows "of_nat (admitted (t # ts) st) \<le> capacity + rate * (last (t # ts) - t)"
  using admitted_level [OF assms] level_capacity [OF assms(1)] by linarith

end

section \<open>The script is a token bucket\<close>

text \<open>
  The client's clock and the server's agree here. A key that has expired stands for a full bucket, which
  is right because the TTL is never shorter than the time the bucket takes to fill.
\<close>

lemma if_max: "(if x < c then c else x) = max c (x :: rat)"
  by (simp add: max_def)

lemma bucket_ttl_fills:
  assumes "0 < rate" shows "capacity \<le> rate * bucket_ttl rate capacity" and "0 < bucket_ttl rate capacity"
proof -
  define f where "f = capacity / rate"
  have f: "capacity = rate * f" using assms by (simp add: f_def)
  have b: "10 \<le> bucket_ttl rate capacity" "of_int \<lfloor>f * 2\<rfloor> \<le> bucket_ttl rate capacity"
    unfolding bucket_ttl_def Let_def f_def by (simp_all only: if_max max.cobounded1 max.cobounded2)
  have "f \<le> bucket_ttl rate capacity"
  proof (cases "f < 1")
    case True
    with b(1) show ?thesis by linarith
  next
    case False
    then have "f \<le> f * 2 - 1" by simp
    also have "\<dots> \<le> of_int \<lfloor>f * 2\<rfloor>" by linarith
    finally show ?thesis using b(2) by linarith
  qed
  with assms f show "capacity \<le> rate * bucket_ttl rate capacity" by (metis mult_left_mono less_imp_le)
  show "0 < bucket_ttl rate capacity" using b(1) by linarith
qed

definition bucket_ok :: "string \<Rightarrow> string \<Rightarrow> rat \<Rightarrow> rat \<Rightarrow> seconds \<Rightarrow> redis_numbers \<Rightarrow> bool" where
  "bucket_ok tk sk rate capacity t st \<longleftrightarrow>
     (case map_of st tk of
        None \<Rightarrow> map_of st sk = None
      | Some (v, ends) \<Rightarrow> 0 \<le> v \<and> v \<le> capacity \<and>
          (\<exists>u. map_of st sk = Some (u, ends) \<and> u \<le> t \<and> ends = u + bucket_ttl rate capacity))"

lemma script_state:
  assumes "tk \<noteq> sk" and "rateLimitScript tk sk rate capacity t srv st = (a, st')"
  shows "a = (if 1 \<le> filled rate capacity tk sk t srv st then 1 else 0) \<and>
    map_of st' tk = Some (filled rate capacity tk sk t srv st - of_int a, srv + bucket_ttl rate capacity) \<and>
    map_of st' sk = Some (t, srv + bucket_ttl rate capacity)"
  using assms by (auto simp: rateLimitScript_def Let_def redis_setex_def map_of_alist_upd split: if_splits)

lemma filled_bounds:
  assumes "bucket_ok tk sk rate capacity t st" and "0 < rate" and "0 \<le> capacity"
  shows "0 \<le> filled rate capacity tk sk t t st \<and> filled rate capacity tk sk t t st \<le> capacity"
proof -
  have "0 \<le> max 0 x * rate" for x using assms(2) by simp
  moreover have "0 \<le> (case redis_get t tk st of Some v \<Rightarrow> v | None \<Rightarrow> capacity)"
    using assms(1,3) by (auto simp: bucket_ok_def redis_get_def split: option.splits)
  ultimately show ?thesis using assms(3) unfolding filled_def Let_def by (simp add: add_nonneg_nonneg)
qed

lemma filled_refill:
  assumes "map_of st tk = Some (v, u + bucket_ttl rate capacity)" and "map_of st sk = Some (u, u + bucket_ttl rate capacity)"
    and "0 < rate" and "0 \<le> v" and "u \<le> t"
  shows "filled rate capacity tk sk t t st \<le> v + rate * (t - u)"
proof (cases "t < u + bucket_ttl rate capacity")
  case True
  with assms show ?thesis
    by (simp add: filled_def redis_get_def Let_def max_def mult.commute)
next
  case False
  then have "rate * bucket_ttl rate capacity \<le> rate * (t - u)" using assms(3) by simp
  with bucket_ttl_fills [OF assms(3), of capacity] assms(4) have "capacity \<le> v + rate * (t - u)" by linarith
  then show ?thesis by (simp add: filled_def Let_def min_def)
qed

lemma script_bucket:
  assumes "0 < rate" and "0 \<le> capacity" and "tk \<noteq> sk"
  shows "token_bucket (\<lambda>t st. case rateLimitScript tk sk rate capacity t t st of (a, st') \<Rightarrow> (a = 1, st'))
    (\<lambda>t st. filled rate capacity tk sk t t st) (bucket_ok tk sk rate capacity) rate capacity"
proof
  fix t t' :: seconds and st st' :: redis_numbers and b
  show "bucket_ok tk sk rate capacity t st \<Longrightarrow> filled rate capacity tk sk t t st \<le> capacity"
    and "bucket_ok tk sk rate capacity t st \<Longrightarrow> 0 \<le> filled rate capacity tk sk t t st"
    using filled_bounds [OF _ assms(1,2)] by blast+
  show "(case rateLimitScript tk sk rate capacity t t st of (a, st') \<Rightarrow> (a = 1, st')) = (True, st') \<Longrightarrow>
      1 \<le> filled rate capacity tk sk t t st"
    by (auto simp: rateLimitScript_def Let_def split: if_splits)
  assume ok: "bucket_ok tk sk rate capacity t st" and "t \<le> t'"
    and "(case rateLimitScript tk sk rate capacity t t st of (a, st') \<Rightarrow> (a = 1, st')) = (b, st')"
  then obtain a where a: "rateLimitScript tk sk rate capacity t t st = (a, st')" "b = (a = 1)"
    by (auto split: prod.splits)
  let ?l = "filled rate capacity tk sk t t st"
  note s = script_state [OF assms(3) a(1)]
  have l: "?l - of_int a = ?l - (if b then 1 else 0)" "0 \<le> ?l - of_int a" "?l - of_int a \<le> capacity"
    using s a(2) filled_bounds [OF ok assms(1,2)] by (auto split: if_splits)
  show "filled rate capacity tk sk t' t' st' \<le> ?l - (if b then 1 else 0) + rate * (t' - t)"
    using filled_refill [of st' tk "?l - of_int a" t rate capacity sk t'] s l assms(1) \<open>t \<le> t'\<close> by simp
  show "bucket_ok tk sk rate capacity t' st'"
    using s l \<open>t \<le> t'\<close> by (simp add: bucket_ok_def)
qed (use assms in simp)

text \<open>The gateway's limiter for public requests: 200 per second.\<close>

interpretation public: token_bucket
  "\<lambda>t st. case rateLimitScript (tokens_key ip) (timestamp_key ip) 200 200 t t st
     of (a, st') \<Rightarrow> (a = 1, st')"
  "\<lambda>t st. filled 200 200 (tokens_key ip) (timestamp_key ip) t t st"
  "bucket_ok (tokens_key ip) (timestamp_key ip) 200 200" 200 200
  for ip by (rule script_bucket) (simp_all add: keys_differ)

fun admitted_requests :: "RedisRateLimiter \<Rightarrow> string \<Rightarrow> seconds list \<Rightarrow> redis_numbers \<Rightarrow> nat" where
  "admitted_requests r ip [] st = 0"
| "admitted_requests r ip (t # ts) st =
     (let (b, st') = redis_Allow r ip True t t st in (if b then 1 else 0) + admitted_requests r ip ts st')"



end
