(* ===== verification/MarketData.thy ===== *)
theory MarketData
  imports OrderService Cache
begin

text \<open>
  The market data service: src/internal/marketdata/queries.go and event_subscribers.go. What a handler
  hands to its \<open>MarketDataPublisher\<close> (the WebSocket hub) is part of its value.
\<close>

section \<open>queries.go\<close>

text \<open>A missing cache and every error of it give the empty book, never an error.\<close>

definition GetOrderBook :: "redis option \<Rightarrow> string \<Rightarrow> OrderBookSnapshot dbm" where
  "GetOrderBook cache symbol s =
     (case cache of
        None \<Rightarrow> (Inr (NewOrderBookSnapshot symbol), s)
      | Some st \<Rightarrow>
          (case GetOrderBookSnapshot_cached st symbol s of
             (Inr snapshot, s1) \<Rightarrow> (Inr snapshot, s1)
           | (Inl e, s1) \<Rightarrow> (Inr (NewOrderBookSnapshot symbol), s1)))"

definition clamp_limit :: "int \<Rightarrow> int \<Rightarrow> int \<Rightarrow> int" where
  "clamp_limit dflt maximum limit =
     (let l = (if limit \<le> 0 then dflt else limit) in if l > maximum then maximum else l)"

definition query_KLines :: "string \<Rightarrow> string \<Rightarrow> int \<Rightarrow> KLine list dbm" where
  "query_KLines symbol interval limit = GetKLines (ToUpper symbol) interval (nat (clamp_limit 100 1000 limit))"

definition query_RecentTrades :: "string \<Rightarrow> int \<Rightarrow> Trade list dbm" where
  "query_RecentTrades symbol limit = GetRecentTrades (ToUpper symbol) (nat (clamp_limit 50 100 limit))"

section \<open>event_subscribers.go\<close>

datatype push =
    PushTrade Trade
  | PushOrder Order
  | PushOrderBook OrderBookSnapshot

text \<open>The cache write is best effort; the hub gets the snapshot whether or not it was accepted.\<close>

definition HandleOrderBook ::
  "bool \<Rightarrow> bool \<Rightarrow> error + OrderBookUpdatedEvent \<Rightarrow> redis \<times> session \<Rightarrow> (error + push list) \<times> redis \<times> session" where
  "HandleOrderBook cached listening decoded = (\<lambda>(st, s).
     case decoded of
       Inl e \<Rightarrow> (Inl (ErrWrap ''decode OrderBookUpdatedEvent'' e), st, s)
     | Inr event \<Rightarrow>
         (case obuSnapshot event of
            None \<Rightarrow> (Inr [], st, s)
          | Some snapshot \<Rightarrow>
              (let (st1, s1) = (if cached then snd (SetOrderBookSnapshot snapshot (st, s)) else (st, s))
               in (Inr (if listening then [PushOrderBook snapshot] else []), st1, s1))))"

definition HandleTrade :: "bool \<Rightarrow> error + TradeExecutedEvent \<Rightarrow> error + push list" where
  "HandleTrade listening decoded =
     (case decoded of
        Inl e \<Rightarrow> Inl (ErrWrap ''decode TradeExecutedEvent'' e)
      | Inr event \<Rightarrow>
          Inr (if listening
               then [PushTrade \<lparr>tID = teTradeID event, tSymbol = teSymbol event, tMakerOrderID = teMakerOrderID event,
                       tTakerOrderID = teTakerOrderID event, tPrice = tePrice event, tQuantity = teQuantity event,
                       tCreatedAt = 0\<rparr>]
               else []))"

definition HandleOrderUpdated :: "bool \<Rightarrow> error + OrderUpdatedEvent \<Rightarrow> error + push list" where
  "HandleOrderUpdated listening decoded =
     (case decoded of
        Inl e \<Rightarrow> Inl (ErrWrap ''decode OrderUpdatedEvent'' e)
      | Inr event \<Rightarrow>
          Inr (case ouOrder event of Some order \<Rightarrow> if listening then [PushOrder order] else [] | None \<Rightarrow> []))"

section \<open>Bounds of the queries\<close>

lemma clamp_limit_bounds: "1 \<le> dflt \<Longrightarrow> dflt \<le> maximum \<Longrightarrow> 1 \<le> clamp_limit dflt maximum limit \<and> clamp_limit dflt maximum limit \<le> maximum"
  by (auto simp: clamp_limit_def Let_def)

lemma clamp_limit_id: "1 \<le> limit \<Longrightarrow> limit \<le> maximum \<Longrightarrow> clamp_limit dflt maximum limit = limit"
  by (simp add: clamp_limit_def Let_def)

end
