(* ===== verification/Api.thy ===== *)
theory Api
  imports MarketData
begin

text \<open>
  The HTTP API of the order service: src/internal/api/order_handlers.go, validator.go,
  account_handlers.go and market_handlers.go. A handler answers a status and the JSON value it marshals,
  in the session of the services it calls. Arguments stand for what the libraries do: \<open>parse\<close> for
  \<open>uuid.Parse\<close>, \<open>decoded\<close> for the decoded body, \<open>query\<close> for the parameters of the URL. A decimal arrives
  as \<open>decimal.Decimal\<close> keeps it, a coefficient and an exponent. Texts of the API are given in English.
\<close>

section \<open>JSON values\<close>

datatype json =
    JStr string
  | JInt int
  | JBool bool
  | JUuid uuid
  | JDec decimal
  | JErr error
  | JList "json list"
  | JObj "(string \<times> json) list"

type_synonym reply = "int \<times> json"

text \<open>The \<open>json\<close> tags of the domain types (models.go and engine/types.go).\<close>

definition account_json :: "Account \<Rightarrow> json" where
  "account_json a = JObj [(''id'', JUuid (aID a)), (''user_id'', JUuid (aUserID a)), (''currency'', JStr (aCurrency a)),
     (''balance'', JDec (aBalance a)), (''locked'', JDec (aLocked a)), (''created_at'', JInt (aCreatedAt a)),
     (''updated_at'', JInt (aUpdatedAt a))]"

definition kline_json :: "KLine \<Rightarrow> json" where
  "kline_json k = JObj [(''timestamp'', JInt (kTimestamp k)), (''open'', JDec (kOpen k)), (''high'', JDec (kHigh k)),
     (''low'', JDec (kLow k)), (''close'', JDec (kClose k)), (''volume'', JDec (kVolume k))]"

definition trade_json :: "Trade \<Rightarrow> json" where
  "trade_json t = JObj [(''id'', JUuid (tID t)), (''symbol'', JStr (tSymbol t)), (''maker_order_id'', JUuid (tMakerOrderID t)),
     (''taker_order_id'', JUuid (tTakerOrderID t)), (''price'', JDec (tPrice t)), (''quantity'', JDec (tQuantity t)),
     (''created_at'', JInt (tCreatedAt t))]"

definition level_json :: "OrderBookLevel \<Rightarrow> json" where
  "level_json l = JObj [(''price'', JDec (lvlPrice l)), (''quantity'', JDec (lvlQuantity l))]"

definition snapshot_json :: "OrderBookSnapshot \<Rightarrow> json" where
  "snapshot_json sn = JObj [(''symbol'', JStr (snSymbol sn)), (''bids'', JList (map level_json (snBids sn))),
     (''asks'', JList (map level_json (snAsks sn))), (''fencing_token'', JInt (snFencingToken sn))]"

section \<open>placeOrderRequest and its validation\<close>

record wire_decimal =
  Coefficient :: int
  Exponent :: int

definition dec :: "wire_decimal \<Rightarrow> decimal" where
  "dec d = (if 0 \<le> Exponent d then of_int (Coefficient d) * 10 ^ nat (Exponent d)
            else of_int (Coefficient d) / 10 ^ nat (- Exponent d))"

record placeOrderRequest =
  reqUserID :: string
  reqSymbol :: string
  reqSide :: string
  reqType :: string
  reqPrice :: wire_decimal
  reqQuantity :: wire_decimal

text \<open>
  The \<open>binding\<close> tags. \<open>required\<close> on the struct \<open>Quantity\<close> is not evaluated by the validator; a missing
  quantity is zero and fails the validation below.
\<close>

definition binding_ok :: "placeOrderRequest \<Rightarrow> bool" where
  "binding_ok req \<longleftrightarrow> reqUserID req \<noteq> '''' \<and> reqSymbol req \<noteq> '''' \<and>
     reqSide req \<noteq> '''' \<and> (reqSide req = ''BUY'' \<or> reqSide req = ''SELL'') \<and>
     reqType req \<noteq> '''' \<and> (reqType req = ''LIMIT'' \<or> reqType req = ''MARKET'')"

definition is_upper :: "char \<Rightarrow> bool" where
  "is_upper c \<longleftrightarrow> (65 :: nat) \<le> of_char c \<and> of_char c \<le> (90 :: nat)"

text \<open>\<open>^[A-Z]{2,10}-[A-Z]{2,10}$\<close>; the letters are greedy because a dash is no letter.\<close>

definition code_like :: "string \<Rightarrow> bool" where
  "code_like s \<longleftrightarrow> 2 \<le> length s \<and> length s \<le> 10 \<and> list_all is_upper s"

definition symbolPattern :: "string \<Rightarrow> bool" where
  "symbolPattern s =
     (let base = takeWhile is_upper s; rest = dropWhile is_upper s
      in code_like base \<and> rest \<noteq> [] \<and> hd rest = CHR ''-'' \<and> code_like (tl rest))"

definition maxQuantity :: decimal where "maxQuantity = 1000000"
definition maxPrice :: decimal where "maxPrice = 100000000"

definition validatePlaceOrderRequest :: "placeOrderRequest \<Rightarrow> error + unit" where
  "validatePlaceOrderRequest req =
     (let symbol = ToUpper (reqSymbol req) in
      if \<not> symbolPattern symbol then Inl (ErrMsg ''invalid symbol format'')
      else if dec (reqQuantity req) \<le> 0 then Inl (ErrMsg ''quantity must be positive'')
      else if dec (reqQuantity req) > maxQuantity then Inl (ErrMsg ''quantity above the maximum'')
      else if Exponent (reqQuantity req) < -8 then Inl (ErrMsg ''quantity has more than 8 decimals'')
      else if reqType req = ''LIMIT'' then
        (if dec (reqPrice req) \<le> 0 then Inl (ErrMsg ''price must be positive'')
         else if dec (reqPrice req) > maxPrice then Inl (ErrMsg ''price above the maximum'')
         else if Exponent (reqPrice req) < -8 then Inl (ErrMsg ''price has more than 8 decimals'')
         else Inr ())
      else Inr ())"

section \<open>order_handlers.go\<close>

definition bad_request :: "error \<Rightarrow> reply" where
  "bad_request e = (400, JObj [(''error'', JErr e)])"

definition server_error :: "error \<Rightarrow> reply" where
  "server_error e = (500, JObj [(''error'', JErr e)])"

definition enum_text :: "enum_error \<Rightarrow> error" where
  "enum_text e = (case e of InvalidSide t \<Rightarrow> ErrMsg (''invalid side: '' @ t) | InvalidType t \<Rightarrow> ErrMsg (''invalid type: '' @ t))"

text \<open>A request turned into an order; the other fields are the zero values of Go.\<close>

definition request_order :: "(string \<Rightarrow> uuid option) \<Rightarrow> placeOrderRequest \<Rightarrow> reply + Order" where
  "request_order parse req =
     (case validatePlaceOrderRequest req of
        Inl e \<Rightarrow> Inl (bad_request e)
      | Inr _ \<Rightarrow>
     (case parse (reqUserID req) of
        None \<Rightarrow> Inl (bad_request (ErrMsg ''invalid user_id''))
      | Some userID \<Rightarrow>
     (case SideFromString (reqSide req) of
        Inl e \<Rightarrow> Inl (bad_request (enum_text e))
      | Inr side \<Rightarrow>
     (case TypeFromString (reqType req) of
        Inl e \<Rightarrow> Inl (bad_request (enum_text e))
      | Inr orderType \<Rightarrow>
          Inr \<lparr>dID = 0, dUserID = userID, dSymbol = reqSymbol req, dSide = side, dType = orderType,
               dPrice = dec (reqPrice req), dQuantity = dec (reqQuantity req), dFilledQuantity = 0, dStatus = 0,
               dCreatedAt = 0, dUpdatedAt = 0\<rparr>))))"

text \<open>\<open>errors.Is\<close> decides between the client's fault and the server's.\<close>

definition place_failure :: "error \<Rightarrow> reply" where
  "place_failure e = (if errors_is e ErrInsufficientFunds then bad_request e else server_error e)"

definition handle_PlaceOrder ::
  "(string \<Rightarrow> uuid option) \<Rightarrow> (uuid \<Rightarrow> string) \<Rightarrow> (decimal \<Rightarrow> decimal) \<Rightarrow> Service \<Rightarrow>
   error + placeOrderRequest \<Rightarrow> session \<Rightarrow> reply \<times> session" where
  "handle_PlaceOrder parse ustr rnd svc decoded s =
     (case decoded of
        Inl e \<Rightarrow> (bad_request e, s)
      | Inr req \<Rightarrow>
          (if \<not> binding_ok req then (bad_request (ErrMsg ''binding''), s)
           else case request_order parse req of
             Inl r \<Rightarrow> (r, s)
           | Inr order \<Rightarrow>
               (case PlaceOrder ustr rnd svc order s of
                  (Inl e, s') \<Rightarrow> (place_failure e, s')
                | (Inr (placed, msgs), s') \<Rightarrow> ((202, JObj [(''order_id'', JUuid (dID placed))]), s'))))"

fun request_orders :: "(string \<Rightarrow> uuid option) \<Rightarrow> placeOrderRequest list \<Rightarrow> Order list \<Rightarrow> reply + Order list" where
  "request_orders parse [] os = Inr os"
| "request_orders parse (req # reqs) os =
     (case request_order parse req of
        Inl r \<Rightarrow> Inl r
      | Inr order \<Rightarrow> request_orders parse reqs (os @ [order]))"

definition handle_BatchPlaceOrders ::
  "(string \<Rightarrow> uuid option) \<Rightarrow> (uuid \<Rightarrow> string) \<Rightarrow> (decimal \<Rightarrow> decimal) \<Rightarrow> Service \<Rightarrow>
   error + placeOrderRequest list \<Rightarrow> session \<Rightarrow> reply \<times> session" where
  "handle_BatchPlaceOrders parse ustr rnd svc decoded s =
     (case decoded of
        Inl e \<Rightarrow> (bad_request e, s)
      | Inr reqs \<Rightarrow>
          (if \<not> list_all binding_ok reqs then (bad_request (ErrMsg ''binding''), s)
           else if length reqs = 0 then (bad_request (ErrMsg ''empty batch''), s)
           else case request_orders parse reqs [] of
             Inl r \<Rightarrow> (r, s)
           | Inr os \<Rightarrow>
               (case BatchPlaceOrders ustr rnd svc os s of
                  (Inl e, s') \<Rightarrow> (place_failure e, s')
                | (Inr _, s') \<Rightarrow>
                    ((202, JObj [(''message'', JStr ''batch accepted''), (''count'', JInt (int (length os)))]), s'))))"

definition order_fields :: "Order \<Rightarrow> (string \<times> json) list" where
  "order_fields x =
     [(''symbol'', JStr (dSymbol x)), (''side'', JStr (SideToString (dSide x))), (''type'', JStr (TypeToString (dType x))),
      (''price'', JDec (dPrice x)), (''quantity'', JDec (dQuantity x)), (''filled_quantity'', JDec (dFilledQuantity x)),
      (''status'', JStr (StatusToString (dStatus x))), (''created_at'', JInt (dCreatedAt x))]"

definition handle_GetOrder :: "(string \<Rightarrow> uuid option) \<Rightarrow> string \<Rightarrow> session \<Rightarrow> reply \<times> session" where
  "handle_GetOrder parse idStr s =
     (case parse idStr of
        None \<Rightarrow> (bad_request (ErrMsg ''invalid order id''), s)
      | Some orderID \<Rightarrow>
          (case GetOrder orderID s of
             (Inl e, s') \<Rightarrow> ((404, JObj [(''error'', JErr (ErrMsg ''order not found''))]), s')
           | (Inr x, s') \<Rightarrow> ((200, JObj ([(''id'', JUuid (dID x)), (''user_id'', JUuid (dUserID x))] @ order_fields x)), s')))"

definition with_user :: "(string \<Rightarrow> uuid option) \<Rightarrow> string \<Rightarrow> (uuid \<Rightarrow> session \<Rightarrow> reply \<times> session) \<Rightarrow> session \<Rightarrow> reply \<times> session" where
  "with_user parse userIDStr k s =
     (if userIDStr = '''' then (bad_request (ErrMsg ''missing user_id''), s)
      else case parse userIDStr of
        None \<Rightarrow> (bad_request (ErrMsg ''invalid user_id''), s)
      | Some userID \<Rightarrow> k userID s)"

definition handle_GetOrders :: "(string \<Rightarrow> uuid option) \<Rightarrow> string \<Rightarrow> session \<Rightarrow> reply \<times> session" where
  "handle_GetOrders parse userIDStr =
     with_user parse userIDStr (\<lambda>userID s.
       (case GetOrdersByUser userID s of
          (Inl e, s') \<Rightarrow> (server_error e, s')
        | (Inr os, s') \<Rightarrow> ((200, JList (map (\<lambda>x. JObj ((''id'', JUuid (dID x)) # order_fields x)) os)), s')))"

text \<open>The header wins over the query parameter.\<close>

definition handle_CancelOrder ::
  "(string \<Rightarrow> uuid option) \<Rightarrow> (uuid \<Rightarrow> string) \<Rightarrow> Service \<Rightarrow> string \<Rightarrow> string \<Rightarrow> string \<Rightarrow> session \<Rightarrow> reply \<times> session" where
  "handle_CancelOrder parse ustr svc idStr header queryUser s =
     (case parse idStr of
        None \<Rightarrow> (bad_request (ErrMsg ''invalid order id''), s)
      | Some orderID \<Rightarrow>
          with_user parse (if header = '''' then queryUser else header) (\<lambda>userID s.
            (case CancelOrder ustr svc orderID userID s of
               (Inl e, s') \<Rightarrow> (bad_request e, s')
             | (Inr _, s') \<Rightarrow> ((200, JObj [(''message'', JStr ''order canceled'')]), s'))) s)"

section \<open>account_handlers.go\<close>

definition handle_JoinArena :: "(uuid \<Rightarrow> string) \<Rightarrow> session \<Rightarrow> reply \<times> session" where
  "handle_JoinArena ustr s =
     (case RegisterAnonymousUser ustr s of
        (Inl e, s') \<Rightarrow> (server_error e, s')
      | (Inr (user, accs), s') \<Rightarrow>
          (let balances = fold (\<lambda>acc. alist_upd (aCurrency acc) (\<lambda>_. JDec (aBalance acc)) (JDec (aBalance acc))) accs []
           in ((201, JObj [(''user_id'', JUuid (uID user)), (''email'', JStr (uEmail user)), (''balances'', JObj balances)]), s')))"

definition handle_RechargeTestUser :: "(string \<Rightarrow> uuid option) \<Rightarrow> string \<Rightarrow> session \<Rightarrow> reply \<times> session" where
  "handle_RechargeTestUser parse param s =
     (case parse param of
        None \<Rightarrow> (bad_request (ErrMsg ''invalid user_id''), s)
      | Some userID \<Rightarrow>
          (case RechargeTestUser userID s of
             (Inl e, s') \<Rightarrow> (server_error e, s')
           | (Inr _, s') \<Rightarrow> ((200, JObj [(''message'', JStr ''recharged'')]), s')))"

definition handle_GetBalances :: "(string \<Rightarrow> uuid option) \<Rightarrow> string \<Rightarrow> session \<Rightarrow> reply \<times> session" where
  "handle_GetBalances parse userIDStr =
     with_user parse userIDStr (\<lambda>userID s.
       (case GetBalances userID s of
          (Inl e, s') \<Rightarrow> (server_error e, s')
        | (Inr accs, s') \<Rightarrow> ((200, JList (map account_json accs)), s')))"

section \<open>market_handlers.go\<close>

definition default_query :: "(string \<Rightarrow> string option) \<Rightarrow> string \<Rightarrow> string \<Rightarrow> string" where
  "default_query query name dflt = (case query name of None \<Rightarrow> dflt | Some v \<Rightarrow> v)"

text \<open>
  \<open>fmt.Sscanf(text, "%d", &x)\<close>: blanks are skipped but a newline is an error, then a sign and decimal
  digits are read as far as they go; without a digit, or out of the range of \<open>int\<close>, \<open>x\<close> keeps its value.
\<close>

definition digit_value :: "char \<Rightarrow> int" where
  "digit_value c = of_char c - 48"

definition is_digit :: "char \<Rightarrow> bool" where
  "is_digit c \<longleftrightarrow> (48 :: nat) \<le> of_char c \<and> of_char c \<le> (57 :: nat)"

definition is_blank :: "char \<Rightarrow> bool" where
  "is_blank c \<longleftrightarrow> of_char c \<in> {9 :: nat, 11, 12, 13, 32}"

definition digits_value :: "string \<Rightarrow> int" where
  "digits_value ds = fold (\<lambda>c n. 10 * n + digit_value c) ds 0"

definition sscanf_d :: "string \<Rightarrow> int \<Rightarrow> int" where
  "sscanf_d text x =
     (let t = dropWhile is_blank text;
          neg = (t \<noteq> [] \<and> hd t = CHR ''-'');
          u = (if t \<noteq> [] \<and> (hd t = CHR ''-'' \<or> hd t = CHR ''+'') then tl t else t);
          ds = takeWhile is_digit u;
          n = (if neg then - digits_value ds else digits_value ds)
      in if ds = [] \<or> n < - (2 ^ 63) \<or> 2 ^ 63 - 1 < n then x else n)"

definition handle_GetOrderBook :: "redis option \<Rightarrow> (string \<Rightarrow> string option) \<Rightarrow> session \<Rightarrow> reply \<times> session" where
  "handle_GetOrderBook cache query s =
     (case GetOrderBook cache (default_query query ''symbol'' ''BTC-USD'') s of
        (Inl e, s') \<Rightarrow> (server_error e, s')
      | (Inr book, s') \<Rightarrow> ((200, snapshot_json book), s'))"

definition handle_GetKLines :: "(string \<Rightarrow> string option) \<Rightarrow> session \<Rightarrow> reply \<times> session" where
  "handle_GetKLines query s =
     (let symbol = default_query query ''symbol'' ''BTC-USD'';
          interval = default_query query ''interval'' ''1m'';
          limit = sscanf_d (default_query query ''limit'' ''100'') 100
      in case query_KLines symbol interval limit s of
           (Inl e, s') \<Rightarrow> (server_error e, s')
         | (Inr klines, s') \<Rightarrow> ((200, JList (map kline_json klines)), s'))"

definition handle_GetRecentTrades :: "(string \<Rightarrow> string option) \<Rightarrow> session \<Rightarrow> reply \<times> session" where
  "handle_GetRecentTrades query s =
     (let symbol = default_query query ''symbol'' ''BTC-USD'';
          limit = sscanf_d (default_query query ''limit'' ''50'') 50
      in case query_RecentTrades symbol limit s of
           (Inl e, s') \<Rightarrow> (server_error e, s')
         | (Inr ts, s') \<Rightarrow> ((200, JList (map trade_json ts)), s'))"

end
