(* ===== verification/Api_Correct.thy ===== *)
theory Api_Correct
  imports Api OrderService_Correct
begin

text \<open>
  What the API lets through: validated requests become well typed orders, an accepted request is stored
  as it was sent, and every other answer leaves the tables alone.
\<close>

section \<open>Well typed orders\<close>

definition eight_decimals :: "decimal \<Rightarrow> bool" where
  "eight_decimals x \<longleftrightarrow> x * 10 ^ 8 \<in> \<int>"

definition well_typed :: "Order \<Rightarrow> bool" where
  "well_typed x \<longleftrightarrow>
     (dSide x = SideBuy \<or> dSide x = SideSell) \<and> (dType x = TypeLimit \<or> dType x = TypeMarket) \<and>
     symbolPattern (dSymbol x) \<and>
     0 < dQuantity x \<and> dQuantity x \<le> maxQuantity \<and> eight_decimals (dQuantity x) \<and>
     (dType x = TypeLimit \<longrightarrow> 0 < dPrice x \<and> dPrice x \<le> maxPrice \<and> eight_decimals (dPrice x))"

lemma dec_eight_decimals: "-8 \<le> Exponent d \<Longrightarrow> eight_decimals (dec d)"
proof -
  assume e: "-8 \<le> Exponent d"
  show ?thesis
  proof (cases "0 \<le> Exponent d")
    case True
    then show ?thesis by (simp add: eight_decimals_def dec_def)
  next
    case False
    define k where "k = nat (- Exponent d)"
    from e False have "k \<le> 8" by (simp add: k_def)
    then have "(10 :: rat) ^ 8 = 10 ^ (8 - k) * 10 ^ k" by (simp flip: power_add)
    moreover have "dec d = of_int (Coefficient d) / 10 ^ k" using False by (simp add: dec_def k_def)
    moreover have "a / b * (c * b) = a * c" if "b \<noteq> 0" for a b c :: rat using that by simp
    ultimately have "dec d * 10 ^ 8 = of_int (Coefficient d) * 10 ^ (8 - k)" by (metis power_not_zero zero_neq_numeral)
    then show ?thesis unfolding eight_decimals_def by (simp only: Ints_mult Ints_of_int Ints_power Ints_numeral)
  qed
qed

lemma upper_is_no_dash: "is_upper c \<Longrightarrow> c \<noteq> CHR ''-''"
  by (auto simp: is_upper_def)

lemma split_on_none: "c \<notin> set s \<Longrightarrow> split_on c s = [s]"
  by (induction s) auto

lemma split_on_one: "c \<notin> set a \<Longrightarrow> c \<notin> set b \<Longrightarrow> split_on c (a @ c # b) = [a, b]"
  by (induction a) (auto simp: split_on_none)

text \<open>A symbol of the pattern has the two parts \<open>splitSymbol\<close> asks for.\<close>

lemma symbolPattern_splits:
  assumes "symbolPattern s"
  shows "\<exists>base quote. splitSymbol s = Inr (base, quote) \<and> code_like base \<and> code_like quote \<and> s = base @ ''-'' @ quote"
proof -
  let ?a = "takeWhile is_upper s" and ?r = "dropWhile is_upper s"
  from assms have h: "code_like ?a" "?r = CHR ''-'' # tl ?r" "code_like (tl ?r)"
    unfolding symbolPattern_def Let_def by (blast, metis list.collapse, blast)
  then have s: "s = ?a @ CHR ''-'' # tl ?r" by (metis takeWhile_dropWhile_id)
  have "CHR ''-'' \<notin> set ?a" "CHR ''-'' \<notin> set (tl ?r)"
    using h(1,3) upper_is_no_dash by (auto simp: code_like_def list_all_iff)
  then have "split_on (CHR ''-'') s = [?a, tl ?r]" using split_on_one s by metis
  with h s show ?thesis by (auto simp: splitSymbol_def)
qed

text \<open>The longest symbols of the pattern have 21 characters; the column holds 20.\<close>

lemma long_symbol_accepted:
  "symbolPattern (replicate 10 CHR ''A'' @ ''-'' @ replicate 10 CHR ''B'') \<and>
   length (replicate 10 CHR ''A'' @ ''-'' @ replicate 10 CHR ''B'') = 21"
  by code_simp

section \<open>From the request to the stored order\<close>

lemma request_order_typed:
  assumes "binding_ok req" and "request_order parse req = Inr x" and "\<And>q. eight_decimals q \<Longrightarrow> rnd q = q"
  shows "well_typed (normalise rnd x) \<and> dQuantity (normalise rnd x) = dec (reqQuantity req) \<and>
    parse (reqUserID req) = Some (dUserID x) \<and> dSymbol (normalise rnd x) = ToUpper (reqSymbol req) \<and>
    (reqType req = ''LIMIT'' \<longrightarrow> dPrice (normalise rnd x) = dec (reqPrice req))"
proof -
  from assms(2) obtain u sd ty where v: "validatePlaceOrderRequest req = Inr ()" and u: "parse (reqUserID req) = Some u"
    and sd: "SideFromString (reqSide req) = Inr sd" and ty: "TypeFromString (reqType req) = Inr ty"
    and x: "x = \<lparr>dID = 0, dUserID = u, dSymbol = reqSymbol req, dSide = sd, dType = ty, dPrice = dec (reqPrice req),
      dQuantity = dec (reqQuantity req), dFilledQuantity = 0, dStatus = 0, dCreatedAt = 0, dUpdatedAt = 0\<rparr>"
    by (auto simp: request_order_def split: sum.splits option.splits)
  from v have q: "symbolPattern (ToUpper (reqSymbol req))" "0 < dec (reqQuantity req)" "dec (reqQuantity req) \<le> maxQuantity"
    "eight_decimals (dec (reqQuantity req))"
    and p: "reqType req = ''LIMIT'' \<Longrightarrow> 0 < dec (reqPrice req) \<and> dec (reqPrice req) \<le> maxPrice \<and> eight_decimals (dec (reqPrice req))"
    by (auto simp: validatePlaceOrderRequest_def Let_def not_less not_le intro: dec_eight_decimals split: if_splits)
  have t: "ty = TypeLimit \<longleftrightarrow> reqType req = ''LIMIT''" "ty = TypeLimit \<or> ty = TypeMarket" "sd = SideBuy \<or> sd = SideSell"
    using sd ty by (auto simp: SideFromString_def TypeFromString_def split: if_splits)
  show ?thesis
    using q p t u assms(3) by (auto simp: well_typed_def normalise_def x)
qed

lemma well_typed_fresh: "well_typed (fresh_order i t x) = well_typed x"
  by (simp add: well_typed_def fresh_order_def)

lemma PlaceOrder_order:
  "PlaceOrder ustr rnd svc x s = (Inr (y, msgs), s') \<Longrightarrow> \<exists>i t. y = fresh_order i t (normalise rnd x)"
  by (auto simp: PlaceOrder_def Let_def bind_Inr_iff fail_def ret_def split: if_splits prod.splits)

lemma prepare_orders_orders:
  "prepare_orders ustr rnd svc t xs acc s = (Inr acc', s') \<Longrightarrow>
     \<exists>ys. fst acc' = fst acc @ ys \<and> list_all2 (\<lambda>x y. \<exists>i. y = fresh_order i t (normalise rnd x)) xs ys"
proof (induction xs arbitrary: acc s)
  case (Cons x xs)
  obtain os lf msgs where acc: "acc = (os, lf, msgs)" by (cases acc)
  from Cons.prems obtain acc1 s1 where 1: "prepare_order ustr rnd svc t x acc s = (Inr acc1, s1)"
    and 2: "prepare_orders ustr rnd svc t xs acc1 s1 = (Inr acc', s')" by (auto simp: bind_Inr_iff)
  from 1 acc obtain i where "fst acc1 = os @ [fresh_order i t (normalise rnd x)]"
    by (auto simp: prepare_order_def Let_def bind_Inr_iff split: if_splits prod.splits)
  with Cons.IH [OF 2] acc show ?case by fastforce
qed (auto simp: ret_def)

lemma BatchPlaceOrders_orders:
  assumes "BatchPlaceOrders ustr rnd svc xs s = (Inr (ys, msgs), s')"
  shows "list_all2 (\<lambda>x y. \<exists>i t. y = fresh_order i t (normalise rnd x)) xs ys"
proof (cases "xs = []")
  case False
  from assms False obtain t acc s1 s2 where "prepare_orders ustr rnd svc t xs ([], [], []) s1 = (Inr acc, s2)" "fst acc = ys"
    by (auto simp: BatchPlaceOrders_def bind_Inr_iff split: prod.splits)
  from prepare_orders_orders [OF this(1)] this(2)
  have "list_all2 (\<lambda>x y. \<exists>i. y = fresh_order i t (normalise rnd x)) xs ys" by auto
  then show ?thesis by (rule list_all2_mono) blast
qed (use assms in \<open>auto simp: BatchPlaceOrders_def ret_def\<close>)

lemma request_orders_ok:
  "request_orders parse reqs os = Inr xs \<Longrightarrow>
     \<exists>ys. xs = os @ ys \<and> list_all2 (\<lambda>req x. request_order parse req = Inr x) reqs ys"
proof (induction reqs arbitrary: os)
  case (Cons req reqs)
  then obtain x where x: "request_order parse req = Inr x" "request_orders parse reqs (os @ [x]) = Inr xs"
    by (auto split: sum.splits)
  from Cons.IH [OF x(2)] x(1) show ?case by fastforce
qed simp

lemma request_orders_reply: "request_orders parse reqs os = Inl r \<Longrightarrow> fst r = 400"
  by (induction reqs arbitrary: os)
    (auto simp: request_order_def bad_request_def split: sum.splits option.splits)

lemma request_order_reply: "request_order parse req = Inl r \<Longrightarrow> fst r = 400"
  by (auto simp: request_order_def bad_request_def split: sum.splits option.splits)

lemma place_failure_status: "fst (place_failure e) = 400 \<or> fst (place_failure e) = 500"
  by (simp add: place_failure_def bad_request_def server_error_def)

section \<open>The two placing handlers\<close>

lemma handle_PlaceOrder_ok:
  assumes "handle_PlaceOrder parse ustr rnd svc (Inr req) s = ((code, body), s')" and "accounts_ok (db s)"
    and "\<And>q. eight_decimals q \<Longrightarrow> rnd q = q"
  shows "code = 202 \<and> (\<exists>x. orders (db s') = orders (db s) @ [x] \<and> well_typed x \<and> dStatus x = StatusNew \<and>
      dQuantity x = dec (reqQuantity req) \<and> parse (reqUserID req) = Some (dUserID x)) \<or>
    (code = 400 \<or> code = 500) \<and> db s' = db s"
proof (cases "binding_ok req")
  case False
  with assms(1) show ?thesis by (simp add: handle_PlaceOrder_def bad_request_def)
next
  case True
  show ?thesis
  proof (cases "request_order parse req")
    case (Inl r)
    with True assms(1) request_order_reply [OF Inl] show ?thesis by (auto simp: handle_PlaceOrder_def)
  next
    case (Inr x)
    obtain r s1 where p: "PlaceOrder ustr rnd svc x s = (r, s1)" by (cases "PlaceOrder ustr rnd svc x s")
    note ok = PlaceOrder_ok [OF p assms(2)]
    show ?thesis
    proof (cases r)
      case (Inl e)
      with True Inr p assms(1) ok place_failure_status [of e] show ?thesis by (auto simp: handle_PlaceOrder_def)
    next
      case ok': (Inr ym)
      obtain y msgs where ym: "ym = (y, msgs)" by (cases ym)
      from PlaceOrder_order p ok' ym obtain i t where y: "y = fresh_order i t (normalise rnd x)" by blast
      have "well_typed y \<and> dQuantity y = dec (reqQuantity req) \<and> parse (reqUserID req) = Some (dUserID y)"
        using request_order_typed [OF True Inr assms(3)] y
        by (auto simp: well_typed_fresh) (simp_all add: fresh_order_def normalise_def)
      with True Inr p ok' ym assms(1) ok show ?thesis by (auto simp: handle_PlaceOrder_def placed_ok_def)
    qed
  qed
qed

lemma handle_BatchPlaceOrders_ok:
  assumes "handle_BatchPlaceOrders parse ustr rnd svc (Inr reqs) s = ((code, body), s')" and "accounts_ok (db s)"
    and "\<And>q. eight_decimals q \<Longrightarrow> rnd q = q"
  shows "code = 202 \<and> (\<exists>xs. orders (db s') = orders (db s) @ xs \<and> list_all2 (\<lambda>req x. well_typed x \<and> dStatus x = StatusNew \<and>
      dQuantity x = dec (reqQuantity req) \<and> parse (reqUserID req) = Some (dUserID x)) reqs xs) \<or>
    (code = 400 \<or> code = 500) \<and> db s' = db s"
proof (cases "list_all binding_ok reqs \<and> reqs \<noteq> []")
  case False
  with assms(1) show ?thesis by (auto simp: handle_BatchPlaceOrders_def bad_request_def split: if_splits)
next
  case True
  show ?thesis
  proof (cases "request_orders parse reqs []")
    case (Inl r)
    with True assms(1) request_orders_reply [OF Inl] show ?thesis by (auto simp: handle_BatchPlaceOrders_def)
  next
    case (Inr xs)
    obtain r s1 where p: "BatchPlaceOrders ustr rnd svc xs s = (r, s1)" by (cases "BatchPlaceOrders ustr rnd svc xs s")
    note ok = BatchPlaceOrders_ok [OF p assms(2)]
    show ?thesis
    proof (cases r)
      case (Inl e)
      with True Inr p assms(1) ok place_failure_status [of e] show ?thesis by (auto simp: handle_BatchPlaceOrders_def)
    next
      case ok': (Inr ym)
      obtain ys msgs where ym: "ym = (ys, msgs)" by (cases ym)
      from request_orders_ok [OF Inr] have "list_all2 (\<lambda>req x. binding_ok req \<and> request_order parse req = Inr x) reqs xs"
        using True by (auto simp: list_all2_conv_all_nth list_all_length)
      moreover have "list_all2 (\<lambda>x y. (\<exists>i t. y = fresh_order i t (normalise rnd x)) \<and> dStatus y = StatusNew) xs ys"
        using BatchPlaceOrders_orders [OF p [unfolded ok' ym]] ok ok' ym
        by (auto simp: list_all2_conv_all_nth fresh_order_def)
      ultimately have "list_all2 (\<lambda>req x. well_typed x \<and> dStatus x = StatusNew \<and>
          dQuantity x = dec (reqQuantity req) \<and> parse (reqUserID req) = Some (dUserID x)) reqs ys"
      proof (rule list_all2_trans [rotated])
        fix req x y
        assume h: "binding_ok req \<and> request_order parse req = Inr x"
          and y: "(\<exists>i t. y = fresh_order i t (normalise rnd x)) \<and> dStatus y = StatusNew"
        from y obtain i t where "y = fresh_order i t (normalise rnd x)" by blast
        with h y request_order_typed [OF _ _ assms(3)]
        show "well_typed y \<and> dStatus y = StatusNew \<and> dQuantity y = dec (reqQuantity req) \<and> parse (reqUserID req) = Some (dUserID y)"
          by (auto simp: well_typed_fresh) (simp_all add: fresh_order_def normalise_def)
      qed
      with True Inr p ok' ym assms(1) ok show ?thesis by (auto simp: handle_BatchPlaceOrders_def)
    qed
  qed
qed

text \<open>What the answer says about the tables.\<close>

definition placed_as_sent ::
  "(string \<Rightarrow> uuid option) \<Rightarrow> placeOrderRequest list \<Rightarrow> reply \<times> session \<Rightarrow> DB \<Rightarrow> bool" where
  "placed_as_sent parse reqs out d \<longleftrightarrow>
     fst (fst out) = 202 \<and> (\<exists>xs. orders (db (snd out)) = orders d @ xs \<and>
       list_all2 (\<lambda>req x. well_typed x \<and> dStatus x = StatusNew \<and> dQuantity x = dec (reqQuantity req) \<and>
         parse (reqUserID req) = Some (dUserID x)) reqs xs) \<or>
     fst (fst out) \<in> {400, 500} \<and> db (snd out) = d"


section \<open>A concrete request\<close>

definition round8 :: "decimal \<Rightarrow> decimal" where
  "round8 x = of_int (round (x * 10 ^ 8)) / 10 ^ 8"

lemma round8_exact: "eight_decimals q \<Longrightarrow> round8 q = q"
proof -
  assume "eight_decimals q"
  then obtain k where "q * 10 ^ 8 = of_int k" by (auto simp: eight_decimals_def elim: Ints_cases)
  then show ?thesis by (simp add: round8_def)
qed

definition demo_request :: "int \<Rightarrow> placeOrderRequest" where
  "demo_request e = \<lparr>reqUserID = ''1'', reqSymbol = ''btc-usd'', reqSide = ''BUY'', reqType = ''LIMIT'',
     reqPrice = \<lparr>Coefficient = 100, Exponent = 0\<rparr>, reqQuantity = \<lparr>Coefficient = 20, Exponent = e\<rparr>\<rparr>"

definition demo_post :: "int \<Rightarrow> reply \<times> session" where
  "demo_post e = handle_PlaceOrder (\<lambda>t. if t = ''1'' then Some 1 else None) (\<lambda>_. ''id'') round8 demo_service
     (Inr (demo_request e)) demo_users"

lemma demo_post_eval: "fst (fst (demo_post (- 1))) = 202 \<and> fst (fst (demo_post (- 9))) = 400"
  by code_simp


end
