(* ===== verification/WebSocket.thy ===== *)
theory WebSocket
  imports Api
begin

text \<open>
  The WebSocket hub: src/internal/api/websocket_handler.go. Clients are pointers (numbers) into a heap of
  client records, so closing a channel is seen by everyone who holds the client. The goroutines (\<open>Run\<close>,
  the callers of \<open>Broadcast\<close>, and per connection \<open>HandleWS\<close> and the two pumps) interleave at their
  channel operations, which are the steps of \<open>hub_step\<close>. The unbuffered channels \<open>register\<close> and
  \<open>unregister\<close> hold the senders blocked on them. A send on a closed channel or closing it twice is a
  panic of the Go runtime, kept as \<open>panicked\<close>. \<open>taken\<close>, \<open>joined\<close>, \<open>queued\<close> and \<open>processed\<close> record what
  happened: messages a writer took, how many messages \<open>Run\<close> had processed when the client registered,
  and the messages that entered and left the broadcast channel.
\<close>

section \<open>Messages\<close>

record outboundMessage =
  payload :: json
  messageType :: string

definition ws_OrderBookUpdate :: "OrderBookSnapshot \<Rightarrow> outboundMessage" where
  "ws_OrderBookUpdate snapshot =
     \<lparr>payload = JObj [(''type'', JStr ''depth_snapshot''), (''data'', snapshot_json snapshot)], messageType = ''depth_snapshot''\<rparr>"

definition ws_Trade :: "millis \<Rightarrow> Trade \<Rightarrow> outboundMessage" where
  "ws_Trade t trade =
     \<lparr>payload = JObj [(''type'', JStr ''trade''),
        (''data'', JObj [(''id'', JUuid (tID trade)), (''symbol'', JStr (tSymbol trade)), (''price'', JDec (tPrice trade)),
           (''quantity'', JDec (tQuantity trade)), (''maker_order_id'', JUuid (tMakerOrderID trade)),
           (''taker_order_id'', JUuid (tTakerOrderID trade)), (''timestamp'', JInt t)])],
      messageType = ''trade''\<rparr>"

definition ws_OrderUpdate :: "Order \<Rightarrow> outboundMessage" where
  "ws_OrderUpdate order =
     \<lparr>payload = JObj [(''type'', JStr ''order_update''),
        (''data'', JObj [(''id'', JUuid (dID order)), (''user_id'', JUuid (dUserID order)), (''symbol'', JStr (dSymbol order)),
           (''side'', JStr (SideToString (dSide order))), (''type'', JInt (sint (dType order))), (''price'', JDec (dPrice order)),
           (''quantity'', JDec (dQuantity order)), (''filled_quantity'', JDec (dFilledQuantity order)),
           (''status'', JStr (StatusToString (dStatus order))), (''created_at'', JInt (dCreatedAt order)),
           (''updated_at'', JInt (dUpdatedAt order))])],
      messageType = ''order_update''\<rparr>"

definition push_message :: "millis \<Rightarrow> push \<Rightarrow> outboundMessage" where
  "push_message t p =
     (case p of PushTrade trade \<Rightarrow> ws_Trade t trade | PushOrder order \<Rightarrow> ws_OrderUpdate order
      | PushOrderBook snapshot \<Rightarrow> ws_OrderBookUpdate snapshot)"

section \<open>State\<close>

record Client =
  send :: "json list"
  closed :: bool
  reading :: bool
  writing :: bool
  taken :: "json list"
  joined :: nat

record WebSocketHandler =
  clients :: "nat list"
  broadcast :: "outboundMessage list"
  register :: "nat list"
  unregister :: "nat list"
  heap :: "nat \<Rightarrow> Client"
  next_client :: nat
  queued :: "outboundMessage list"
  processed :: "outboundMessage list"
  panicked :: bool

definition new_client :: Client where
  "new_client = \<lparr>send = [], closed = False, reading = False, writing = False, taken = [], joined = 0\<rparr>"

definition NewWebSocketHandler :: WebSocketHandler where
  "NewWebSocketHandler =
     \<lparr>clients = [], broadcast = [], register = [], unregister = [], heap = (\<lambda>_. new_client), next_client = 0,
      queued = [], processed = [], panicked = False\<rparr>"

definition upd_client :: "nat \<Rightarrow> (Client \<Rightarrow> Client) \<Rightarrow> WebSocketHandler \<Rightarrow> WebSocketHandler" where
  "upd_client c f h = h\<lparr>heap := (heap h)(c := f (heap h c))\<rparr>"

section \<open>Run\<close>

definition close_send :: "nat \<Rightarrow> WebSocketHandler \<Rightarrow> WebSocketHandler" where
  "close_send c h = (if closed (heap h c) then h\<lparr>panicked := True\<rparr> else upd_client c (\<lambda>x. x\<lparr>closed := True\<rparr>) h)"

text \<open>\<open>h.register <- client\<close> is received; \<open>HandleWS\<close> goes on and starts the pumps.\<close>

definition hub_register :: "nat \<Rightarrow> WebSocketHandler \<Rightarrow> WebSocketHandler" where
  "hub_register c h =
     upd_client c (\<lambda>x. x\<lparr>reading := True, writing := True, joined := length (processed h)\<rparr>)
       (h\<lparr>register := remove1 c (register h), clients := List.insert c (clients h)\<rparr>)"

definition hub_unregister :: "nat \<Rightarrow> WebSocketHandler \<Rightarrow> WebSocketHandler" where
  "hub_unregister c h =
     (let h1 = h\<lparr>unregister := remove1 c (unregister h)\<rparr>
      in if c \<in> set (clients h1) then close_send c (h1\<lparr>clients := remove1 c (clients h1)\<rparr>) else h1)"

text \<open>The inner \<open>select\<close>: a full buffer costs the client its place.\<close>

definition hub_send :: "outboundMessage \<Rightarrow> nat \<Rightarrow> WebSocketHandler \<Rightarrow> WebSocketHandler" where
  "hub_send m c h =
     (if closed (heap h c) then h\<lparr>panicked := True\<rparr>
      else if length (send (heap h c)) < 256 then upd_client c (\<lambda>x. x\<lparr>send := send x @ [payload m]\<rparr>) h
      else (let h1 = close_send c h in h1\<lparr>clients := remove1 c (clients h1)\<rparr>))"

text \<open>\<open>order\<close> is the order in which the map is iterated.\<close>

definition hub_broadcast :: "nat list \<Rightarrow> WebSocketHandler \<Rightarrow> WebSocketHandler" where
  "hub_broadcast order h =
     (case broadcast h of
        [] \<Rightarrow> h
      | m # ms \<Rightarrow> fold (hub_send m) order (h\<lparr>broadcast := ms, processed := processed h @ [m]\<rparr>))"

section \<open>Broadcast, HandleWS and the pumps\<close>

definition Broadcast :: "outboundMessage \<Rightarrow> WebSocketHandler \<Rightarrow> WebSocketHandler" where
  "Broadcast m h =
     (if length (broadcast h) < 256 then h\<lparr>broadcast := broadcast h @ [m], queued := queued h @ [m]\<rparr> else h)"

definition HandleWS :: "bool \<Rightarrow> WebSocketHandler \<Rightarrow> WebSocketHandler" where
  "HandleWS upgraded h =
     (if \<not> upgraded then h
      else h\<lparr>heap := (heap h)(next_client h := new_client), register := register h @ [next_client h],
             next_client := Suc (next_client h)\<rparr>)"

text \<open>A read error ends the reader, whose deferred call sends the client on \<open>unregister\<close>.\<close>

definition readPump_end :: "nat \<Rightarrow> WebSocketHandler \<Rightarrow> WebSocketHandler" where
  "readPump_end c h = upd_client c (\<lambda>x. x\<lparr>reading := False\<rparr>) (h\<lparr>unregister := unregister h @ [c]\<rparr>)"

text \<open>
  One round of \<open>writePump\<close>: a message, the closed and drained channel, or a ping; \<open>written\<close> says whether
  the connection took what was written.
\<close>

definition writePump :: "bool \<Rightarrow> bool \<Rightarrow> nat \<Rightarrow> WebSocketHandler \<Rightarrow> WebSocketHandler" where
  "writePump ticked written c h =
     upd_client c
       (\<lambda>x. if ticked then x\<lparr>writing := written\<rparr>
            else case send x of
              m # ms \<Rightarrow> x\<lparr>send := ms, taken := taken x @ [m], writing := written\<rparr>
            | [] \<Rightarrow> if closed x then x\<lparr>writing := False\<rparr> else x) h"

section \<open>The goroutines together\<close>

inductive hub_step :: "WebSocketHandler \<Rightarrow> WebSocketHandler \<Rightarrow> bool" where
  connect: "hub_step h (HandleWS upgraded h)"
| publish: "hub_step h (Broadcast m h)"
| registers: "c \<in> set (register h) \<Longrightarrow> hub_step h (hub_register c h)"
| unregisters: "c \<in> set (unregister h) \<Longrightarrow> hub_step h (hub_unregister c h)"
| broadcasts: "distinct order \<Longrightarrow> set order = set (clients h) \<Longrightarrow> hub_step h (hub_broadcast order h)"
| read_error: "reading (heap h c) \<Longrightarrow> hub_step h (readPump_end c h)"
| writes: "writing (heap h c) \<Longrightarrow> hub_step h (writePump ticked written c h)"

inductive hub_reachable :: "WebSocketHandler \<Rightarrow> bool" where
  start: "hub_reachable NewWebSocketHandler"
| step: "hub_reachable h \<Longrightarrow> hub_step h h' \<Longrightarrow> hub_reachable h'"

inductive_cases hub_stepE: "hub_step h h'"

section \<open>The invariant\<close>

text \<open>
  What a client has been sent of the messages \<open>ms\<close> that \<open>Run\<close> processed: a member of the map has an open
  channel and everything since it registered, a former one has a prefix of that.
\<close>

definition sent_ok :: "bool \<Rightarrow> outboundMessage list \<Rightarrow> Client \<Rightarrow> bool" where
  "sent_ok member ms x \<longleftrightarrow> length (send x) \<le> 256 \<and> joined x \<le> length ms \<and>
     (let since = map payload (drop (joined x) ms)
      in if member then \<not> closed x \<and> taken x @ send x = since else \<exists>n. taken x @ send x = take n since)"

lemma sent_ok_irrelevant [simp]:
  "sent_ok b ms (x\<lparr>reading := r\<rparr>) = sent_ok b ms x" "sent_ok b ms (x\<lparr>writing := r\<rparr>) = sent_ok b ms x"
  by (simp_all add: sent_ok_def)

lemma sent_ok_new: "sent_ok False ms new_client"
  by (auto simp: sent_ok_def new_client_def intro: exI [of _ 0])

lemma sent_ok_join: "sent_ok True ms (new_client\<lparr>reading := True, writing := True, joined := length ms\<rparr>)"
  by (simp add: sent_ok_def new_client_def)

lemma sent_ok_leave: "sent_ok True ms x \<Longrightarrow> sent_ok False ms (x\<lparr>closed := True\<rparr>)"
  by (auto simp: sent_ok_def Let_def intro: exI [of _ "length ms"])

lemma sent_ok_more:
  assumes "sent_ok False ms x" shows "sent_ok False (ms @ [m]) x"
proof -
  let ?since = "map payload (drop (joined x) ms)"
  from assms have j: "joined x \<le> length ms" by (simp add: sent_ok_def)
  from assms obtain n where n: "taken x @ send x = take n ?since" by (auto simp: sent_ok_def Let_def)
  then have "taken x @ send x = take (min n (length ?since)) (?since @ [payload m])" by (simp add: min_def)
  also have "?since @ [payload m] = map payload (drop (joined x) (ms @ [m]))" using j by simp
  finally have "\<exists>n. taken x @ send x = take n (map payload (drop (joined x) (ms @ [m])))" by blast
  with assms j show ?thesis by (simp add: sent_ok_def Let_def)
qed

lemma sent_ok_send:
  "sent_ok True ms x \<Longrightarrow> length (send x) < 256 \<Longrightarrow> sent_ok True (ms @ [m]) (x\<lparr>send := send x @ [payload m]\<rparr>)"
  by (auto simp: sent_ok_def Let_def simp flip: append_assoc)

lemma sent_ok_take:
  "sent_ok b ms x \<Longrightarrow> send x = y # ys \<Longrightarrow> sent_ok b ms (x\<lparr>send := ys, taken := taken x @ [y]\<rparr>)"
  by (auto simp: sent_ok_def Let_def)

lemma sent_ok_open: "sent_ok True ms x \<Longrightarrow> \<not> closed x"
  by (simp add: sent_ok_def Let_def)

text \<open>\<open>lag\<close> are the members that the broadcast under way has still to serve.\<close>

definition sent_at :: "nat set \<Rightarrow> WebSocketHandler \<Rightarrow> nat \<Rightarrow> bool" where
  "sent_at lag h c \<longleftrightarrow> sent_ok (c \<in> set (clients h)) (if c \<in> lag then butlast (processed h) else processed h) (heap h c)"

definition hub_frame :: "nat set \<Rightarrow> WebSocketHandler \<Rightarrow> bool" where
  "hub_frame lag h \<longleftrightarrow> \<not> panicked h \<and> distinct (clients h) \<and> distinct (register h) \<and>
     set (clients h) \<inter> set (register h) = {} \<and> set (clients h) \<union> set (register h) \<subseteq> {..<next_client h} \<and>
     (\<forall>c. next_client h \<le> c \<or> c \<in> set (register h) \<longrightarrow> heap h c = new_client) \<and>
     length (broadcast h) \<le> 256 \<and> queued h = processed h @ broadcast h \<and> lag \<subseteq> set (clients h)"

definition hub_inv :: "nat set \<Rightarrow> WebSocketHandler \<Rightarrow> bool" where
  "hub_inv lag h \<longleftrightarrow> hub_frame lag h \<and> (\<forall>c. sent_at lag h c)"

lemmas hub_ops = upd_client_def close_send_def hub_register_def hub_unregister_def hub_send_def Broadcast_def
  HandleWS_def readPump_end_def writePump_def

lemma hub_invI: "hub_frame lag h \<Longrightarrow> (\<And>c. sent_at lag h c) \<Longrightarrow> hub_inv lag h"
  by (simp add: hub_inv_def)

lemma hub_invD: "hub_inv lag h \<Longrightarrow> hub_frame lag h" "hub_inv lag h \<Longrightarrow> sent_at lag h c"
  by (simp_all add: hub_inv_def)

text \<open>Only the client an operation touches has to be looked at.\<close>

lemma sent_at_other:
  "sent_at lag h d \<Longrightarrow> heap h' d = heap h d \<Longrightarrow> processed h' = processed h \<Longrightarrow>
   (d \<in> set (clients h')) = (d \<in> set (clients h)) \<Longrightarrow> (d \<in> lag') = (d \<in> lag) \<Longrightarrow> sent_at lag' h' d"
  unfolding sent_at_def by (simp only:)

lemma hub_inv_one:
  assumes "hub_inv lag h" and "hub_frame lag' h'" and "sent_at lag' h' c" and "processed h' = processed h"
    and "\<And>d. d \<noteq> c \<Longrightarrow> heap h' d = heap h d"
    and "\<And>d. d \<noteq> c \<Longrightarrow> (d \<in> set (clients h')) = (d \<in> set (clients h)) \<and> (d \<in> lag') = (d \<in> lag)"
  shows "hub_inv lag' h'"
proof (rule hub_invI)
  fix d show "sent_at lag' h' d"
    using assms(3) sent_at_other [of lag h d h' lag'] hub_invD(2) [OF assms(1), of d] assms(4-6) by (cases "d = c") auto
qed (rule assms(2))

lemma hub_inv_start: "hub_inv {} NewWebSocketHandler"
  by (simp add: hub_inv_def hub_frame_def sent_at_def NewWebSocketHandler_def sent_ok_new)

lemma hub_inv_HandleWS:
  assumes "hub_inv {} h" shows "hub_inv {} (HandleWS upgraded h)"
proof (cases upgraded)
  case True
  have "next_client h \<notin> set (clients h)" "next_client h \<notin> set (register h)" using hub_invD(1) [OF assms] by (auto simp: hub_frame_def)
  with hub_invD(1) [OF assms] True show ?thesis
    by (intro hub_inv_one [OF assms, of _ _ "next_client h"]) (auto simp: hub_frame_def HandleWS_def sent_at_def sent_ok_new less_Suc_eq)
qed (use assms in \<open>simp add: HandleWS_def\<close>)

lemma hub_inv_Broadcast:
  assumes "hub_inv {} h" shows "hub_inv {} (Broadcast m h)"
  using hub_invD [OF assms] by (auto intro!: hub_invI simp: hub_frame_def sent_at_def Broadcast_def)

lemma hub_inv_register:
  assumes "hub_inv {} h" and "c \<in> set (register h)" shows "hub_inv {} (hub_register c h)"
proof -
  have "heap h c = new_client" "c \<notin> set (clients h)" "c < next_client h"
    using hub_invD(1) [OF assms(1)] assms(2) by (auto simp: hub_frame_def)
  then show ?thesis
    using hub_invD(1) [OF assms(1)] assms(2) sent_ok_join [of "processed h"]
    by (intro hub_inv_one [OF assms(1), of _ _ c]) (auto simp: hub_frame_def hub_register_def upd_client_def sent_at_def)
qed

lemma hub_inv_unregister:
  assumes "hub_inv {} h" shows "hub_inv {} (hub_unregister c h)"
proof (cases "c \<in> set (clients h)")
  case True
  then have x: "sent_ok True (processed h) (heap h c)" using hub_invD(2) [OF assms, of c] by (simp add: sent_at_def)
  from True hub_invD(1) [OF assms] sent_ok_leave [OF x] sent_ok_open [OF x] show ?thesis
    by (intro hub_inv_one [OF assms, of _ _ c])
       (auto simp: hub_frame_def hub_unregister_def close_send_def upd_client_def Let_def sent_at_def)
next
  case False
  with hub_invD [OF assms] show ?thesis
    by (auto intro!: hub_invI simp: hub_frame_def sent_at_def hub_unregister_def)
qed

lemma hub_inv_read:
  assumes "hub_inv {} h" and "reading (heap h c)" shows "hub_inv {} (readPump_end c h)"
  using hub_invD(1) [OF assms(1)] hub_invD(2) [OF assms(1), of c] assms(2)
  by (intro hub_inv_one [OF assms(1), of _ _ c]) (auto simp: hub_frame_def readPump_end_def upd_client_def new_client_def sent_at_def)

lemma hub_inv_write:
  assumes "hub_inv {} h" and "writing (heap h c)" shows "hub_inv {} (writePump ticked written c h)"
proof -
  have c: "next_client h > c" "c \<notin> set (register h)"
    using hub_invD(1) [OF assms(1)] assms(2) by (auto simp: hub_frame_def new_client_def not_le [symmetric])
  have x: "sent_ok (c \<in> set (clients h)) (processed h) (heap h c)" using hub_invD(2) [OF assms(1), of c] by (simp add: sent_at_def)
  show ?thesis
    using c x sent_ok_take [OF x] hub_invD(1) [OF assms(1)]
    by (intro hub_inv_one [OF assms(1), of _ _ c]) (auto simp: hub_frame_def writePump_def upd_client_def sent_at_def split: list.split)
qed

text \<open>One turn of the loop over the map serves one lagging member.\<close>

lemma hub_inv_send:
  assumes "hub_inv lag h" and "c \<in> lag" and "processed h = ms @ [m]"
  shows "hub_inv (lag - {c}) (hub_send m c h)"
proof -
  have c: "c \<in> set (clients h)" "c \<notin> set (register h)" "c < next_client h"
    using hub_invD(1) [OF assms(1)] assms(2) by (auto simp: hub_frame_def)
  with hub_invD(2) [OF assms(1), of c] assms(2,3) have x: "sent_ok True ms (heap h c)" by (simp add: sent_at_def)
  note facts = c sent_ok_open [OF x] hub_invD(1) [OF assms(1)] assms(3)
  show ?thesis
  proof (cases "length (send (heap h c)) < 256")
    case True
    with facts sent_ok_send [OF x True, of m] show ?thesis
      by (intro hub_inv_one [OF assms(1), of _ _ c]) (auto simp: hub_frame_def hub_send_def upd_client_def sent_at_def)
  next
    case False
    with facts sent_ok_more [OF sent_ok_leave [OF x], of m] show ?thesis
      by (intro hub_inv_one [OF assms(1), of _ _ c])
         (auto simp: hub_frame_def hub_send_def close_send_def upd_client_def Let_def sent_at_def)
  qed
qed

lemma hub_send_processed [simp]: "processed (hub_send m c h) = processed h"
  by (simp add: hub_ops Let_def)

lemma hub_inv_fold:
  "hub_inv lag h \<Longrightarrow> distinct order \<Longrightarrow> lag = set order \<Longrightarrow> processed h = ms @ [m] \<Longrightarrow> hub_inv {} (fold (hub_send m) order h)"
proof (induction order arbitrary: lag h)
  case (Cons c order)
  from Cons.prems have "hub_inv (lag - {c}) (hub_send m c h)" by (intro hub_inv_send) auto
  with Cons.IH [OF this] Cons.prems show ?case by auto
qed auto

lemma hub_inv_broadcast:
  assumes "hub_inv {} h" and "distinct order" and "set order = set (clients h)"
  shows "hub_inv {} (hub_broadcast order h)"
proof (cases "broadcast h")
  case (Cons m ms)
  let ?h = "h\<lparr>broadcast := ms, processed := processed h @ [m]\<rparr>"
  have "sent_at (set order) ?h c" for c
    using hub_invD(2) [OF assms(1), of c] assms(3) sent_ok_more [of "processed h"] by (auto simp: sent_at_def)
  then have "hub_inv (set order) ?h"
    using hub_invD(1) [OF assms(1)] assms(3) Cons by (intro hub_invI) (auto simp: hub_frame_def)
  from hub_inv_fold [OF this assms(2) refl] Cons show ?thesis by (simp add: hub_broadcast_def)
qed (use assms in \<open>simp add: hub_broadcast_def\<close>)

lemmas hub_inv_steps = hub_inv_HandleWS hub_inv_Broadcast hub_inv_register hub_inv_unregister hub_inv_read
  hub_inv_write hub_inv_broadcast

lemma hub_inv_reachable: "hub_reachable h \<Longrightarrow> hub_inv {} h"
proof (induction rule: hub_reachable.induct)
  case (step h h')
  from step(2,3) show ?case by (cases rule: hub_stepE) (auto intro: hub_inv_steps)
qed (rule hub_inv_start)

text \<open>
  C39: the hub. In every interleaving of \<open>Run\<close>, \<open>Broadcast\<close>, connections, read errors and writers the Go
  runtime never panics: nobody sends on a closed channel and no channel is closed twice. Every buffer
  holds at most 256 messages. The messages \<open>Broadcast\<close> accepted are those \<open>Run\<close> processed and those still
  queued. A client in the map has been sent every message processed since it registered, in order and
  without a gap; a client that was removed has been sent a prefix of them.
\<close>

theorem hub_never_panics:
  assumes "hub_reachable h"
  shows "\<not> panicked h \<and> length (broadcast h) \<le> 256 \<and> queued h = processed h @ broadcast h \<and>
    (let since = map payload (drop (joined (heap h c)) (processed h)); received = taken (heap h c) @ send (heap h c)
     in length (send (heap h c)) \<le> 256 \<and>
        (if c \<in> set (clients h) then \<not> closed (heap h c) \<and> received = since else \<exists>n. received = take n since))"
  using hub_invD [OF hub_inv_reachable [OF assms]]
  by (simp add: hub_frame_def sent_at_def sent_ok_def Let_def)

section \<open>A concrete run\<close>

definition demo_message :: "int \<Rightarrow> outboundMessage" where
  "demo_message n = \<lparr>payload = JInt n, messageType = ''trade''\<rparr>"

text \<open>A client connects after message 1 was processed, gets message 2 and leaves before message 3.\<close>

definition demo_hub :: WebSocketHandler where
  "demo_hub = hub_broadcast [] (Broadcast (demo_message 3) (hub_unregister 0 (readPump_end 0
     (hub_broadcast [0] (Broadcast (demo_message 2) (hub_register 0 (HandleWS True
       (hub_broadcast [] (Broadcast (demo_message 1) NewWebSocketHandler)))))))))"

lemmas demo_hub_simps = hub_ops hub_broadcast_def NewWebSocketHandler_def new_client_def demo_message_def

lemma demo_hub_reachable: "hub_reachable demo_hub"
  unfolding demo_hub_def
  by (intro hub_reachable.step [OF _ hub_step.broadcasts] hub_reachable.step [OF _ hub_step.publish]
      hub_reachable.step [OF _ hub_step.unregisters] hub_reachable.step [OF _ hub_step.read_error]
      hub_reachable.step [OF _ hub_step.registers] hub_reachable.step [OF _ hub_step.connect] hub_reachable.start)
     (simp_all add: demo_hub_simps)

theorem hub_never_panics_witness:
  "\<not> panicked demo_hub \<and> map payload (processed demo_hub) = [JInt 1, JInt 2, JInt 3] \<and> send (heap demo_hub 0) = [JInt 2] \<and>
   (\<exists>n. send (heap demo_hub 0) = take n [JInt 2, JInt 3])"
proof -
  have e: "map payload (processed demo_hub) = [JInt 1, JInt 2, JInt 3]" "send (heap demo_hub 0) = [JInt 2]"
    "taken (heap demo_hub 0) = []" "joined (heap demo_hub 0) = 1" "clients demo_hub = []"
    by (simp_all add: demo_hub_def demo_hub_simps)
  have "map payload (drop 1 (processed demo_hub)) = [JInt 2, JInt 3]"
    using e(1) by (simp flip: drop_map)
  with hub_never_panics [OF demo_hub_reachable, of 0] e show ?thesis by (simp add: Let_def)
qed

end
