(* ===== verification/Metrics.thy ===== *)
theory Metrics
  imports WebSocket Middleware
begin

text \<open>
  The metrics: src/internal/infrastructure/metrics/metrics.go. Prometheus counters, gauges and histograms are
  a registry of numbers per name and labels (the client library's documented behaviour); a histogram is kept as
  the list of its observations. What \<open>Ensure\<close> registers is fixed, and the gauges read from the connection pools
  (\<open>RegisterDBStats\<close>, \<open>RegisterRedisStats\<close>) are calls of the libraries. The second part instruments the WebSocket
  hub as src/internal/api/websocket_handler.go does.
\<close>

section \<open>The registry\<close>

type_synonym series = "string \<times> string list"

record registry =
  counters :: "series \<Rightarrow> nat"
  gauges :: "series \<Rightarrow> rat"
  histograms :: "series \<Rightarrow> rat list"

definition Inc :: "series \<Rightarrow> registry \<Rightarrow> registry" where
  "Inc k r = r\<lparr>counters := (counters r)(k := Suc (counters r k))\<rparr>"

definition Add :: "series \<Rightarrow> nat \<Rightarrow> registry \<Rightarrow> registry" where
  "Add k n r = r\<lparr>counters := (counters r)(k := counters r k + n)\<rparr>"

definition Observe :: "series \<Rightarrow> rat \<Rightarrow> registry \<Rightarrow> registry" where
  "Observe k x r = r\<lparr>histograms := (histograms r)(k := histograms r k @ [x])\<rparr>"

definition GaugeAdd :: "series \<Rightarrow> rat \<Rightarrow> registry \<Rightarrow> registry" where
  "GaugeAdd k x r = r\<lparr>gauges := (gauges r)(k := gauges r k + x)\<rparr>"

definition GaugeSet :: "series \<Rightarrow> rat \<Rightarrow> registry \<Rightarrow> registry" where
  "GaugeSet k x r = r\<lparr>gauges := (gauges r)(k := x)\<rparr>"

lemmas registry_ops = Inc_def Add_def Observe_def GaugeAdd_def GaugeSet_def

section \<open>The recording functions\<close>

text \<open>\<open>aborts e\<close>: the error wraps \<open>http.ErrAbortHandler\<close>.\<close>

definition resultLabel :: "(error \<Rightarrow> bool) \<Rightarrow> error option \<Rightarrow> string" where
  "resultLabel aborts err =
     (case err of None \<Rightarrow> ''success'' | Some e \<Rightarrow> if aborts e then ''aborted'' else ''error'')"

definition ObserveOrder :: "(error \<Rightarrow> bool) \<Rightarrow> string \<Rightarrow> string \<Rightarrow> string \<Rightarrow> error option \<Rightarrow> seconds \<Rightarrow> registry \<Rightarrow> registry" where
  "ObserveOrder aborts mode side orderType err duration r =
     (let result = resultLabel aborts err;
          r1 = Inc (''orders_total'', [mode, side, orderType, result]) r
      in Observe (''order_processing_duration_seconds'', [mode, side, orderType, result]) duration r1)"

definition AddTradesExecuted :: "string \<Rightarrow> int \<Rightarrow> registry \<Rightarrow> registry" where
  "AddTradesExecuted mode n r =
     (if n \<le> 0 then r else Add (''trades_executed_total'', [mode]) (nat n) r)"

definition ObserveKafkaEvent :: "(error \<Rightarrow> bool) \<Rightarrow> string \<Rightarrow> string \<Rightarrow> error option \<Rightarrow> seconds \<Rightarrow> registry \<Rightarrow> registry" where
  "ObserveKafkaEvent aborts component handler err duration r =
     (let result = resultLabel aborts err;
          r1 = Inc (''kafka_events_total'', [component, handler, result]) r
      in Observe (''kafka_event_duration_seconds'', [component, handler, result]) duration r1)"

definition WebSocketConnected :: "string \<Rightarrow> registry \<Rightarrow> registry" where
  "WebSocketConnected service r = GaugeAdd (''websocket_connections'', [service]) 1 r"

definition WebSocketDisconnected :: "string \<Rightarrow> registry \<Rightarrow> registry" where
  "WebSocketDisconnected service r = GaugeAdd (''websocket_connections'', [service]) (-1) r"

definition RecordWebSocketBroadcast :: "string \<Rightarrow> string \<Rightarrow> string \<Rightarrow> registry \<Rightarrow> registry" where
  "RecordWebSocketBroadcast service msgType result r = Inc (''websocket_broadcast_total'', [service, msgType, result]) r"

definition ObserveWebSocketBroadcastDuration :: "string \<Rightarrow> string \<Rightarrow> seconds \<Rightarrow> registry \<Rightarrow> registry" where
  "ObserveWebSocketBroadcastDuration service msgType duration r =
     Observe (''websocket_broadcast_duration_seconds'', [service, msgType]) duration r"

definition RecordWebSocketDroppedClient :: "string \<Rightarrow> string \<Rightarrow> registry \<Rightarrow> registry" where
  "RecordWebSocketDroppedClient service reason r = Inc (''websocket_dropped_clients_total'', [service, reason]) r"

definition SetOutboxPendingCount :: "rat \<Rightarrow> registry \<Rightarrow> registry" where
  "SetOutboxPendingCount n r = GaugeSet (''outbox_pending_count'', []) n r"

definition ObserveOutboxPublish :: "string \<Rightarrow> seconds \<Rightarrow> registry \<Rightarrow> registry" where
  "ObserveOutboxPublish result duration r =
     Observe (''outbox_publish_latency_seconds'', []) duration (Inc (''outbox_publish_total'', [result]) r)"

definition SetPartitionLeader :: "string \<Rightarrow> bool \<Rightarrow> registry \<Rightarrow> registry" where
  "SetPartitionLeader part isLeader r =
     (let val = (if isLeader then 1 else 0) in GaugeSet (''is_partition_leader'', [part]) val r)"

definition ObserveLeaderRenewal :: "string \<Rightarrow> registry \<Rightarrow> registry" where
  "ObserveLeaderRenewal result r = Inc (''leader_lease_renewals_total'', [result]) r"

section \<open>The HTTP middleware\<close>

function show_nat :: "nat \<Rightarrow> string" where
  "show_nat n = (if n < 10 then [char_of (48 + n)] else show_nat (n div 10) @ [char_of (48 + n mod 10)])"
  by auto
termination by (relation "measure id") auto

declare show_nat.simps [simp del]

text \<open>
  The handlers behind the middleware may panic (\<open>None\<close>); the panic passes through to gin's recovery, so only
  the deferred decrement runs. \<open>fullPath\<close> is the route's pattern, empty when there is none.
\<close>

definition metrics_Middleware ::
  "string \<Rightarrow> string \<Rightarrow> string \<Rightarrow> string \<Rightarrow> (registry \<times> 'w \<Rightarrow> writer_call list option \<times> registry \<times> 'w) \<Rightarrow> seconds \<Rightarrow>
   registry \<times> 'w \<Rightarrow> writer_call list option \<times> registry \<times> 'w" where
  "metrics_Middleware serviceName http_method path fullPath next_handler elapsed = (\<lambda>(r, w).
     if path = ''/metrics'' then next_handler (r, w)
     else (let inflight = (''http_in_flight_requests'', [serviceName]);
               (out, r1, w') = next_handler (GaugeAdd inflight 1 r, w);
               r2 = (case out of
                       None \<Rightarrow> r1
                     | Some cs \<Rightarrow>
                         (let statusLabel = show_nat (nat (fst (client_response cs)));
                              pathLabel = (if fullPath = '''' then path else fullPath);
                              labels = [serviceName, http_method, pathLabel, statusLabel]
                          in Observe (''http_request_duration_seconds'', labels) elapsed (Inc (''http_requests_total'', labels) r1)))
           in (out, GaugeAdd inflight (-1) r2, w')))"

definition requests_of :: "registry \<Rightarrow> string list \<Rightarrow> nat" where
  "requests_of r labels = counters r (''http_requests_total'', labels)"

text \<open>
  The gauge of requests in flight is balanced even when the handler panics; a request is counted exactly once
  under the status it was answered with, unless the handler panics: then it is not counted at all.
\<close>

lemma middleware_counts:
  assumes "path \<noteq> ''/metrics''"
    and "metrics_Middleware svc m path full h el (r, w) = (out, r', w')"
    and "h (GaugeAdd (''http_in_flight_requests'', [svc]) 1 r, w) = (out, r1, w')"
    and "gauges r1 = gauges (GaugeAdd (''http_in_flight_requests'', [svc]) 1 r)" "counters r1 = counters r"
  shows "gauges r' = gauges r \<and>
    (case out of
       None \<Rightarrow> counters r' = counters r
     | Some cs \<Rightarrow> (\<forall>labels. requests_of r' labels = requests_of r labels +
         (if labels = [svc, m, if full = '''' then path else full, show_nat (nat (fst (client_response cs)))] then 1 else 0)))"
  using assms by (auto simp: metrics_Middleware_def registry_ops requests_of_def Let_def split: option.splits)

section \<open>The instrumented hub\<close>

definition m_register :: "string \<Rightarrow> nat \<Rightarrow> WebSocketHandler \<times> registry \<Rightarrow> WebSocketHandler \<times> registry" where
  "m_register svc c = (\<lambda>(h, r). (hub_register c h, WebSocketConnected svc r))"

definition m_unregister :: "string \<Rightarrow> nat \<Rightarrow> WebSocketHandler \<times> registry \<Rightarrow> WebSocketHandler \<times> registry" where
  "m_unregister svc c = (\<lambda>(h, r). (hub_unregister c h, if c \<in> set (clients h) then WebSocketDisconnected svc r else r))"

definition m_send :: "string \<Rightarrow> outboundMessage \<Rightarrow> nat \<Rightarrow> WebSocketHandler \<times> registry \<Rightarrow> WebSocketHandler \<times> registry" where
  "m_send svc m c = (\<lambda>(h, r).
     (hub_send m c h,
      if closed (heap h c) \<or> length (send (heap h c)) < 256 then r
      else WebSocketDisconnected svc (RecordWebSocketBroadcast svc (messageType m) ''client_buffer_full'' r)))"

definition m_broadcast :: "string \<Rightarrow> nat list \<Rightarrow> WebSocketHandler \<times> registry \<Rightarrow> WebSocketHandler \<times> registry" where
  "m_broadcast svc order = (\<lambda>(h, r).
     case broadcast h of
       [] \<Rightarrow> (h, r)
     | m # ms \<Rightarrow> fold (m_send svc m) order (h\<lparr>broadcast := ms, processed := processed h @ [m]\<rparr>, r))"

definition m_Broadcast :: "string \<Rightarrow> outboundMessage \<Rightarrow> WebSocketHandler \<times> registry \<Rightarrow> WebSocketHandler \<times> registry" where
  "m_Broadcast svc m = (\<lambda>(h, r).
     (Broadcast m h,
      RecordWebSocketBroadcast svc (messageType m) (if length (broadcast h) < 256 then ''queued'' else ''dropped'') r))"

inductive m_step :: "string \<Rightarrow> WebSocketHandler \<times> registry \<Rightarrow> WebSocketHandler \<times> registry \<Rightarrow> bool" for svc where
  connect: "m_step svc (h, r) (HandleWS upgraded h, r)"
| publish: "m_step svc (h, r) (m_Broadcast svc m (h, r))"
| registers: "c \<in> set (register h) \<Longrightarrow> m_step svc (h, r) (m_register svc c (h, r))"
| unregisters: "c \<in> set (unregister h) \<Longrightarrow> m_step svc (h, r) (m_unregister svc c (h, r))"
| broadcasts: "distinct order \<Longrightarrow> set order = set (clients h) \<Longrightarrow> m_step svc (h, r) (m_broadcast svc order (h, r))"
| read_error: "reading (heap h c) \<Longrightarrow> m_step svc (h, r) (readPump_end c h, r)"
| writes: "writing (heap h c) \<Longrightarrow> m_step svc (h, r) (writePump ticked written c h, r)"

inductive m_reachable :: "string \<Rightarrow> registry \<Rightarrow> WebSocketHandler \<times> registry \<Rightarrow> bool" for svc r0 where
  start: "m_reachable svc r0 (NewWebSocketHandler, r0)"
| step: "m_reachable svc r0 s \<Longrightarrow> m_step svc s s' \<Longrightarrow> m_reachable svc r0 s'"

inductive_cases m_stepE: "m_step svc s s'"

text \<open>Without its metrics the instrumented hub is the hub.\<close>

lemma fst_m_send_fold: "fst (fold (m_send svc m) order (h, r)) = fold (hub_send m) order h"
  by (induction order arbitrary: h r) (simp_all add: m_send_def)

lemma fst_m_broadcast: "fst (m_broadcast svc order (h, r)) = hub_broadcast order h"
  by (simp add: m_broadcast_def hub_broadcast_def fst_m_send_fold split: list.split)

lemma m_step_hub: "m_step svc s s' \<Longrightarrow> hub_step (fst s) (fst s')"
  by (erule m_stepE) (auto simp: m_register_def m_unregister_def m_Broadcast_def fst_m_broadcast intro: hub_step.intros)

lemma m_reachable_hub: "m_reachable svc r0 s \<Longrightarrow> hub_reachable (fst s)"
  by (induction rule: m_reachable.induct) (auto intro: hub_reachable.intros m_step_hub)

text \<open>The gauge of connections is the number of registered clients.\<close>

definition connections :: "string \<Rightarrow> registry \<Rightarrow> rat" where
  "connections svc r = gauges r (''websocket_connections'', [svc])"

lemma connections_ops [simp]:
  "connections svc (WebSocketConnected svc r) = connections svc r + 1"
  "connections svc (WebSocketDisconnected svc r) = connections svc r - 1"
  "connections svc (RecordWebSocketBroadcast svc' t res r) = connections svc r"
  by (simp_all add: connections_def WebSocketConnected_def WebSocketDisconnected_def RecordWebSocketBroadcast_def registry_ops)

definition gauge_ok :: "string \<Rightarrow> rat \<Rightarrow> WebSocketHandler \<times> registry \<Rightarrow> bool" where
  "gauge_ok svc x s \<longleftrightarrow> connections svc (snd s) - x = of_nat (length (clients (fst s)))"

lemma length_remove1_mem: "c \<in> set xs \<Longrightarrow> of_nat (length (remove1 c xs)) = (of_nat (length xs) :: rat) - 1"
  by (induction xs) auto

lemma gauge_send:
  assumes "hub_inv lag h" "c \<in> lag" "gauge_ok svc x (h, r)"
  shows "gauge_ok svc x (m_send svc m c (h, r))"
proof -
  have c: "c \<in> set (clients h)" using hub_invD(1) [OF assms(1)] assms(2) by (auto simp: hub_frame_def)
  with hub_invD(2) [OF assms(1), of c] have "\<not> closed (heap h c)" by (auto simp: sent_at_def dest: sent_ok_open)
  with c assms(3) length_remove1_mem [OF c] show ?thesis
    by (auto simp: gauge_ok_def m_send_def hub_send_def close_send_def upd_client_def Let_def)
qed

lemma gauge_fold:
  "hub_inv lag h \<Longrightarrow> distinct order \<Longrightarrow> lag = set order \<Longrightarrow> processed h = ms @ [m] \<Longrightarrow> gauge_ok svc x (h, r) \<Longrightarrow>
     gauge_ok svc x (fold (m_send svc m) order (h, r))"
proof (induction order arbitrary: lag h r)
  case (Cons c order)
  from Cons.prems have i: "hub_inv (lag - {c}) (hub_send m c h)" by (intro hub_inv_send) auto
  from Cons.prems have "gauge_ok svc x (m_send svc m c (h, r))" by (intro gauge_send) auto
  moreover obtain r' where "m_send svc m c (h, r) = (hub_send m c h, r')" by (simp add: m_send_def)
  ultimately show ?case using Cons.IH [OF i] Cons.prems by auto
qed simp

lemma gauge_step:
  assumes "m_step svc s s'" and "hub_inv {} (fst s)" and "gauge_ok svc x s"
  shows "gauge_ok svc x s'"
  using assms(1)
proof (cases rule: m_step.cases)
  case (registers c h)
  then have "c \<notin> set (clients h)" using hub_invD(1) [OF assms(2)] by (auto simp: hub_frame_def)
  with registers assms(3) show ?thesis by (simp add: gauge_ok_def m_register_def hub_register_def upd_client_def)
next
  case (unregisters c h r)
  with assms(3) length_remove1_mem [of c "clients h"] show ?thesis
    by (auto simp: gauge_ok_def m_unregister_def hub_unregister_def close_send_def upd_client_def Let_def)
next
  case (broadcasts order h r)
  show ?thesis
  proof (cases "broadcast h")
    case (Cons m ms)
    let ?h = "h\<lparr>broadcast := ms, processed := processed h @ [m]\<rparr>"
    note h = assms(2) [unfolded broadcasts(1) fst_conv]
    have "sent_at (set order) ?h c" for c
      using hub_invD(2) [OF h, of c] broadcasts(4) sent_ok_more [of "processed h"] by (auto simp: sent_at_def)
    then have "hub_inv (set order) ?h"
      using hub_invD(1) [OF h] broadcasts(4) Cons by (intro hub_invI) (auto simp: hub_frame_def)
    moreover have "gauge_ok svc x (?h, r)" using assms(3) broadcasts by (simp add: gauge_ok_def)
    ultimately show ?thesis using gauge_fold [OF _ broadcasts(3) refl, of ?h "processed h" m] broadcasts(2) Cons
      by (simp add: m_broadcast_def)
  qed (use broadcasts assms(3) in \<open>simp add: m_broadcast_def\<close>)
qed (use assms(3) in \<open>auto simp: gauge_ok_def HandleWS_def m_Broadcast_def Broadcast_def readPump_end_def writePump_def upd_client_def\<close>)

lemma connections_gauge:
  "m_reachable svc r0 s \<Longrightarrow> connections svc (snd s) - connections svc r0 = of_nat (length (clients (fst s)))"
proof (induction rule: m_reachable.induct)
  case (step s s')
  from gauge_step [OF step(2) hub_inv_reachable [OF m_reachable_hub [OF step(1)]]] step(3) show ?case
    by (simp add: gauge_ok_def)
qed (simp add: NewWebSocketHandler_def)

end
