(* ===== verification/Collectors.thy ===== *)
theory Collectors
  imports Metrics
begin

text \<open>
  The collectors of src/internal/infrastructure/metrics/metrics.go: which metric has which kind and labels, what
  \<open>Ensure\<close> registers once, and the gauges that read the statistics of the connection pools. Registering is the
  documented behaviour of the Prometheus client: a collector of a name and constant labels that are already
  registered, or of a registered name with other label names, is refused, and \<open>MustRegister\<close> then panics.
  Shown: a process that registers each pool once never panics, one that registers a pool twice does, and every
  recording function writes only to series of a registered collector of its kind, with as many label values
  as it has labels.
\<close>

section \<open>Collectors\<close>

datatype kind = CounterVec | GaugeVec | HistogramVec | GaugeFunc

record collector =
  coName :: string
  coKind :: kind
  coLabels :: "string list"
  coConst :: "(string \<times> string) list"

text \<open>The full name joins namespace, subsystem and name.\<close>

definition BuildFQName :: "string \<Rightarrow> string \<Rightarrow> string \<Rightarrow> string" where
  "BuildFQName namespace subsystem name =
     (if subsystem = '''' then namespace @ ''_'' @ name else namespace @ ''_'' @ subsystem @ ''_'' @ name)"

definition vec :: "kind \<Rightarrow> string \<Rightarrow> string list \<Rightarrow> collector" where
  "vec k name labels =
     \<lparr>coName = BuildFQName ''exchange'' '''' name, coKind = k, coLabels = labels, coConst = []\<rparr>"

definition requestTotal :: collector where
  "requestTotal = vec CounterVec ''http_requests_total'' [''service'', ''method'', ''path'', ''status'']"
definition requestDuration :: collector where
  "requestDuration = vec HistogramVec ''http_request_duration_seconds'' [''service'', ''method'', ''path'', ''status'']"
definition inFlightRequests :: collector where
  "inFlightRequests = vec GaugeVec ''http_in_flight_requests'' [''service'']"
definition ordersTotal :: collector where
  "ordersTotal = vec CounterVec ''orders_total'' [''mode'', ''side'', ''type'', ''result'']"
definition orderDuration :: collector where
  "orderDuration = vec HistogramVec ''order_processing_duration_seconds'' [''mode'', ''side'', ''type'', ''result'']"
definition tradesExecutedTotal :: collector where
  "tradesExecutedTotal = vec CounterVec ''trades_executed_total'' [''mode'']"
definition kafkaEventsTotal :: collector where
  "kafkaEventsTotal = vec CounterVec ''kafka_events_total'' [''component'', ''handler'', ''result'']"
definition kafkaEventDuration :: collector where
  "kafkaEventDuration = vec HistogramVec ''kafka_event_duration_seconds'' [''component'', ''handler'', ''result'']"
definition websocketConnections :: collector where
  "websocketConnections = vec GaugeVec ''websocket_connections'' [''service'']"
definition websocketBroadcastTotal :: collector where
  "websocketBroadcastTotal = vec CounterVec ''websocket_broadcast_total'' [''service'', ''type'', ''result'']"
definition websocketBroadcastDuration :: collector where
  "websocketBroadcastDuration = vec HistogramVec ''websocket_broadcast_duration_seconds'' [''service'', ''type'']"
definition websocketDroppedClientsTotal :: collector where
  "websocketDroppedClientsTotal = vec CounterVec ''websocket_dropped_clients_total'' [''service'', ''reason'']"
definition outboxPendingCount :: collector where
  "outboxPendingCount = vec GaugeVec ''outbox_pending_count'' []"
definition outboxPublishTotal :: collector where
  "outboxPublishTotal = vec CounterVec ''outbox_publish_total'' [''result'']"
definition outboxPublishLatency :: collector where
  "outboxPublishLatency = vec HistogramVec ''outbox_publish_latency_seconds'' []"
definition isPartitionLeader :: collector where
  "isPartitionLeader = vec GaugeVec ''is_partition_leader'' [''partition'']"
definition leaderLeaseRenewalsTotal :: collector where
  "leaderLeaseRenewalsTotal = vec CounterVec ''leader_lease_renewals_total'' [''result'']"

lemmas collector_defs = vec_def BuildFQName_def requestTotal_def requestDuration_def inFlightRequests_def
  ordersTotal_def orderDuration_def tradesExecutedTotal_def kafkaEventsTotal_def kafkaEventDuration_def
  websocketConnections_def websocketBroadcastTotal_def websocketBroadcastDuration_def
  websocketDroppedClientsTotal_def outboxPendingCount_def outboxPublishTotal_def outboxPublishLatency_def
  isPartitionLeader_def leaderLeaseRenewalsTotal_def

section \<open>Registration\<close>

definition same_collector :: "collector \<Rightarrow> collector \<Rightarrow> bool" where
  "same_collector c d \<longleftrightarrow> coName c = coName d \<and> coConst c = coConst d"

definition consistent :: "collector \<Rightarrow> collector \<Rightarrow> bool" where
  "consistent c d \<longleftrightarrow> coName c = coName d \<longrightarrow>
     coLabels c = coLabels d \<and> map fst (coConst c) = map fst (coConst d)"

text \<open>\<open>None\<close> is the panic of \<open>MustRegister\<close>.\<close>

definition MustRegister :: "collector \<Rightarrow> collector list \<Rightarrow> collector list option" where
  "MustRegister c rs =
     (if list_ex (same_collector c) rs \<or> \<not> list_all (consistent c) rs then None else Some (rs @ [c]))"

fun register_all :: "collector list \<Rightarrow> collector list \<Rightarrow> collector list option" where
  "register_all [] rs = Some rs"
| "register_all (c # cs) rs = Option.bind (MustRegister c rs) (register_all cs)"

text \<open>The registry of a process, and whether \<open>registerOnce\<close> has run.\<close>

record prometheus =
  registered :: "collector list"
  registerOnce :: bool

definition ensured :: "collector list" where
  "ensured = [requestTotal, requestDuration, inFlightRequests, ordersTotal, orderDuration, tradesExecutedTotal,
     kafkaEventsTotal, kafkaEventDuration, websocketConnections, websocketBroadcastTotal,
     websocketBroadcastDuration, websocketDroppedClientsTotal, outboxPendingCount, outboxPublishTotal,
     outboxPublishLatency, isPartitionLeader, leaderLeaseRenewalsTotal]"

text \<open>A panic inside \<open>registerOnce\<close> counts as having run; the process dies of it here.\<close>

definition Ensure :: "prometheus \<Rightarrow> prometheus option" where
  "Ensure p =
     (if registerOnce p then Some p
      else map_option (\<lambda>rs. p\<lparr>registered := rs, registerOnce := True\<rparr>) (register_all ensured (registered p)))"

section \<open>Gauges of the connection pools\<close>

text \<open>What \<open>pool.Stat()\<close> and \<open>client.PoolStats()\<close> report; durations are in nanoseconds.\<close>

record pgx_Stat =
  TotalConns :: int
  IdleConns :: int
  AcquiredConns :: int
  EmptyAcquireCount :: int
  AcquireDuration :: int

record redis_PoolStats =
  Hits :: "32 word"
  Timeouts :: "32 word"
  rTotalConns :: "32 word"
  rIdleConns :: "32 word"
  StaleConns :: "32 word"

definition gauge_func :: "string \<Rightarrow> string \<Rightarrow> (string \<times> string) list \<Rightarrow> collector" where
  "gauge_func subsystem name labels =
     \<lparr>coName = BuildFQName ''exchange'' subsystem name, coKind = GaugeFunc, coLabels = [], coConst = labels\<rparr>"

definition db_gauges :: "string \<Rightarrow> (collector \<times> (pgx_Stat \<Rightarrow> rat)) list" where
  "db_gauges dbName =
     (let labels = [(''db_name'', dbName)] in
      [(gauge_func ''db'' ''total_connections'' labels, \<lambda>s. of_int (TotalConns s)),
       (gauge_func ''db'' ''idle_connections'' labels, \<lambda>s. of_int (IdleConns s)),
       (gauge_func ''db'' ''acquired_connections'' labels, \<lambda>s. of_int (AcquiredConns s)),
       (gauge_func ''db'' ''wait_count_total'' labels, \<lambda>s. of_int (EmptyAcquireCount s)),
       (gauge_func ''db'' ''wait_duration_seconds_total'' labels, \<lambda>s. of_int (AcquireDuration s) / 1000000000)])"

definition redis_gauges :: "string \<Rightarrow> (collector \<times> (redis_PoolStats \<Rightarrow> rat)) list" where
  "redis_gauges poolName =
     (let labels = [(''pool_name'', poolName)] in
      [(gauge_func ''redis'' ''total_connections'' labels, \<lambda>s. of_nat (unat (rTotalConns s))),
       (gauge_func ''redis'' ''idle_connections'' labels, \<lambda>s. of_nat (unat (rIdleConns s))),
       (gauge_func ''redis'' ''stale_connections'' labels, \<lambda>s. of_nat (unat (StaleConns s))),
       (gauge_func ''redis'' ''hits_total'' labels, \<lambda>s. of_nat (unat (Hits s))),
       (gauge_func ''redis'' ''timeouts_total'' labels, \<lambda>s. of_nat (unat (Timeouts s)))])"

definition register_gauges :: "collector list \<Rightarrow> prometheus \<Rightarrow> prometheus option" where
  "register_gauges cs p =
     Option.bind (Ensure p) (\<lambda>p1. map_option (\<lambda>rs. p1\<lparr>registered := rs\<rparr>) (register_all cs (registered p1)))"

definition RegisterDBStats :: "string \<Rightarrow> prometheus \<Rightarrow> prometheus option" where
  "RegisterDBStats dbName p = register_gauges (map fst (db_gauges dbName)) p"

definition RegisterRedisStats :: "string \<Rightarrow> prometheus \<Rightarrow> prometheus option" where
  "RegisterRedisStats poolName p = register_gauges (map fst (redis_gauges poolName)) p"

section \<open>Recording\<close>

text \<open>\<open>WithLabelValues\<close> panics unless there is one value for each label.\<close>

definition declared :: "kind \<Rightarrow> series \<Rightarrow> bool" where
  "declared k = (\<lambda>(name, labels). \<exists>c \<in> set ensured. coKind c = k \<and> coName c = ''exchange_'' @ name \<and>
     length (coLabels c) = length labels)"

definition records_declared :: "registry \<Rightarrow> registry \<Rightarrow> bool" where
  "records_declared r r' \<longleftrightarrow>
     (\<forall>k. counters r' k \<noteq> counters r k \<longrightarrow> declared CounterVec k) \<and>
     (\<forall>k. gauges r' k \<noteq> gauges r k \<longrightarrow> declared GaugeVec k) \<and>
     (\<forall>k. histograms r' k \<noteq> histograms r k \<longrightarrow> declared HistogramVec k)"

lemma records_declared_trans: "records_declared r r' \<Longrightarrow> records_declared r' r'' \<Longrightarrow> records_declared r r''"
  unfolding records_declared_def by metis

lemma records_declared_refl: "records_declared r r"
  by (simp add: records_declared_def)

lemma record_ops:
  "declared CounterVec k \<Longrightarrow> records_declared r (Inc k r)"
  "declared CounterVec k \<Longrightarrow> records_declared r (Add k n r)"
  "declared HistogramVec k \<Longrightarrow> records_declared r (Observe k x r)"
  "declared GaugeVec k \<Longrightarrow> records_declared r (GaugeAdd k x r)"
  "declared GaugeVec k \<Longrightarrow> records_declared r (GaugeSet k x r)"
  by (auto simp: records_declared_def registry_ops)

lemma declared_eval:
  "declared k (name, labels) \<longleftrightarrow>
     list_ex (\<lambda>c. coKind c = k \<and> coName c = ''exchange_'' @ name \<and> length (coLabels c) = length labels) ensured"
  by (simp add: declared_def list_ex_iff)

lemma declared_series:
  "declared CounterVec (''http_requests_total'', [a, b, c, d])" "declared HistogramVec (''http_request_duration_seconds'', [a, b, c, d])"
  "declared GaugeVec (''http_in_flight_requests'', [a])"
  "declared CounterVec (''orders_total'', [a, b, c, d])" "declared HistogramVec (''order_processing_duration_seconds'', [a, b, c, d])"
  "declared CounterVec (''trades_executed_total'', [a])"
  "declared CounterVec (''kafka_events_total'', [a, b, c])" "declared HistogramVec (''kafka_event_duration_seconds'', [a, b, c])"
  "declared GaugeVec (''websocket_connections'', [a])" "declared CounterVec (''websocket_broadcast_total'', [a, b, c])"
  "declared HistogramVec (''websocket_broadcast_duration_seconds'', [a, b])"
  "declared CounterVec (''websocket_dropped_clients_total'', [a, b])" "declared GaugeVec (''outbox_pending_count'', [])"
  "declared CounterVec (''outbox_publish_total'', [a])" "declared HistogramVec (''outbox_publish_latency_seconds'', [])"
  "declared GaugeVec (''is_partition_leader'', [a])" "declared CounterVec (''leader_lease_renewals_total'', [a])"
  by (simp_all add: declared_eval ensured_def collector_defs)

text \<open>Every recording function names registered collectors of the right kind, with all their labels.\<close>

lemma recordings_declared:
  "records_declared r (ObserveOrder aborts mode side ty err dur r)" "records_declared r (AddTradesExecuted mode n r)"
  "records_declared r (ObserveKafkaEvent aborts component hname err dur r)" "records_declared r (WebSocketConnected sv r)"
  "records_declared r (WebSocketDisconnected sv r)" "records_declared r (RecordWebSocketBroadcast sv ty res r)"
  "records_declared r (ObserveWebSocketBroadcastDuration sv ty dur r)" "records_declared r (RecordWebSocketDroppedClient sv reason r)"
  "records_declared r (SetOutboxPendingCount x r)" "records_declared r (ObserveOutboxPublish res dur r)"
  "records_declared r (SetPartitionLeader part b r)" "records_declared r (ObserveLeaderRenewal res r)"
  by (auto simp: ObserveOrder_def AddTradesExecuted_def ObserveKafkaEvent_def WebSocketConnected_def WebSocketDisconnected_def
      RecordWebSocketBroadcast_def ObserveWebSocketBroadcastDuration_def RecordWebSocketDroppedClient_def
      SetOutboxPendingCount_def ObserveOutboxPublish_def SetPartitionLeader_def ObserveLeaderRenewal_def Let_def
      intro!: record_ops declared_series records_declared_trans [OF record_ops(1) record_ops(3)] records_declared_refl)

section \<open>A process registers its pools once\<close>

lemma register_all_append:
  "register_all (cs @ ds) rs = Option.bind (register_all cs rs) (register_all ds)"
  by (induction cs arbitrary: rs) (auto split: Option.bind_split)

definition fits :: "collector list \<Rightarrow> collector list \<Rightarrow> bool" where
  "fits cs rs \<longleftrightarrow> (\<forall>c \<in> set cs. \<forall>d \<in> set rs. \<not> same_collector d c \<and> consistent c d)"

lemma register_all_Some:
  "fits cs rs \<Longrightarrow> sorted_wrt (\<lambda>c d. \<not> same_collector c d \<and> consistent d c) cs \<Longrightarrow>
     register_all cs rs = Some (rs @ cs)"
proof (induction cs arbitrary: rs)
  case (Cons c cs)
  then have "MustRegister c rs = Some (rs @ [c])"
    by (auto simp: MustRegister_def fits_def list_ex_iff list_all_iff same_collector_def)
  moreover have "fits cs (rs @ [c])" using Cons.prems by (auto simp: fits_def)
  ultimately show ?case using Cons.IH [of "rs @ [c]"] Cons.prems(2) by simp
qed simp

lemma register_all_None:
  "c \<in> set cs \<Longrightarrow> d \<in> set rs \<Longrightarrow> same_collector c d \<Longrightarrow> register_all cs rs = None"
proof (induction cs arbitrary: rs)
  case (Cons x cs)
  then show ?case by (auto simp: MustRegister_def list_ex_iff split: Option.bind_split)
qed simp

text \<open>The pools of a process, in the order it registers them.\<close>

datatype pool = DBPool string | RedisPool string

fun pool_collectors :: "pool \<Rightarrow> collector list" where
  "pool_collectors (DBPool n) = map fst (db_gauges n)"
| "pool_collectors (RedisPool n) = map fst (redis_gauges n)"

fun register_pool :: "pool \<Rightarrow> prometheus \<Rightarrow> prometheus option" where
  "register_pool (DBPool n) p = RegisterDBStats n p"
| "register_pool (RedisPool n) p = RegisterRedisStats n p"

fun register_pools :: "pool list \<Rightarrow> prometheus \<Rightarrow> prometheus option" where
  "register_pools [] p = Some p"
| "register_pools (x # xs) p = Option.bind (register_pool x p) (register_pools xs)"

definition new_registry :: prometheus where
  "new_registry = \<lparr>registered = [], registerOnce = False\<rparr>"

definition with_pools :: "pool list \<Rightarrow> prometheus" where
  "with_pools xs = \<lparr>registered = ensured @ concat (map pool_collectors xs), registerOnce = True\<rparr>"

lemmas gauge_defs = db_gauges_def redis_gauges_def gauge_func_def BuildFQName_def same_collector_def consistent_def
  fits_def Let_def

lemma register_pool_gauges: "register_pool x p = register_gauges (pool_collectors x) p"
  by (cases x) (simp_all add: RegisterDBStats_def RegisterRedisStats_def)

lemma Ensure_new: "Ensure new_registry = Some (with_pools [])"
proof -
  have "register_all ensured [] = Some ([] @ ensured)"
    by (rule register_all_Some) (simp_all add: fits_def ensured_def collector_defs same_collector_def consistent_def)
  then show ?thesis by (simp add: Ensure_def new_registry_def with_pools_def)
qed

lemma Ensure_once: "Ensure (with_pools xs) = Some (with_pools xs)"
  by (simp add: Ensure_def with_pools_def)

lemma pool_collectors_distinct: "sorted_wrt (\<lambda>c d. \<not> same_collector c d \<and> consistent d c) (pool_collectors x)"
  by (cases x) (simp_all add: gauge_defs)

lemma pool_fits_ensured: "fits (pool_collectors x) ensured"
  by (cases x)
    (simp_all add: gauge_defs ensured_def collector_defs)

lemma pool_fits_pool: "x \<noteq> y \<Longrightarrow> fits (pool_collectors x) (pool_collectors y)"
  by (cases x; cases y)
    (auto simp: gauge_defs)

lemma fits_append: "fits cs (rs @ rs') \<longleftrightarrow> fits cs rs \<and> fits cs rs'"
  by (auto simp: fits_def)

lemma pool_fits: "x \<notin> set xs \<Longrightarrow> fits (pool_collectors x) (concat (map pool_collectors xs))"
  by (induction xs) (auto simp: fits_append pool_fits_pool fits_def [of _ "[]"])

lemma register_pool_with:
  "register_pool x (with_pools xs) = (if x \<in> set xs then None else Some (with_pools (xs @ [x])))"
proof (cases "x \<in> set xs")
  case True
  have "pool_collectors x \<noteq> []" by (cases x) (simp_all add: gauge_defs)
  then obtain c where c: "c \<in> set (pool_collectors x)" by (meson hd_in_set)
  with True have "c \<in> set (registered (with_pools xs))" by (auto simp: with_pools_def)
  then have "register_all (pool_collectors x) (registered (with_pools xs)) = None"
    by (rule register_all_None [OF c]) (simp add: same_collector_def)
  with True show ?thesis by (simp add: register_pool_gauges register_gauges_def Ensure_once)
next
  case False
  have "fits (pool_collectors x) (registered (with_pools xs))"
    using pool_fits [OF False] pool_fits_ensured by (simp add: with_pools_def fits_append)
  then have "register_all (pool_collectors x) (registered (with_pools xs)) =
      Some (registered (with_pools xs) @ pool_collectors x)"
    by (rule register_all_Some) (rule pool_collectors_distinct)
  with False have "register_pool x (with_pools xs) = Some ((with_pools xs)\<lparr>registered := registered (with_pools xs) @ pool_collectors x\<rparr>)"
    by (simp add: register_pool_gauges register_gauges_def Ensure_once)
  with False show ?thesis by (simp add: with_pools_def)
qed

lemma register_pools_with:
  "distinct xs \<Longrightarrow> register_pools ys (with_pools xs) =
     (if distinct (xs @ ys) then Some (with_pools (xs @ ys)) else None)"
proof (induction ys arbitrary: xs)
  case (Cons y ys)
  then show ?case using Cons.IH [of "xs @ [y]"] by (auto simp: register_pool_with)
qed simp

text \<open>
  After \<open>Ensure\<close>, registering pools panics exactly when a name is used twice for pools of the same kind; otherwise
  the registry holds the program's collectors and five gauges for each pool.
\<close>

lemma pools_registered:
  "Option.bind (Ensure new_registry) (register_pools ys) =
     (if distinct ys then Some (with_pools ys) else None)"
  using register_pools_with [of "[]" ys] by (simp add: Ensure_new)

end
