(* ===== verification/Funds.thy ===== *)
theory Funds
  imports Matching_Correct Api_Correct Settlement_Demo
begin

text \<open>
  The life of the funds an order locks, across the order service, the matching engine and the settlement
  consumer: what \<open>PlaceOrder\<close> locks (\<open>lock_spec\<close>) against what settling the engine's trades unlocks and
  what a cancellation of the rest would still release.
\<close>

section \<open>What a settlement unlocks for the taker\<close>

definition unlocked :: "uuid \<Rightarrow> string \<Rightarrow> AccountUpdate list \<Rightarrow> decimal" where
  "unlocked u c ups = sum_list (map (\<lambda>up. if auUserID up = u \<and> auCurrency up = c then auUnlock up else 0) ups)"

lemma unlocked_append [simp]: "unlocked u c (xs @ ys) = unlocked u c xs + unlocked u c ys"
  by (simp add: unlocked_def)

text \<open>What one trade of a taker takes out of its lock, before rounding.\<close>

definition trade_cost :: "Order \<Rightarrow> Trade \<Rightarrow> decimal" where
  "trade_cost d t =
     (if dSide d \<noteq> SideBuy then tQuantity t
      else if dType d = TypeMarket \<or> dPrice d = 0 then tPrice t * tQuantity t else dPrice d * tQuantity t)"

text \<open>What a cancellation of the order would still release; nothing when the order is closed.\<close>

definition reserved :: "Order \<Rightarrow> decimal" where
  "reserved d =
     (if dStatus d = StatusFilled \<or> dStatus d = StatusCanceled then 0
      else case calculateUnlockAmount d (dQuantity d - dFilledQuantity d) of Inl e \<Rightarrow> 0 | Inr (c, x) \<Rightarrow> x)"

lemma updates_unlocked:
  assumes "calculateTradeSettlement rnd t d m = Inr ups" and "lock_spec d (c, x)" and "dUserID m \<noteq> dUserID d" and "dID m \<noteq> dID d"
  shows "unlocked (dUserID d) c ups = rnd (trade_cost d t)"
proof -
  from assms(2) obtain b q where s: "splitSymbol (dSymbol d) = Inr (b, q)" unfolding lock_spec_def by blast
  with assms(2) have c: "c = (if dSide d = SideBuy then q else b)"
    by (cases "dSide d = SideBuy") (simp_all add: lock_spec_def)
  show ?thesis
  proof (cases "dSide d = SideBuy")
    case True
    with assms(1,3,4) s c show ?thesis
      by (auto simp: calculateTradeSettlement_def Let_def unlocked_def trade_cost_def)
  next
    case False
    with assms(1,3,4) s c show ?thesis
      by (auto simp: calculateTradeSettlement_def Let_def unlocked_def trade_cost_def)
  qed
qed

text \<open>The makers of the trades belong to others.\<close>

definition others_only :: "locked_orders \<Rightarrow> Order \<Rightarrow> Trade list \<Rightarrow> bool" where
  "others_only lk d ts \<longleftrightarrow> (\<forall>t \<in> set ts. tMakerOrderID t \<noteq> dID d \<and>
     (\<forall>m. lk (tMakerOrderID t) = Some m \<longrightarrow> dUserID m \<noteq> dUserID d \<and> dID m \<noteq> dID d))"

lemma settle_trades_unlocked:
  assumes "settle_trades rnd (dID d) ts (lk, ups) s = (Inr (lk', ups'), s')"
    and "lk (dID d) = Some d" and "lock_spec d (c, x)" and "others_only lk d ts"
  shows "unlocked (dUserID d) c ups' = unlocked (dUserID d) c ups + sum_list (map (\<lambda>t. rnd (trade_cost d t)) ts) \<and>
    lk' (dID d) = Some (d\<lparr>dFilledQuantity := dFilledQuantity d + sum_list (map tQuantity ts)\<rparr>)"
  using assms
proof (induction ts arbitrary: lk ups s d)
  case (Cons t ts)
  then obtain lk1 ups1 s1 where 1: "settle_trade rnd (dID d) t (lk, ups) s = (Inr (lk1, ups1), s1)"
    and 2: "settle_trades rnd (dID d) ts (lk1, ups1) s1 = (Inr (lk', ups'), s')"
    by (auto simp: bind_Inr_iff)
  let ?d1 = "d\<lparr>dFilledQuantity := dFilledQuantity d + tQuantity t\<rparr>"
  from 1 obtain m where m: "lk (tMakerOrderID t) = Some m"
    by (auto simp: settle_trade_def deref_def bind_Inr_iff fail_def split: option.splits)
  have ne: "tMakerOrderID t \<noteq> dID d" and mm: "dUserID m \<noteq> dUserID d" "dID m \<noteq> dID d"
    using Cons.prems(4) m by (auto simp: others_only_def)
  define m' where "m' = (maker_filled t m)\<lparr>dUpdatedAt := clock s (calls s)\<rparr>"
  have m': "dUserID m' = dUserID m" "dID m' = dID m" by (simp_all add: m'_def maker_filled_def Let_def)
  from 1 m ne Cons.prems(2) obtain u where u: "calculateTradeSettlement rnd t d m' = Inr u"
    and lk1: "lk1 = (lk(tMakerOrderID t \<mapsto> m'))(dID d \<mapsto> ?d1)" "ups1 = ups @ u"
    by (auto simp: settle_trade_def deref_def bind_Inr_iff bind_now Let_def m'_def fail_def ret_def split: sum.splits)
  have un: "unlocked (dUserID d) c u = rnd (trade_cost d t)"
    using updates_unlocked [OF u Cons.prems(3)] m' mm by simp
  have a: "settle_trades rnd (dID ?d1) ts (lk1, ups1) s1 = (Inr (lk', ups'), s')" "lk1 (dID ?d1) = Some ?d1"
    using 2 lk1(1) by simp_all
  have b: "lock_spec ?d1 (c, x)" using Cons.prems(3) by (auto simp: lock_spec_def split: if_splits)
  have o: "others_only lk1 ?d1 ts"
    using Cons.prems(4) m m' mm lk1(1) by (auto simp: others_only_def)
  have "trade_cost ?d1 t' = trade_cost d t'" for t' by (simp add: trade_cost_def)
  with Cons.IH [OF a b o] lk1(2) un show ?case by (simp add: algebra_simps)
qed (simp add: ret_def)

section \<open>The balance of a lock\<close>

lemma trade_value_sum: "trade_value ts = sum_list (map (\<lambda>t. tPrice t * tQuantity t) ts)"
proof -
  have "foldl (\<lambda>acc t. acc + tPrice t * tQuantity t) a ts = a + sum_list (map (\<lambda>t. tPrice t * tQuantity t) ts)" for a
    by (induction ts arbitrary: a) (simp_all add: algebra_simps)
  from this [of 0] show ?thesis by (simp add: trade_value_def)
qed

lemma sum_trade_cost:
  "sum_list (map (trade_cost d) ts) =
     (if dSide d \<noteq> SideBuy then sum_list (map tQuantity ts)
      else if dType d = TypeMarket \<or> dPrice d = 0 then trade_value ts else dPrice d * sum_list (map tQuantity ts))"
  by (induction ts) (auto simp: trade_cost_def trade_value_sum algebra_simps)

definition market_buy :: "Order \<Rightarrow> bool" where
  "market_buy d \<longleftrightarrow> dSide d = SideBuy \<and> dType d = TypeMarket"

text \<open>
  The taker's outcome in terms of the lock: what was spent, what is refunded and what stays reserved add
  up to it; the refund is negative only for a market buy that cost more than was locked.
\<close>

lemma taker_outcome_balance:
  fixes d :: Order and ts :: "Trade list"
  defines "F \<equiv> sum_list (map tQuantity ts)"
  assumes "lock_spec d (c, x)" and "dFilledQuantity d = 0" and "dStatus d = StatusNew" and "dType d = TypeLimit \<or> dType d = TypeMarket"
    and "dType d = TypeLimit \<longrightarrow> 0 < dPrice d" and "F \<le> dQuantity d"
    and "srTrades ev = ts" and "srAmountLocked ev = x" and "taker_outcome ev (d\<lparr>dFilledQuantity := F\<rparr>) = (d2, refund)"
  shows "sum_list (map (trade_cost d) ts) + refund + reserved d2 = x \<and>
    (0 \<le> refund \<or> market_buy d \<and> x < trade_value ts) \<and>
    dFilledQuantity d2 = F \<and> dID d2 = dID d \<and> dUserID d2 = dUserID d"
proof -
  from assms(2) obtain b q where s: "splitSymbol (dSymbol d) = Inr (b, q)" unfolding lock_spec_def by blast
  from s assms(2) have xS: "dSide d \<noteq> SideBuy \<Longrightarrow> x = dQuantity d"
    and xB: "dSide d = SideBuy \<Longrightarrow> dType d = TypeLimit \<Longrightarrow> x = dPrice d * dQuantity d"
    by (auto simp: lock_spec_def)
  have TM: "TypeMarket \<noteq> TypeLimit" by simp
  note out = assms(10) [unfolded taker_outcome_def]
  show ?thesis
  proof (cases "dType d = TypeMarket")
    case True
    with out xS TM assms(7,8,9) show ?thesis
      by (auto simp: sum_trade_cost market_buy_def reserved_def F_def [symmetric] split: if_splits)
  next
    case False
    then have L: "dType d = TypeLimit" "0 < dPrice d" using assms(5,6) by auto
    have cost: "sum_list (map (trade_cost d) ts) = (if dSide d = SideBuy then dPrice d * F else F)"
      using False L by (simp add: sum_trade_cost F_def)
    have x: "x = (if dSide d = SideBuy then dPrice d * dQuantity d else dQuantity d)" using xS xB L(1) by simp
    consider (filled) "F = dQuantity d" | (canceled) "F \<noteq> dQuantity d" "srRemainingQty ev = 0"
      | (left) "F \<noteq> dQuantity d" "srRemainingQty ev \<noteq> 0" by blast
    then show ?thesis
    proof cases
      case filled
      with out False have "d2 = d\<lparr>dFilledQuantity := F, dStatus := StatusFilled\<rparr>" "refund = 0" by simp_all
      with filled cost x show ?thesis by (simp add: reserved_def)
    next
      case canceled
      with out False have "d2 = d\<lparr>dFilledQuantity := F, dStatus := StatusCanceled\<rparr>"
        "refund = (if dSide d = SideBuy then (dQuantity d - F) * dPrice d else dQuantity d - F)" by (auto simp: Let_def)
      with canceled cost x assms(7) L(2) show ?thesis by (simp add: reserved_def algebra_simps)
    next
      case left
      define d1 where "d1 = d\<lparr>dFilledQuantity := F\<rparr>"
      from left out False have d2: "d2 = (if 0 < F then d1\<lparr>dStatus := StatusPartiallyFilled\<rparr> else d1)" and r: "refund = 0"
        by (cases "0 < F"; auto simp: d1_def)+
      have "dStatus d2 \<noteq> StatusFilled \<and> dStatus d2 \<noteq> StatusCanceled" using assms(4) by (simp add: d2 d1_def)
      then have "reserved d2 = (if dSide d = SideBuy then dPrice d * (dQuantity d - F) else dQuantity d - F)"
        using s by (simp add: d2 d1_def reserved_def calculateUnlockAmount_def del: StatusFilled_def StatusCanceled_def)
      with r d2 cost x show ?thesis by (simp add: d1_def algebra_simps)
    qed
  qed
qed

section \<open>What the engine did with the order\<close>

definition own_side :: "Engine \<Rightarrow> OrderSide \<Rightarrow> EOrder list" where
  "own_side eng side = (if side = SideBuy then bids eng else asks eng)"

lemma process_event_funds:
  assumes "process_event ev m = (eng, mo, ts, m1)" and "0 < opQuantity ev"
  defines "e \<equiv> snd (GetEngine (engineManager m) (opSymbol ev))" and "o' \<equiv> convertToMatchingOrder ev"
  assumes "book_ok e"
  shows "sum_list (map tQuantity ts) \<le> opQuantity ev"
    and "t \<in> set ts \<Longrightarrow> \<exists>y \<in> set (opposite e o'). tMakerOrderID t = eID y \<and> eUserID y \<noteq> opUserID ev"
    and "opType ev = TypeLimit \<Longrightarrow> eQuantity mo \<noteq> 0 \<Longrightarrow>
      sum_list (map tQuantity ts) + eQuantity mo = opQuantity ev \<and> eID mo = opOrderID ev \<and> mo \<in> set (own_side eng (opSide ev))"
proof -
  obtain ids clk where P: "Process ids clk e o' = (eng, mo, ts)"
    using process_event_Process [OF assms(1)] unfolding e_def o'_def by blast
  have o': "eQuantity o' = opQuantity ev" "eUserID o' = opUserID ev" "eID o' = opOrderID ev"
    "opType ev = TypeLimit \<Longrightarrow> eType o' \<noteq> eTypeMarket" "(eSide o' = eSideBuy) = (opSide ev = SideBuy)"
    by (auto simp: o'_def convertToMatchingOrder_def Let_def NewOrder_def NewMarketOrder_def)
  have ts: "ts = trades_of ids clk (obSymbol e) (eID o') 0 (fst (sweep e o'))" using Process_trades [of ids clk e o'] P by simp
  then have F: "sum_list (map tQuantity ts) = sum_list (map snd (fst (sweep e o')))" by (simp add: trades_of_map)
  have mo: "mo = o'\<lparr>eQuantity := fst (snd (sweep e o'))\<rparr>" using Process_order [of ids clk e o'] P by simp
  note pos = opposite_positive [OF assms(5), of o']
  have k: "0 \<le> fst (snd (sweep e o'))"
    using fill_kept_bounds [OF _ pos, of "opQuantity ev"] assms(2) by (simp add: sweep_def o')
  show "sum_list (map tQuantity ts) \<le> opQuantity ev"
    using fill_sum_le [OF _ pos, of "opQuantity ev" "opUserID ev" "accepts o'"] k assms(2) F by (simp add: sweep_def o')
  show "\<exists>y \<in> set (opposite e o'). tMakerOrderID t = eID y \<and> eUserID y \<noteq> opUserID ev" if "t \<in> set ts"
  proof -
    from that ts obtain y q i where y: "(y, q) \<in> set (fst (sweep e o'))"
      and t: "t = new_trade ids clk (obSymbol e) (eID o') y q i" using trades_of_member by blast
    from fill_trades_accepted [OF y [unfolded sweep_def]] t show ?thesis
      by (intro bexI [of _ y]) (auto simp: new_trade_def o')
  qed
  assume L: "opType ev = TypeLimit" and q: "eQuantity mo \<noteq> 0"
  then have "0 < fst (snd (sweep e o'))" using k mo by simp
  moreover obtain fs r ms where f: "sweep e o' = (fs, r, ms)" by (cases "sweep e o'")
  ultimately have "mo \<in> set (own_side eng (opSide ev))"
    using P mo o'(4) [OF L] o'(5) Process_buy [of o' e fs r ms ids clk] Process_sell [of o' e fs r ms ids clk]
    by (cases "eSide o' = eSideBuy") (auto simp: own_side_def sweep_buy sweep_sell AddOrder_def)
  with fill_quantity_balance [of "opUserID ev" "accepts o'" "opQuantity ev" "opposite e o'"] q mo F o'(1-3)
  show "sum_list (map tQuantity ts) + eQuantity mo = opQuantity ev \<and> eID mo = opOrderID ev \<and> mo \<in> set (own_side eng (opSide ev))"
    by (auto simp: sweep_def)
qed

lemma reserved_rests:
  "taker_outcome ev d1 = (d2, refund) \<Longrightarrow> reserved d2 \<noteq> 0 \<Longrightarrow> dType d1 \<noteq> TypeMarket \<and> srRemainingQty ev \<noteq> 0 \<and> refund = 0"
  by (auto simp: taker_outcome_def reserved_def split: if_splits)

lemma eight_decimals_closed:
  "eight_decimals 0" "eight_decimals a \<Longrightarrow> eight_decimals b \<Longrightarrow> eight_decimals (a - b)"
  "(\<And>y. y \<in> set ys \<Longrightarrow> eight_decimals (f y)) \<Longrightarrow> eight_decimals (sum_list (map f ys))"
proof -
  show "eight_decimals 0" by (simp add: eight_decimals_def)
  show "eight_decimals a \<Longrightarrow> eight_decimals b \<Longrightarrow> eight_decimals (a - b)"
    unfolding eight_decimals_def left_diff_distrib by (rule Ints_diff)
  show "(\<And>y. y \<in> set ys \<Longrightarrow> eight_decimals (f y)) \<Longrightarrow> eight_decimals (sum_list (map f ys))"
    by (induction ys) (auto simp: eight_decimals_def distrib_right intro: Ints_add)
qed

section \<open>From the lock to the settlement\<close>

text \<open>
  The makers as the settlement consumer locked them are the orders the engine held: the user and the
  identifier of every resting order of the other side, none of them the taker.
\<close>

definition mirrors :: "locked_orders \<Rightarrow> Order \<Rightarrow> EOrder list \<Rightarrow> bool" where
  "mirrors lk d ys \<longleftrightarrow> lk (dID d) = Some d \<and> (\<forall>y \<in> set ys. eID y \<noteq> dID d \<and>
     (\<forall>z. lk (eID y) = Some z \<longrightarrow> dID z = eID y \<and> dUserID z = eUserID y))"

lemma lock_accounting:
  assumes d: "lock_spec d (c, x)" "dFilledQuantity d = 0" "dStatus d = StatusNew" "0 < dQuantity d"
    "dType d = TypeLimit \<or> dType d = TypeMarket" "dType d = TypeLimit \<longrightarrow> 0 < dPrice d"
    and ev: "placed_event d c x = EvOrderPlaced ev" and p: "process_event ev m = (eng, mo, ts, m1)"
    and book: "book_ok (snd (GetEngine (engineManager m) (dSymbol d)))"
    and lk: "mirrors lk d (opposite (snd (GetEngine (engineManager m) (dSymbol d))) (convertToMatchingOrder ev))"
    and sr: "settlement_event ev mo ts tok = EvSettlementRequested sr"
    and run: "settle_trades rnd (dID d) ts (lk, []) s = (Inr (lk', ups), s')" "lk' (dID d) = Some d1"
    "taker_outcome sr d1 = (d2, refund)"
    and rnd: "\<And>q. eight_decimals q \<Longrightarrow> rnd q = q" and dec: "eight_decimals x" "\<forall>t \<in> set ts. eight_decimals (trade_cost d t)"
  shows "(if market_buy d \<and> x < trade_value ts
      then unlocked (dUserID d) c (ups @ refund_updates rnd sr d2 refund) = trade_value ts
      else unlocked (dUserID d) c (ups @ refund_updates rnd sr d2 refund) + reserved d2 = x) \<and>
    (reserved d2 \<noteq> 0 \<longrightarrow> (\<exists>y \<in> set (own_side eng (dSide d)). eID y = dID d \<and> eQuantity y = dQuantity d - dFilledQuantity d2))"
proof -
  let ?F = "sum_list (map tQuantity ts)" and ?u = "dUserID d"
  have e: "opSymbol ev = dSymbol d" "opQuantity ev = dQuantity d" "opUserID ev = dUserID d" "opType ev = dType d"
    "opOrderID ev = dID d" "opSide ev = dSide d" "opAmountLocked ev = x" "opLockedCurrency ev = c"
    using ev by (auto simp: placed_event_def)
  have sr': "srTrades sr = ts" "srAmountLocked sr = x" "srLockedCurrency sr = c" "srRemainingQty sr = eQuantity mo"
    using sr e by (auto simp: settlement_event_def)
  note engine = process_event_funds [OF p, unfolded e, OF d(4) book]
  have others: "others_only lk d ts"
    unfolding others_only_def
  proof
    fix t assume "t \<in> set ts"
    from engine(2) [OF this] lk
    show "tMakerOrderID t \<noteq> dID d \<and> (\<forall>m. lk (tMakerOrderID t) = Some m \<longrightarrow> dUserID m \<noteq> dUserID d \<and> dID m \<noteq> dID d)"
      by (auto simp: mirrors_def)
  qed
  have "map (\<lambda>t. rnd (trade_cost d t)) ts = map (trade_cost d) ts" using rnd dec(2) by simp
  with settle_trades_unlocked [OF run(1) _ d(1) others] lk run(2) d(2)
  have un: "unlocked ?u c ups = sum_list (map (trade_cost d) ts)" and d1: "d1 = d\<lparr>dFilledQuantity := ?F\<rparr>"
    by (simp_all add: mirrors_def unlocked_def)
  note bal = taker_outcome_balance [OF d(1-3,5,6) engine(1) sr'(1,2) run(3) [unfolded d1]]
  have mb: "sum_list (map (trade_cost d) ts) = trade_value ts \<and> reserved d2 = 0" if "market_buy d"
    using that reserved_rests [OF run(3)] d1 by (auto simp: sum_trade_cost market_buy_def)
  have ref: "unlocked ?u c (refund_updates rnd sr d2 refund) = (if 0 < refund then refund else 0)"
  proof (cases "0 < refund")
    case True
    have "eight_decimals (sum_list (map (trade_cost d) ts))" using dec(2) by (intro eight_decimals_closed(3)) blast
    moreover have "refund = x - sum_list (map (trade_cost d) ts) \<or> refund = 0"
      using bal reserved_rests [OF run(3)] by (cases "reserved d2 = 0") simp_all
    ultimately have "eight_decimals refund" using dec(1) eight_decimals_closed(1,2) by metis
    with rnd True bal sr'(3) show ?thesis by (simp add: refund_updates_def unlocked_def)
  qed (simp add: refund_updates_def unlocked_def)
  have rest: "\<exists>y \<in> set (own_side eng (dSide d)). eID y = dID d \<and> eQuantity y = dQuantity d - dFilledQuantity d2" if r: "reserved d2 \<noteq> 0"
  proof -
    from reserved_rests [OF run(3) r] d(5) d1 sr'(4) have "dType d = TypeLimit" "eQuantity mo \<noteq> 0" by auto
    from engine(3) [OF this] have "?F + eQuantity mo = dQuantity d" "eID mo = dID d" "mo \<in> set (own_side eng (dSide d))" by auto
    moreover have "dFilledQuantity d2 = ?F" using bal by simp
    ultimately show ?thesis by (intro bexI [of _ mo]) auto
  qed
  show ?thesis using bal mb un ref rest by (auto simp: market_buy_def)
qed

section \<open>Two recorded findings\<close>

text \<open>User 1 buys from user 2; \<open>x\<close> is locked for the order, \<open>ts\<close> are its trades.\<close>

definition buy_db :: "Order \<Rightarrow> decimal \<Rightarrow> Order list \<Rightarrow> DB" where
  "buy_db d x makers = demo_db\<lparr>accounts := [demo_account 1 ''BTC'' 0 0, demo_account 1 ''USD'' 500 x,
       demo_account 2 ''BTC'' 0 9, demo_account 2 ''USD'' 0 0], orders := makers @ [d]\<rparr>"

definition buy_event :: "decimal \<Rightarrow> (uuid \<times> uuid \<times> decimal \<times> decimal) list \<Rightarrow> SettlementRequestedEvent" where
  "buy_event x ts = (demo_event 7)\<lparr>srAmountLocked := x, srRemainingQty := 0,
     srTrades := map (\<lambda>(i, mk, p, q). \<lparr>tID = i, tSymbol = ''BTC-USD'', tMakerOrderID = mk, tTakerOrderID = 12,
       tPrice = p, tQuantity = q, tCreatedAt = 5\<rparr>) ts\<rparr>"

definition short_text :: "uuid \<Rightarrow> string" where
  "short_text u = (if u = 1 then ''1'' else if u = 2 then ''2'' else if u = 11 then ''11'' else if u = 12 then ''12'' else ''13'')"

definition buy_settled :: "Order \<Rightarrow> decimal \<Rightarrow> Order list \<Rightarrow> (uuid \<times> uuid \<times> decimal \<times> decimal) list \<Rightarrow> (OrderStatus \<times> decimal \<times> decimal) list" where
  "buy_settled d x makers ts =
     (let d' = db (snd (handleSettlementRequested short_text round8 True (buy_event x ts) (demo_session\<lparr>db := buy_db d x makers\<rparr>)))
      in [(dStatus y, aBalance a, aLocked a). y \<leftarrow> orders d', dID y = 12, a \<leftarrow> accounts d', acc_key a = (1, ''USD'')])"

text \<open>
  A market buy locks 105% of an estimate. When the book moved and the fill costs more, \<open>UnlockFunds\<close>
  matches no row and reports no error: the whole cost comes out of the available balance and the lock
  of the now FILLED order stays for good.
\<close>

lemma market_buy_overdraws:
  "buy_settled ((demo_order 12 1 SideBuy 0 1)\<lparr>dType := TypeMarket\<rparr>) 105 [demo_order 11 2 SideSell 200 1] [(21, 11, 200, 1)]
     = [(StatusFilled, 300, 105)]"
  by code_simp

text \<open>
  The lock is not rounded, every fill is: an order of 2e-8 at 1.5 locks 3e-8, its two fills of 1e-8 unlock
  2e-8 each, which is more than the lock and again leaves it in place.
\<close>

lemma rounded_fills_overdraw:
  "buy_settled (demo_order 12 1 SideBuy (3 / 2) (2 / 100000000)) (3 / 100000000)
     [demo_order 11 2 SideSell (3 / 2) (1 / 100000000), demo_order 13 2 SideSell (3 / 2) (1 / 100000000)]
     [(21, 11, 3 / 2, 1 / 100000000), (22, 13, 3 / 2, 1 / 100000000)]
     = [(StatusFilled, 500 - 4 / 100000000, 3 / 100000000)]"
  by code_simp

section \<open>A concrete order\<close>

text \<open>User 1 buys 3 at 110 and locks 330; the book holds 2 at 100 of user 2.\<close>

definition demo_taker :: Order where
  "demo_taker = demo_order 12 1 SideBuy 110 3"

definition demo_placed_event :: OrderPlacedEvent where
  "demo_placed_event = (case placed_event demo_taker ''USD'' 330 of EvOrderPlaced ev \<Rightarrow> ev | _ \<Rightarrow> undefined)"

definition demo_engines :: Matching where
  "demo_engines = \<lparr>engineManager = [(''BTC-USD'', (NewOrderBook ''BTC-USD'')\<lparr>asks := [NewOrder 11 2 eSideSell 100 2]\<rparr>)],
     store = [], sess = demo_session\<rparr>"

definition demo_matched :: "Engine \<times> EOrder \<times> Trade list \<times> Matching" where
  "demo_matched = process_event demo_placed_event demo_engines"

definition demo_trades :: "Trade list" where
  "demo_trades = fst (snd (snd demo_matched))"

definition demo_request_event :: SettlementRequestedEvent where
  "demo_request_event = (case settlement_event demo_placed_event (fst (snd demo_matched)) demo_trades 7 of
     EvSettlementRequested sr \<Rightarrow> sr | _ \<Rightarrow> undefined)"

definition demo_locked :: locked_orders where
  "demo_locked = map_of [(12, demo_taker), (11, demo_order 11 2 SideSell 100 2)]"

definition demo_settle_run :: "(error + locked_orders \<times> AccountUpdate list) \<times> session" where
  "demo_settle_run = settle_trades (\<lambda>x. x) 12 demo_trades (demo_locked, []) demo_session"

lemma demo_split: "splitSymbol ''BTC-USD'' = Inr (''BTC'', ''USD'')"
  by code_simp

lemma demo_trades_eval: "map (\<lambda>t. (tMakerOrderID t, tPrice t, tQuantity t)) demo_trades = [(11, 100, 2)]"
  unfolding demo_trades_def demo_matched_def by code_simp

lemma demo_settle_run_ok: "\<exists>lk' ups s' d1. demo_settle_run = (Inr (lk', ups), s') \<and> lk' 12 = Some d1"
proof -
  have e: "(case fst demo_settle_run of Inl _ \<Rightarrow> False | Inr (lk', ups) \<Rightarrow> lk' 12 \<noteq> None)"
    unfolding demo_settle_run_def demo_trades_def demo_matched_def by code_simp
  obtain r s' where r: "demo_settle_run = (r, s')" by (cases demo_settle_run)
  from e obtain lk' ups where "r = Inr (lk', ups)" "lk' 12 \<noteq> None" unfolding r by (cases r) auto
  with r show ?thesis by auto
qed

end
