(* ===== verification/Simulation.thy ===== *)
theory Simulation
  imports Api "HOL-Library.Sublist"
begin

text \<open>
  The trading simulator: src/internal/simulation/service.go and http_handlers.go. Strings are the bytes
  of Go's strings. \<open>float64\<close> numbers are rationals here: the rounding of the hardware is left out. What the
  gateway answers and what the random source draws are arguments. The goroutine of a run and its workers
  interleave with the callers of \<open>Start\<close> and \<open>Stop\<close> as the steps of \<open>sim_step\<close>; the mutex makes each
  operation of the service one step, and a worker's look at the counter and its later increment are two.
\<close>

section \<open>Configuration\<close>

record Config =
  cfSymbol :: string
  cfBasePrice :: rat
  cfNumBots :: int
  cfTotalTx :: int
  cfWorkerCount :: int
  cfInfinite :: bool
  cfIntervalMs :: int

definition applyDefaults :: "Config \<Rightarrow> Config" where
  "applyDefaults cfg0 =
     (let cfg1 = (if cfSymbol cfg0 = '''' then cfg0\<lparr>cfSymbol := ''BTC-USD''\<rparr> else cfg0);
          cfg2 = (if cfBasePrice cfg1 \<le> 0 then cfg1\<lparr>cfBasePrice := 30000\<rparr> else cfg1);
          cfg3 = (if cfNumBots cfg2 \<le> 0 then cfg2\<lparr>cfNumBots := 20\<rparr> else cfg2);
          cfg4 = (if cfTotalTx cfg3 \<le> 0 \<and> \<not> cfInfinite cfg3 then cfg3\<lparr>cfTotalTx := 500\<rparr> else cfg3);
          cfg5 = (if cfWorkerCount cfg4 \<le> 0 then cfg4\<lparr>cfWorkerCount := 5\<rparr> else cfg4);
          cfg6 = (if cfIntervalMs cfg5 < 0 then cfg5\<lparr>cfIntervalMs := 100\<rparr> else cfg5)
      in cfg6)"

definition config_ok :: "Config \<Rightarrow> bool" where
  "config_ok cfg \<longleftrightarrow> cfSymbol cfg \<noteq> '''' \<and> 0 < cfBasePrice cfg \<and> 0 < cfNumBots cfg \<and>
     (cfInfinite cfg \<or> 0 < cfTotalTx cfg) \<and> 0 < cfWorkerCount cfg \<and> 0 \<le> cfIntervalMs cfg"

lemma applyDefaults_ok: "config_ok (applyDefaults cfg)"
  by (auto simp: config_ok_def applyDefaults_def Let_def)

lemma applyDefaults_id: "config_ok cfg \<Longrightarrow> applyDefaults cfg = cfg"
  by (auto simp: config_ok_def applyDefaults_def Let_def)

section \<open>Insufficient funds in an error's text\<close>

definition substring_at :: "string \<Rightarrow> string \<Rightarrow> nat \<Rightarrow> bool" where
  "substring_at s sub i \<longleftrightarrow> take (length sub) (drop i s) = sub"

definition containsString :: "string \<Rightarrow> string list \<Rightarrow> bool" where
  "containsString s substrings =
     list_ex (\<lambda>sub. length s \<ge> length sub \<and> list_ex (substring_at s sub) [0..<Suc (length s - length sub)]) substrings"

text \<open>The text of \<open>errInsufficientFunds\<close>, four characters of three bytes each.\<close>

definition insufficient_zh :: string where
  "insufficient_zh = map (char_of :: nat \<Rightarrow> char) [0xE9, 0xA4, 0x98, 0xE9, 0xA1, 0x8D, 0xE4, 0xB8, 0x8D, 0xE8, 0xB6, 0xB3]"

text \<open>No error of the simulator wraps \<open>errInsufficientFunds\<close> itself, so \<open>is_sentinel\<close> is part of the error.\<close>

record sim_error =
  is_sentinel :: bool
  err_text :: string

definition isInsufficientFunds :: "sim_error option \<Rightarrow> bool" where
  "isInsufficientFunds err =
     (case err of None \<Rightarrow> False
      | Some e \<Rightarrow> is_sentinel e \<or> containsString (err_text e) [insufficient_zh, ''insufficient''])"

text \<open>The search finds exactly the contiguous sublists.\<close>

lemma substring_at_sublist:
  "(\<exists>i < Suc (length s - length sub). length sub \<le> length s \<and> substring_at s sub i) \<longleftrightarrow> sublist sub s"
proof
  assume "\<exists>i < Suc (length s - length sub). length sub \<le> length s \<and> substring_at s sub i"
  then obtain i where "take (length sub) (drop i s) = sub" by (auto simp: substring_at_def)
  then have "s = take i s @ sub @ drop (length sub) (drop i s)" by (metis append_take_drop_id)
  then show "sublist sub s" unfolding sublist_def by blast
next
  assume "sublist sub s"
  then obtain a b where "s = a @ sub @ b" unfolding sublist_def by blast
  then show "\<exists>i < Suc (length s - length sub). length sub \<le> length s \<and> substring_at s sub i"
    by (intro exI [of _ "length a"]) (simp add: substring_at_def)
qed

lemma containsString_sublist: "containsString s subs \<longleftrightarrow> (\<exists>sub \<in> set subs. sublist sub s)"
  unfolding containsString_def list_ex_iff substring_at_sublist [symmetric] set_upt Bex_def atLeastLessThan_iff by blast

section \<open>Bots and their requests\<close>

record bot =
  botUser :: uuid
  botRole :: string

text \<open>\<open>stopped i\<close>: the context is cancelled before bot \<open>i\<close>; \<open>join i\<close>: the user of the i-th call, when it succeeds.\<close>

fun spawn_from :: "(nat \<Rightarrow> bool) \<Rightarrow> (nat \<Rightarrow> uuid option) \<Rightarrow> int \<Rightarrow> nat list \<Rightarrow> bot list" where
  "spawn_from stopped join numBots [] = []"
| "spawn_from stopped join numBots (i # is) =
     (if stopped i then []
      else case join i of
        None \<Rightarrow> spawn_from stopped join numBots is
      | Some u \<Rightarrow> \<lparr>botUser = u, botRole = if int i < numBots div 2 then ''MAKER'' else ''TAKER''\<rparr>
                   # spawn_from stopped join numBots is)"

definition spawnBots :: "(nat \<Rightarrow> bool) \<Rightarrow> (nat \<Rightarrow> uuid option) \<Rightarrow> int \<Rightarrow> bot list" where
  "spawnBots stopped join numBots = spawn_from stopped join numBots [0..<nat numBots]"

lemma spawn_from_bounds:
  "sorted is \<Longrightarrow> distinct is \<Longrightarrow> length (spawn_from stopped join n is) \<le> length is \<and>
     length (filter (\<lambda>b. botRole b = ''MAKER'') (spawn_from stopped join n is)) \<le> length (filter (\<lambda>i. int i < n div 2) is)"
  by (induction "is") (auto split: option.splits)

text \<open>At most half of the bots asked for quote prices.\<close>

lemma spawnBots_bounds:
  assumes "0 \<le> n"
  shows "length (spawnBots stopped join n) \<le> nat n \<and>
    length (filter (\<lambda>b. botRole b = ''MAKER'') (spawnBots stopped join n)) \<le> nat (n div 2)"
proof -
  have "filter (\<lambda>i. int i < n div 2) [0..<nat n] = [0..<nat (n div 2)]"
  proof -
    have "filter (\<lambda>i. i < k) [0..<m] = [0..<k]" if "k \<le> m" for k m :: nat
      using that by (induction m) (auto simp: le_Suc_eq)
    from this [of "nat (n div 2)" "nat n"] assms show ?thesis by (simp add: zless_nat_eq_int_zless nat_mono)
  qed
  with spawn_from_bounds [of "[0..<nat n]" stopped join n] show ?thesis by (simp add: spawnBots_def)
qed

text \<open>
  \<open>coin = r.Intn(2)\<close>, \<open>u1 = r.Float64()\<close> of the branch, \<open>u2\<close> the draw of the quantity; \<open>round_to k\<close> is
  \<open>decimal.NewFromFloat(...).Round(k)\<close>.
\<close>

record sim_request =
  srqUser :: uuid
  srqSymbol :: string
  srqSide :: string
  srqType :: string
  srqPrice :: decimal
  srqQuantity :: decimal

definition buildOrderRequest ::
  "(nat \<Rightarrow> rat \<Rightarrow> decimal) \<Rightarrow> bot \<Rightarrow> string \<Rightarrow> rat \<Rightarrow> nat \<Rightarrow> rat \<Rightarrow> rat \<Rightarrow> sim_request" where
  "buildOrderRequest round_to b symbol refPrice coin u1 u2 =
     (let side = (if coin = 0 then ''SELL'' else ''BUY'');
          (orderType, price) =
            (if botRole b = ''TAKER''
             then (if u1 < 8 / 10 then (''MARKET'', 0)
                   else (''LIMIT'', if side = ''BUY'' then refPrice * (102 / 100) else refPrice * (98 / 100)))
             else (let spread = u1 * (2 / 100) * refPrice
                   in (''LIMIT'', if side = ''BUY'' then refPrice - spread else refPrice + spread)))
      in \<lparr>srqUser = botUser b, srqSymbol = symbol, srqSide = side, srqType = orderType,
          srqPrice = round_to 2 price, srqQuantity = round_to 4 (1 / 10 + u2)\<rparr>)"

text \<open>
  \<open>placeOrder\<close> and \<open>rechargeBot\<close>: how a reply, or its absence, is read. The fixed parts of the texts are given
  in English and without the status number; neither version contains a word \<open>isInsufficientFunds\<close> looks for.
\<close>

definition placeOrder :: "string option \<Rightarrow> int \<times> string \<Rightarrow> sim_error option" where
  "placeOrder transport resp =
     (case transport of
        Some t \<Rightarrow> Some \<lparr>is_sentinel = False, err_text = ''HTTP request failed: '' @ t\<rparr>
      | None \<Rightarrow>
          (let (code, body) = resp in
           if code = 400 then Some \<lparr>is_sentinel = False, err_text = ''invalid order: '' @ body\<rparr>
           else if code \<noteq> 201 \<and> code \<noteq> 200 \<and> code \<noteq> 202
                then Some \<lparr>is_sentinel = False, err_text = ''order failed: '' @ body\<rparr>
           else None))"

definition rechargeBot :: "string option \<Rightarrow> int \<Rightarrow> sim_error option" where
  "rechargeBot transport code =
     (case transport of
        Some t \<Rightarrow> Some \<lparr>is_sentinel = False, err_text = ''recharge request failed: '' @ t\<rparr>
      | None \<Rightarrow> if code \<noteq> 200 then Some \<lparr>is_sentinel = False, err_text = ''recharge failed''\<rparr> else None)"

section \<open>The service\<close>

record Status =
  stRunning :: bool
  stSymbol :: string
  stTotalTx :: int
  stInfinite :: bool
  stSentTx :: int
  stStartedAt :: millis
  stFinishedAt :: "millis option"
  stMessage :: string

text \<open>A worker is about to look at the counter, waits for its reply, or has returned.\<close>

datatype worker = Idle | Sending | Returned

text \<open>The run's goroutine, with its configuration and whether its context is cancelled.\<close>

datatype run = NoRun | Spawning Config bool | Trading Config bool "worker list"

record simulator =
  running :: bool
  status :: Status
  sentTx :: int
  goroutine :: run

definition NewService :: simulator where
  "NewService = \<lparr>running = False,
     status = \<lparr>stRunning = False, stSymbol = '''', stTotalTx = 0, stInfinite = False, stSentTx = 0, stStartedAt = 0,
               stFinishedAt = None, stMessage = ''''\<rparr>,
     sentTx = 0, goroutine = NoRun\<rparr>"

definition sim_Start :: "Config \<Rightarrow> millis \<Rightarrow> simulator \<Rightarrow> bool \<times> simulator" where
  "sim_Start cfg0 t s =
     (let cfg = applyDefaults cfg0 in
      if running s then (False, s)
      else (True, s\<lparr>running := True, sentTx := 0,
              status := \<lparr>stRunning = True, stSymbol = cfSymbol cfg, stTotalTx = cfTotalTx cfg, stInfinite = cfInfinite cfg,
                         stSentTx = 0, stStartedAt = t, stFinishedAt = None, stMessage = ''''\<rparr>,
              goroutine := Spawning cfg False\<rparr>))"

fun cancel_run :: "run \<Rightarrow> run" where
  "cancel_run NoRun = NoRun"
| "cancel_run (Spawning cfg c) = Spawning cfg True"
| "cancel_run (Trading cfg c ws) = Trading cfg True ws"

definition sim_Stop :: "simulator \<Rightarrow> bool \<times> simulator" where
  "sim_Stop s = (if \<not> running s then (False, s) else (True, s\<lparr>goroutine := cancel_run (goroutine s)\<rparr>))"

definition sim_GetStatus :: "simulator \<Rightarrow> Status" where
  "sim_GetStatus s = (status s)\<lparr>stRunning := running s, stSentTx := sentTx s\<rparr>"

definition finish :: "string \<Rightarrow> millis \<Rightarrow> simulator \<Rightarrow> simulator" where
  "finish message t s =
     s\<lparr>running := False, status := (status s)\<lparr>stRunning := False, stFinishedAt := Some t, stMessage := message\<rparr>,
       goroutine := NoRun\<rparr>"

section \<open>The HTTP handlers\<close>

text \<open>The body is the decoded configuration, or the error of its binding.\<close>

definition handle_Start :: "error + Config \<Rightarrow> millis \<Rightarrow> simulator \<Rightarrow> reply \<times> simulator" where
  "handle_Start body t s =
     (let cfg = (case body of Inl e \<Rightarrow> \<lparr>cfSymbol = '''', cfBasePrice = 0, cfNumBots = 0, cfTotalTx = 0, cfWorkerCount = 0,
                                        cfInfinite = False, cfIntervalMs = 0\<rparr>
                 | Inr cfg \<Rightarrow> cfg);
          (ok, s') = sim_Start cfg t s
      in if \<not> ok then ((409, JObj [(''error'', JStr ''the simulator is already running'')]), s')
         else ((200, JObj [(''message'', JStr ''simulator started''), (''symbol'', JStr (cfSymbol cfg))]), s'))"

definition handle_Stop :: "simulator \<Rightarrow> reply \<times> simulator" where
  "handle_Stop s =
     (let (ok, s') = sim_Stop s
      in if \<not> ok then ((400, JObj [(''error'', JStr ''the simulator is not running'')]), s')
         else ((200, JObj [(''message'', JStr ''simulator stopped'')]), s'))"

text \<open>A start without a body replies an empty symbol, while the run trades the default one.\<close>

lemma start_replies_raw_symbol:
  "\<not> running s \<Longrightarrow>
     (case handle_Start (Inl e) t s of ((code, js), s') \<Rightarrow>
        js = JObj [(''message'', JStr ''simulator started''), (''symbol'', JStr '''')] \<and>
        stSymbol (sim_GetStatus s') = ''BTC-USD'')"
  by (simp add: handle_Start_def sim_Start_def sim_GetStatus_def applyDefaults_def Let_def)

section \<open>run and runSimulation\<close>

definition run_spawned :: "bot list \<Rightarrow> millis \<Rightarrow> simulator \<Rightarrow> simulator" where
  "run_spawned bots t s =
     (case goroutine s of
        Spawning cfg c \<Rightarrow>
          (if length bots = 0 then finish ''no bots'' t s
           else (let workerCount = (if cfWorkerCount cfg \<le> 0 then 1 else cfWorkerCount cfg)
                 in s\<lparr>goroutine := Trading cfg c (replicate (nat workerCount) Idle)\<rparr>))
      | _ \<Rightarrow> s)"

text \<open>The top of a worker's loop: the context, then the counter, then the request is on its way.\<close>

definition worker_look :: "nat \<Rightarrow> simulator \<Rightarrow> simulator" where
  "worker_look i s =
     (case goroutine s of
        Trading cfg c ws \<Rightarrow>
          s\<lparr>goroutine := Trading cfg c (ws[i :=
             if c then Returned
             else if \<not> cfInfinite cfg \<and> sentTx s \<ge> cfTotalTx cfg then Returned
             else Sending])\<rparr>
      | _ \<Rightarrow> s)"

text \<open>The reply: an accepted order is counted, the others are not (short of funds the bot recharges).\<close>

definition worker_reply :: "nat \<Rightarrow> sim_error option \<Rightarrow> simulator \<Rightarrow> simulator" where
  "worker_reply i err s =
     (case goroutine s of
        Trading cfg c ws \<Rightarrow>
          (let s' = s\<lparr>goroutine := Trading cfg c (ws[i := Idle])\<rparr>
           in case err of None \<Rightarrow> s'\<lparr>sentTx := sentTx s + 1\<rparr> | Some e \<Rightarrow> s')
      | _ \<Rightarrow> s)"

inductive sim_step :: "simulator \<Rightarrow> simulator \<Rightarrow> bool" where
  start: "sim_step s (snd (sim_Start cfg t s))"
| stop: "sim_step s (snd (sim_Stop s))"
| spawned: "goroutine s = Spawning cfg c \<Longrightarrow> 
            sim_step s (run_spawned (spawnBots stopped join (cfNumBots cfg)) t s)"
| look: "goroutine s = Trading cfg c ws \<Longrightarrow> i < length ws \<Longrightarrow> ws ! i = Idle \<Longrightarrow> sim_step s (worker_look i s)"
| reply: "goroutine s = Trading cfg c ws \<Longrightarrow> i < length ws \<Longrightarrow> ws ! i = Sending \<Longrightarrow> 
          sim_step s (worker_reply i (placeOrder transport resp) s)"
| all_returned: "goroutine s = Trading cfg c ws \<Longrightarrow> set ws \<subseteq> {Returned} \<Longrightarrow> sim_step s (finish ''simulation completed'' t s)"

inductive sim_reachable :: "simulator \<Rightarrow> bool" where
  init: "sim_reachable NewService"
| step: "sim_reachable s \<Longrightarrow> sim_step s s' \<Longrightarrow> sim_reachable s'"

inductive_cases sim_stepE: "sim_step s s'"

section \<open>The counter's bounds\<close>

abbreviation sending :: "worker list \<Rightarrow> int" where
  "sending ws \<equiv> int (count_list ws Sending)"

lemma count_list_update:
  "i < length ws \<Longrightarrow> int (count_list (ws[i := w]) x) =
     int (count_list ws x) - (if ws ! i = x then 1 else 0) + (if w = x then 1 else 0)"
proof (induction ws arbitrary: i)
  case (Cons a ws)
  show ?case
  proof (cases i)
    case 0
    then show ?thesis by auto
  next
    case (Suc j)
    then show ?thesis using Cons.IH [of j] Cons.prems by auto
  qed
qed simp

definition sim_inv :: "simulator \<Rightarrow> bool" where
  "sim_inv s \<longleftrightarrow>
     (case goroutine s of
        NoRun \<Rightarrow> \<not> running s
      | Spawning cfg c \<Rightarrow> running s \<and> sentTx s = 0 \<and> config_ok cfg
      | Trading cfg c ws \<Rightarrow> running s \<and> config_ok cfg \<and> int (length ws) = cfWorkerCount cfg \<and> 0 \<le> sentTx s \<and>
          (\<not> cfInfinite cfg \<longrightarrow> sentTx s + sending ws \<le> cfTotalTx cfg + cfWorkerCount cfg - 1) \<and>
          (Returned \<in> set ws \<and> \<not> c \<longrightarrow> \<not> cfInfinite cfg \<and> cfTotalTx cfg \<le> sentTx s))"

lemma sim_inv_start: "sim_inv s \<Longrightarrow> sim_inv (snd (sim_Start cfg t s))"
  using applyDefaults_ok [of cfg] by (cases "running s") (simp_all add: sim_inv_def sim_Start_def Let_def)

lemma sim_inv_stop: "sim_inv s \<Longrightarrow> sim_inv (snd (sim_Stop s))"
  by (cases "goroutine s") (auto simp: sim_inv_def sim_Stop_def)

lemma sim_inv_spawned: "sim_inv s \<Longrightarrow> goroutine s = Spawning cfg c \<Longrightarrow> sim_inv (run_spawned bots t s)"
  by (auto simp: sim_inv_def run_spawned_def finish_def config_ok_def Let_def count_list_0_iff)

lemma sim_inv_look:
  assumes "sim_inv s" and g: "goroutine s = Trading cfg c ws" and i: "i < length ws" "ws ! i = Idle"
  shows "sim_inv (worker_look i s)"
proof -
  have "sending (ws[i := Sending]) = sending ws + 1" "sending (ws[i := Returned]) = sending ws"
    using i by (simp_all add: count_list_update)
  moreover have "count_list (ws[i := Sending]) Sending \<le> length (ws[i := Sending])" by (rule count_le_length)
  moreover have "Returned \<in> set (ws[i := Sending]) \<Longrightarrow> Returned \<in> set ws"
    using set_update_subset_insert [of ws i Sending] by auto
  ultimately show ?thesis
    using assms(1) g by (auto simp: sim_inv_def worker_look_def)
qed

lemma sim_inv_reply:
  assumes "sim_inv s" and g: "goroutine s = Trading cfg c ws" and i: "i < length ws" "ws ! i = Sending"
  shows "sim_inv (worker_reply i err s)"
proof -
  have "sending (ws[i := Idle]) = sending ws - 1" using i by (simp add: count_list_update)
  moreover have "Returned \<in> set (ws[i := Idle]) \<Longrightarrow> Returned \<in> set ws"
    using set_update_subset_insert [of ws i Idle] by auto
  ultimately show ?thesis
    using assms(1) g by (auto simp: sim_inv_def worker_reply_def Let_def split: option.split)
qed

lemma sim_inv_finish: "sim_inv (finish msg t s)"
  by (simp add: sim_inv_def finish_def)

lemma sim_inv_reachable: "sim_reachable s \<Longrightarrow> sim_inv s"
proof (induction rule: sim_reachable.induct)
  case init
  show ?case by (simp add: sim_inv_def NewService_def)
next
  case (step s s')
  from step(2,3) show ?case
    by (cases rule: sim_stepE)
       (auto intro: sim_inv_start sim_inv_stop sim_inv_spawned sim_inv_look sim_inv_reply sim_inv_finish)
qed

text \<open>
  C40: a run of the simulator. In every interleaving of the workers with \<open>Start\<close> and \<open>Stop\<close>, a run with a
  limit never counts more accepted orders than the limit and one per worker but one (each may have passed
  the check before the others counted), and when all its workers have returned without a \<open>Stop\<close> it
  reached the limit; a run without a limit ends only by \<open>Stop\<close>. While there is a run the service reports
  that it is running and refuses another \<open>Start\<close>; afterwards it accepts one.
\<close>

theorem simulation_counts:
  assumes "sim_reachable s"
  shows "(case goroutine s of
      Trading cfg c ws \<Rightarrow>
        (cfInfinite cfg \<or> sentTx s \<le> cfTotalTx cfg + cfWorkerCount cfg - 1) \<and>
        (set ws \<subseteq> {Returned} \<and> \<not> c \<longrightarrow> \<not> cfInfinite cfg \<and> cfTotalTx cfg \<le> sentTx s)
    | _ \<Rightarrow> True) \<and>
    stRunning (sim_GetStatus s) = (goroutine s \<noteq> NoRun) \<and> (fst (sim_Start cfg' t s) \<longleftrightarrow> goroutine s = NoRun)"
proof -
  note inv = sim_inv_reachable [OF assms]
  show ?thesis
  proof (cases "goroutine s")
    case (Trading cfg c ws)
    with inv have "ws \<noteq> []" by (auto simp: sim_inv_def config_ok_def)
    with inv Trading show ?thesis
      by (cases ws) (auto simp: sim_inv_def sim_GetStatus_def sim_Start_def Let_def)
  qed (use inv in \<open>simp_all add: sim_inv_def sim_GetStatus_def sim_Start_def Let_def\<close>)
qed

text \<open>With a limit of one order and two workers, both may pass the check: two orders are counted.\<close>

definition demo_cfg :: Config where
  "demo_cfg = \<lparr>cfSymbol = ''BTC-USD'', cfBasePrice = 100, cfNumBots = 1, cfTotalTx = 1, cfWorkerCount = 2,
     cfInfinite = False, cfIntervalMs = 0\<rparr>"

abbreviation accepted :: "sim_error option" where
  "accepted \<equiv> placeOrder None (202, '''')"

definition demo_trading :: simulator where
  "demo_trading = run_spawned (spawnBots (\<lambda>i. False) (\<lambda>i. Some 1) 1) 2 (snd (sim_Start demo_cfg 1 NewService))"

definition demo_sent :: simulator where
  "demo_sent = worker_reply 1 accepted (worker_reply 0 accepted (worker_look 1 (worker_look 0 demo_trading)))"

definition demo_sim :: simulator where
  "demo_sim = worker_look 1 (worker_look 0 demo_sent)"

lemmas demo_sim_eval = sim_Start_def applyDefaults_def NewService_def run_spawned_def spawnBots_def
  worker_look_def worker_reply_def placeOrder_def finish_def Let_def demo_cfg_def

lemma demo_trading_reachable:
  "sim_reachable demo_trading" "goroutine demo_trading = Trading demo_cfg False [Idle, Idle]" "sentTx demo_trading = 0"
  "running demo_trading"
proof -
  have "sim_reachable (snd (sim_Start demo_cfg 1 NewService))" by (rule sim_reachable.step [OF init start])
  moreover have "goroutine (snd (sim_Start demo_cfg 1 NewService)) = Spawning demo_cfg False" by (simp add: demo_sim_eval)
  ultimately have "sim_reachable (run_spawned (spawnBots (\<lambda>i. False) (\<lambda>i. Some 1) (cfNumBots demo_cfg)) 2
      (snd (sim_Start demo_cfg 1 NewService)))"
    by (rule sim_reachable.step [OF _ spawned])
  then show "sim_reachable demo_trading" by (simp add: demo_trading_def demo_cfg_def)
qed (simp_all add: demo_trading_def demo_sim_eval numeral_2_eq_2)

lemma reachable_look:
  "sim_reachable s \<Longrightarrow> goroutine s = Trading cfg c ws \<Longrightarrow> i < length ws \<Longrightarrow> ws ! i = Idle \<Longrightarrow> sim_reachable (worker_look i s)"
  by (rule sim_reachable.step [OF _ look])

lemma reachable_reply:
  "sim_reachable s \<Longrightarrow> goroutine s = Trading cfg c ws \<Longrightarrow> i < length ws \<Longrightarrow> ws ! i = Sending \<Longrightarrow>
     sim_reachable (worker_reply i (placeOrder transport resp) s)"
  by (rule sim_reachable.step [OF _ reply])

lemma demo_sent_reachable:
  "sim_reachable demo_sent" "goroutine demo_sent = Trading demo_cfg False [Idle, Idle]" "sentTx demo_sent = 2" "running demo_sent"
proof -
  note t = demo_trading_reachable
  let ?s1 = "worker_look 0 demo_trading" and ?s2 = "worker_look 1 (worker_look 0 demo_trading)"
  let ?s3 = "worker_reply 0 accepted ?s2"
  have g: "goroutine ?s1 = Trading demo_cfg False [Sending, Idle]" "goroutine ?s2 = Trading demo_cfg False [Sending, Sending]"
    "goroutine ?s3 = Trading demo_cfg False [Idle, Sending]"
    using t by (simp_all add: worker_look_def worker_reply_def placeOrder_def demo_cfg_def)
  have "sim_reachable ?s1" using reachable_look [OF t(1,2)] by simp
  then have "sim_reachable ?s2" using reachable_look [OF _ g(1)] by simp
  then have "sim_reachable ?s3" using reachable_reply [OF _ g(2)] by simp
  then show "sim_reachable demo_sent" using reachable_reply [OF _ g(3)] by (simp add: demo_sent_def)
  show "goroutine demo_sent = Trading demo_cfg False [Idle, Idle]" "sentTx demo_sent = 2" "running demo_sent"
    using t by (simp_all add: demo_sent_def worker_look_def worker_reply_def placeOrder_def demo_cfg_def)
qed

lemma demo_sim_reachable:
  "sim_reachable demo_sim" "goroutine demo_sim = Trading demo_cfg False [Returned, Returned]" "sentTx demo_sim = 2"
proof -
  note t = demo_sent_reachable
  let ?s1 = "worker_look 0 demo_sent"
  have g: "goroutine ?s1 = Trading demo_cfg False [Returned, Idle]"
    using t by (simp add: worker_look_def demo_cfg_def)
  have "sim_reachable ?s1" using reachable_look [OF t(1,2)] by simp
  then show "sim_reachable demo_sim" using reachable_look [OF _ g] by (simp add: demo_sim_def)
  show "goroutine demo_sim = Trading demo_cfg False [Returned, Returned]" "sentTx demo_sim = 2"
    using t by (simp_all add: demo_sim_def worker_look_def demo_cfg_def)
qed

theorem simulation_counts_witness:
  "goroutine demo_sim = Trading demo_cfg False [Returned, Returned] \<and> sentTx demo_sim = 2 \<and>
   sentTx demo_sim \<le> cfTotalTx demo_cfg + cfWorkerCount demo_cfg - 1 \<and> stRunning (sim_GetStatus demo_sim) \<and>
   \<not> fst (sim_Start demo_cfg 5 demo_sim)"
  using simulation_counts [OF demo_sim_reachable(1), of demo_cfg 5] demo_sim_reachable(2,3)
  by (simp add: demo_cfg_def)

end
