(* ===== verification/Gateway.thy ===== *)
theory Gateway
  imports RateLimiter Settlement Api
begin

text \<open>
  The gateway: src/cmd/gateway/main.go, with the route tables of the services behind it
  (src/internal/api/handlers.go, src/internal/simulation/http_handlers.go, src/cmd/market-data-service/main.go).
  The router is gin's: a request is served by the route of its method and path, a parameter standing for one
  nonempty segment and a wildcard for the rest of the path, and by \<open>NoRoute\<close> when there is none (gin's redirect
  of paths with a trailing slash is left out). The CORS middleware, the upstream services, the clocks and Redis
  are arguments; the pages of the local routes stand for what those handlers write. The environment is the value of each variable, empty when it is not set.
\<close>

section \<open>Configuration from the environment\<close>

definition trim_blank :: "char \<Rightarrow> bool" where
  "trim_blank c \<longleftrightarrow> of_char c \<in> {9 :: nat, 10, 11, 12, 13, 32}"

definition TrimSpace :: "string \<Rightarrow> string" where
  "TrimSpace s = rev (dropWhile trim_blank (rev (dropWhile trim_blank s)))"

definition defaultOrigins :: "string list" where
  "defaultOrigins = [''http://localhost:5173'', ''http://localhost:3000'']"

fun collect_origins :: "string list \<Rightarrow> string list \<Rightarrow> string list" where
  "collect_origins origins [] = origins"
| "collect_origins origins (part # parts) =
     (let origin = TrimSpace part
      in if origin = '''' then collect_origins origins parts
         else if origin \<in> set origins then collect_origins origins parts
         else collect_origins (origins @ [origin]) parts)"

definition allowedOriginsFromEnv :: "string \<Rightarrow> string list" where
  "allowedOriginsFromEnv env =
     (let rawOrigins = TrimSpace env
      in if rawOrigins = '''' then defaultOrigins
         else (let origins = collect_origins [] (split_on (CHR '','') rawOrigins)
               in if length origins = 0 then defaultOrigins else origins))"

definition env_or :: "string \<Rightarrow> string \<Rightarrow> string" where
  "env_or dflt val = (if val = '''' then dflt else val)"

text \<open>\<open>strconv.Atoi\<close>: an optional sign and at least one digit, nothing else, within 64 bits.\<close>

definition Atoi :: "string \<Rightarrow> int option" where
  "Atoi text =
     (let neg = (text \<noteq> [] \<and> hd text = CHR ''-'');
          u = (if text \<noteq> [] \<and> (hd text = CHR ''-'' \<or> hd text = CHR ''+'') then tl text else text);
          n = (if neg then - digits_value u else digits_value u)
      in if u = [] \<or> \<not> list_all is_digit u \<or> n < - (2 ^ 63) \<or> 2 ^ 63 - 1 < n then None else Some n)"

definition rate_limit_from :: "int \<Rightarrow> string \<Rightarrow> int" where
  "rate_limit_from dflt val =
     (if val \<noteq> '''' then (case Atoi val of Some parsed \<Rightarrow> parsed | None \<Rightarrow> dflt) else dflt)"

lemma collect_origins_correct:
  "distinct origins \<Longrightarrow> '''' \<notin> set origins \<Longrightarrow>
     distinct (collect_origins origins parts) \<and>
     set (collect_origins origins parts) = set origins \<union> (TrimSpace ` set parts - {''''})"
  by (induction origins parts rule: collect_origins.induct) (auto simp: Let_def)

text \<open>CORS gets a nonempty list of different nonempty origins: those of the variable, or the defaults.\<close>

lemma allowedOrigins_correct:
  "allowedOriginsFromEnv env \<noteq> [] \<and> distinct (allowedOriginsFromEnv env) \<and> '''' \<notin> set (allowedOriginsFromEnv env) \<and>
   (set (allowedOriginsFromEnv env) = TrimSpace ` set (split_on (CHR '','') (TrimSpace env)) - {''''} \<or>
    allowedOriginsFromEnv env = defaultOrigins)"
  using collect_origins_correct [of "[]" "split_on (CHR '','') (TrimSpace env)"]
  by (auto simp: allowedOriginsFromEnv_def Let_def defaultOrigins_def)

section \<open>Routes\<close>

datatype upstream = OrderService | MarketDataService | SimulationService

datatype target = Proxy upstream | Metrics | Health

datatype limit = NoLimit | PublicLimit | PrivateLimit

datatype segment = Lit string | Param | Wildcard

record route =
  rtMethods :: "string list"
  rtPath :: "segment list"
  rtLimit :: limit
  rtIdempotent :: bool
  rtTarget :: target

definition anyMethods :: "string list" where
  "anyMethods = [''GET'', ''POST'', ''PUT'', ''PATCH'', ''HEAD'', ''OPTIONS'', ''DELETE'', ''CONNECT'', ''TRACE'']"

definition open_route :: "string list \<Rightarrow> segment list \<Rightarrow> target \<Rightarrow> route" where
  "open_route ms path tg = \<lparr>rtMethods = ms, rtPath = path, rtLimit = NoLimit, rtIdempotent = False, rtTarget = tg\<rparr>"

definition api :: "segment list \<Rightarrow> segment list" where
  "api path = Lit ''api'' # Lit ''v1'' # path"

definition public_route :: "string \<Rightarrow> segment list \<Rightarrow> route" where
  "public_route m path = \<lparr>rtMethods = [m], rtPath = api path, rtLimit = PublicLimit, rtIdempotent = False,
                    rtTarget = Proxy MarketDataService\<rparr>"

definition private_route :: "string \<Rightarrow> segment list \<Rightarrow> route" where
  "private_route m path = \<lparr>rtMethods = [m], rtPath = api path, rtLimit = PrivateLimit, rtIdempotent = False,
                     rtTarget = Proxy OrderService\<rparr>"

definition orders_route :: "string \<Rightarrow> segment list \<Rightarrow> route" where
  "orders_route m path = \<lparr>rtMethods = [m], rtPath = api path, rtLimit = PrivateLimit, rtIdempotent = True,
                    rtTarget = Proxy OrderService\<rparr>"

definition gateway_routes :: "route list" where
  "gateway_routes =
    [open_route [''GET''] [Lit ''metrics''] Metrics,
     open_route [''GET''] [Lit ''health''] Health,
     open_route anyMethods [Lit ''ws''] (Proxy MarketDataService),
     open_route anyMethods [Lit ''docs'', Wildcard] (Proxy OrderService),
     open_route anyMethods [Lit ''swagger'', Wildcard] (Proxy OrderService),
     public_route ''GET'' [Lit ''orderbook''],
     public_route ''GET'' [Lit ''klines''],
     public_route ''GET'' [Lit ''trades''],
     private_route ''GET'' [Lit ''orders''],
     private_route ''GET'' [Lit ''orders'', Param],
     private_route ''DELETE'' [Lit ''orders'', Param],
     private_route ''GET'' [Lit ''accounts''],
     private_route ''POST'' [Lit ''test'', Lit ''join''],
     private_route ''POST'' [Lit ''test'', Lit ''recharge'', Param],
     orders_route ''POST'' [Lit ''orders''],
     orders_route ''POST'' [Lit ''orders'', Lit ''batch''],
     open_route [''POST''] (api [Lit ''simulation'', Lit ''start'']) (Proxy SimulationService),
     open_route [''POST''] (api [Lit ''simulation'', Lit ''stop'']) (Proxy SimulationService),
     open_route [''GET''] (api [Lit ''simulation'', Lit ''status'']) (Proxy SimulationService)]"

definition no_route :: route where
  "no_route = open_route [] [] (Proxy OrderService)"

fun match_path :: "segment list \<Rightarrow> string list \<Rightarrow> bool" where
  "match_path [] [] = True"
| "match_path (Lit l # ps) (s # ss) = (l = s \<and> match_path ps ss)"
| "match_path (Param # ps) (s # ss) = (s \<noteq> '''' \<and> match_path ps ss)"
| "match_path [Wildcard] (s # ss) = True"
| "match_path _ _ = False"

definition find_route :: "string \<Rightarrow> string list \<Rightarrow> route" where
  "find_route m path =
     (case find (\<lambda>r. m \<in> set (rtMethods r) \<and> match_path (rtPath r) path) gateway_routes of
        Some r \<Rightarrow> r | None \<Rightarrow> no_route)"

section \<open>The routes of the services behind the gateway\<close>

definition RegisterRoutes :: "(string \<times> segment list) list" where
  "RegisterRoutes =
    [(''GET'', [Lit ''orderbook'']), (''GET'', [Lit ''klines'']), (''GET'', [Lit ''trades'']),
     (''GET'', [Lit ''orders'']), (''GET'', [Lit ''orders'', Param]), (''DELETE'', [Lit ''orders'', Param]),
     (''GET'', [Lit ''accounts'']), (''POST'', [Lit ''test'', Lit ''join'']),
     (''POST'', [Lit ''test'', Lit ''recharge'', Param]),
     (''POST'', [Lit ''orders'']), (''POST'', [Lit ''orders'', Lit ''batch''])]"

definition market_data_routes :: "(string \<times> segment list) list" where
  "market_data_routes = [(''GET'', [Lit ''orderbook'']), (''GET'', [Lit ''klines'']), (''GET'', [Lit ''trades''])]"

definition simulation_routes :: "(string \<times> segment list) list" where
  "simulation_routes =
    [(''POST'', [Lit ''simulation'', Lit ''start'']), (''POST'', [Lit ''simulation'', Lit ''stop'']),
     (''GET'', [Lit ''simulation'', Lit ''status''])]"

definition upstream_routes :: "upstream \<Rightarrow> (string \<times> segment list) list" where
  "upstream_routes u =
     map (\<lambda>(m, path). (m, api path))
       (case u of OrderService \<Rightarrow> RegisterRoutes | MarketDataService \<Rightarrow> market_data_routes
        | SimulationService \<Rightarrow> simulation_routes)"

definition is_api :: "route \<Rightarrow> bool" where
  "is_api r \<longleftrightarrow> take 2 (rtPath r) = [Lit ''api'', Lit ''v1'']"

text \<open>Every API route the gateway forwards is registered at the service it forwards to.\<close>

lemma forwarded_routes_exist:
  "list_all (\<lambda>r. is_api r \<longrightarrow>
      (case rtTarget r of Proxy u \<Rightarrow> list_all (\<lambda>m. (m, rtPath r) \<in> set (upstream_routes u)) (rtMethods r) | _ \<Rightarrow> False))
    gateway_routes"
  by code_simp

text \<open>
  The order service can also mount its routes with the middleware itself, which its tests do: method, path,
  limiter and whether the idempotency middleware (with 24 hours) is on the route.
\<close>

definition RegisterRoutesWithMiddleware :: "(string \<times> segment list \<times> limit \<times> bool) list" where
  "RegisterRoutesWithMiddleware =
    [(''GET'', [Lit ''orderbook''], PublicLimit, False), (''GET'', [Lit ''klines''], PublicLimit, False),
     (''GET'', [Lit ''trades''], PublicLimit, False),
     (''GET'', [Lit ''orders''], PrivateLimit, False), (''GET'', [Lit ''orders'', Param], PrivateLimit, False),
     (''DELETE'', [Lit ''orders'', Param], PrivateLimit, False), (''GET'', [Lit ''accounts''], PrivateLimit, False),
     (''POST'', [Lit ''test'', Lit ''join''], PrivateLimit, False),
     (''POST'', [Lit ''test'', Lit ''recharge'', Param], PrivateLimit, False),
     (''POST'', [Lit ''orders''], PrivateLimit, True), (''POST'', [Lit ''orders'', Lit ''batch''], PrivateLimit, True)]"

text \<open>What the tests mount is what production serves: the same routes, each protected as the gateway does it.\<close>

lemma test_routes_agree:
  "map (\<lambda>(m, path, l, i). (m, path)) RegisterRoutesWithMiddleware = RegisterRoutes"
  "list_all (\<lambda>r. is_api r \<and> rtTarget r \<noteq> Proxy SimulationService \<longrightarrow>
      list_all (\<lambda>m. (m, drop 2 (rtPath r), rtLimit r, rtIdempotent r) \<in> set RegisterRoutesWithMiddleware) (rtMethods r))
    gateway_routes"
  by code_simp+

text \<open>No two routes serve the same request, so the order of the table does not matter.\<close>

fun overlap :: "segment list \<Rightarrow> segment list \<Rightarrow> bool" where
  "overlap [] [] = True"
| "overlap (Lit a # ps) (Lit b # qs) = (a = b \<and> overlap ps qs)"
| "overlap (Lit a # ps) (Param # qs) = (a \<noteq> '''' \<and> overlap ps qs)"
| "overlap (Param # ps) (Lit b # qs) = (b \<noteq> '''' \<and> overlap ps qs)"
| "overlap (Param # ps) (Param # qs) = overlap ps qs"
| "overlap (Wildcard # ps) (q # qs) = True"
| "overlap (p # ps) (Wildcard # qs) = True"
| "overlap _ _ = False"

lemma match_overlap: "match_path ps ss \<Longrightarrow> match_path qs ss \<Longrightarrow> overlap ps qs"
  by (induction ps ss arbitrary: qs rule: match_path.induct; case_tac qs; case_tac "hd qs") auto

lemma routes_disjoint:
  "sorted_wrt (\<lambda>r r'. list_all (\<lambda>m. m \<notin> set (rtMethods r')) (rtMethods r) \<or> \<not> overlap (rtPath r) (rtPath r')) gateway_routes"
  by code_simp

lemma find_route_unique:
  assumes "r \<in> set gateway_routes" and "m \<in> set (rtMethods r)" and "match_path (rtPath r) path"
  shows "find_route m path = r"
proof -
  let ?P = "\<lambda>r. m \<in> set (rtMethods r) \<and> match_path (rtPath r) path"
  have "sorted_wrt (\<lambda>r r'. \<not> (?P r \<and> ?P r')) gateway_routes"
    by (rule sorted_wrt_mono_rel [OF _ routes_disjoint]) (auto simp: list_all_iff dest: match_overlap)
  moreover have first: "find P xs = Some x" if "sorted_wrt (\<lambda>x y. \<not> (P x \<and> P y)) xs" "x \<in> set xs" "P x" for P xs and x :: route
    using that by (induction xs) auto
  ultimately have "find ?P gateway_routes = Some r" using assms by (intro first) simp_all
  then show ?thesis by (simp add: find_route_def)
qed

section \<open>How strict a route is\<close>

text \<open>The limits by strictness, as the comments of the route groups rank them.\<close>

instantiation limit :: linorder
begin

fun rank_limit :: "limit \<Rightarrow> nat" where
  "rank_limit NoLimit = 0"
| "rank_limit PublicLimit = 1"
| "rank_limit PrivateLimit = 2"

definition less_eq_limit :: "limit \<Rightarrow> limit \<Rightarrow> bool" where
  "a \<le> b \<longleftrightarrow> rank_limit a \<le> rank_limit b"

definition less_limit :: "limit \<Rightarrow> limit \<Rightarrow> bool" where
  "(a :: limit) < b \<longleftrightarrow> rank_limit a < rank_limit b"

instance
proof
  fix a b :: limit
  assume "a \<le> b" "b \<le> a"
  then show "a = b" by (cases a; cases b) (simp_all add: less_eq_limit_def)
qed (auto simp: less_eq_limit_def less_limit_def)

end

text \<open>
  Every API route to the order service or to the market data is limited, those of the order service most
  strictly; whatever places orders is idempotent. Only the simulator's controls are open.
\<close>

lemma routes_protected:
  assumes "r \<in> set gateway_routes" and "is_api r"
  shows "rtTarget r = Proxy SimulationService \<or>
    PublicLimit \<le> rtLimit r \<and> (rtTarget r = Proxy OrderService \<longrightarrow> PrivateLimit \<le> rtLimit r) \<and>
    (rtMethods r = [''POST''] \<and> rtPath r ! 2 = Lit ''orders'' \<longrightarrow> rtIdempotent r)"
proof -
  have "list_all (\<lambda>r. is_api r \<longrightarrow> rtTarget r = Proxy SimulationService \<or>
    PublicLimit \<le> rtLimit r \<and> (rtTarget r = Proxy OrderService \<longrightarrow> PrivateLimit \<le> rtLimit r) \<and>
    (rtMethods r = [''POST''] \<and> rtPath r ! 2 = Lit ''orders'' \<longrightarrow> rtIdempotent r)) gateway_routes"
    by code_simp
  with assms show ?thesis by (auto simp: list_all_iff)
qed

section \<open>Serving a request\<close>

record gw_request =
  rqMethod :: string
  rqPath :: "string list"
  rqIP :: string
  rqKey :: string
  rqBody :: string
  rqHost :: string
  rqTLS :: bool
  rqForwardedHost :: string
  rqForwardedProto :: string

text \<open>The readings of the clocks while a request is served, and whether Redis answers the limiter's script.\<close>

record arrival =
  aUp :: bool
  aNow :: seconds
  aSrv :: seconds
  aGet :: seconds
  aSet :: seconds

definition newReverseProxy ::
  "(upstream \<Rightarrow> gw_request \<Rightarrow> 'w \<Rightarrow> writer_call list option \<times> 'w) \<Rightarrow> upstream \<Rightarrow> (gw_request, 'w) http_handler" where
  "newReverseProxy roundtrip u req w =
     (let req1 = req\<lparr>rqForwardedHost := rqHost req\<rparr>;
          req2 = (if rqTLS req1 then req1\<lparr>rqForwardedProto := ''https''\<rparr> else req1\<lparr>rqForwardedProto := ''http''\<rparr>)
      in case roundtrip u req2 w of
           (None, w') \<Rightarrow> ([WriteHeader 502, Write ''upstream unavailable''], w')
         | (Some cs, w') \<Rightarrow> (cs, w'))"

definition route_handler ::
  "(upstream \<Rightarrow> gw_request \<Rightarrow> 'w \<Rightarrow> writer_call list option \<times> 'w) \<Rightarrow> string \<Rightarrow> target \<Rightarrow> (gw_request, 'w) http_handler" where
  "route_handler roundtrip metrics_page tg req w =
     (case tg of
        Proxy u \<Rightarrow> newReverseProxy roundtrip u req w
      | Metrics \<Rightarrow> ([WriteHeader 200, Write metrics_page], w)
      | Health \<Rightarrow> ([WriteHeader 200, Write ''ok''], w))"

text \<open>The idempotency middleware, when the route has it, as the handler of what is left of the chain.\<close>

definition idempotent_chain ::
  "(string \<Rightarrow> seconds \<Rightarrow> 'st \<Rightarrow> idempotencyEntry option) \<Rightarrow>
   (string \<Rightarrow> int \<Rightarrow> string \<Rightarrow> seconds \<Rightarrow> seconds \<Rightarrow> 'st \<Rightarrow> 'st) \<Rightarrow> bool \<Rightarrow> (gw_request, 'w) http_handler \<Rightarrow> arrival \<Rightarrow>
   (gw_request, 'st \<times> 'w) http_handler" where
  "idempotent_chain lookup insert_entry idem h a req = (\<lambda>(store, w).
     if idem
     then (let (resp, store', w') = IdempotencyMiddleware lookup insert_entry (24 * 3600) h (rqKey req) req (aGet a) (aSet a) (store, w)
           in ([WriteHeader (fst resp), Write (snd resp)], store', w'))
     else (let (cs, w') = h req w in (cs, store, w')))"

definition limit_chain ::
  "(limit \<Rightarrow> gw_request \<Rightarrow> arrival \<Rightarrow> 'l \<Rightarrow> bool \<times> 'l) \<Rightarrow> limit \<Rightarrow> (gw_request, 'sw) http_handler \<Rightarrow> arrival \<Rightarrow>
   gw_request \<Rightarrow> 'l \<times> 'sw \<Rightarrow> writer_call list \<times> 'l \<times> 'sw" where
  "limit_chain allow lm h a req = (\<lambda>(l, sw).
     if lm = NoLimit then (let (cs, sw') = h req sw in (cs, l, sw'))
     else RateLimitMiddleware (allow lm req a) h req (l, sw))"

definition gateway_serve ::
  "(gw_request \<Rightarrow> response option) \<Rightarrow> (limit \<Rightarrow> gw_request \<Rightarrow> arrival \<Rightarrow> 'l \<Rightarrow> bool \<times> 'l) \<Rightarrow>
   (string \<Rightarrow> seconds \<Rightarrow> 'st \<Rightarrow> idempotencyEntry option) \<Rightarrow>
   (string \<Rightarrow> int \<Rightarrow> string \<Rightarrow> seconds \<Rightarrow> seconds \<Rightarrow> 'st \<Rightarrow> 'st) \<Rightarrow>
   (upstream \<Rightarrow> gw_request \<Rightarrow> 'w \<Rightarrow> writer_call list option \<times> 'w) \<Rightarrow> string \<Rightarrow>
   gw_request \<Rightarrow> arrival \<Rightarrow> 'l \<times> 'st \<times> 'w \<Rightarrow> response \<times> 'l \<times> 'st \<times> 'w" where
  "gateway_serve cors allow lookup insert_entry roundtrip metrics_page req a s =
     (case cors req of
        Some resp \<Rightarrow> (resp, s)
      | None \<Rightarrow>
          (let r = find_route (rqMethod req) (rqPath req);
               h = route_handler roundtrip metrics_page (rtTarget r);
               (cs, s') = limit_chain allow (rtLimit r) (idempotent_chain lookup insert_entry (rtIdempotent r) h a) a req s
           in (client_response cs, s')))"

fun gateway_run where
  "gateway_run serve [] s = s"
| "gateway_run serve ((req, a) # rs) s = gateway_run serve rs (snd (serve req a s))"

text \<open>The limiters \<open>main\<close> builds when Redis is there: both keep their buckets in the same server.\<close>

definition redis_limiters ::
  "string \<Rightarrow> string \<Rightarrow> limit \<Rightarrow> gw_request \<Rightarrow> arrival \<Rightarrow> redis_numbers \<Rightarrow> bool \<times> redis_numbers" where
  "redis_limiters env_public env_private lm req a st =
     (let publicRateLimit = rate_limit_from 200 env_public;
          privateRateLimit = rate_limit_from 100 env_private;
          limiter = (case lm of PrivateLimit \<Rightarrow> NewRedisRateLimiter privateRateLimit 1
                     | _ \<Rightarrow> NewRedisRateLimiter publicRateLimit 1)
      in redis_Allow limiter (rqIP req) (aUp a) (aNow a) (aSrv a) st)"

text \<open>Without Redis each has its own map; \<open>NewLimiter r b\<close> is golang.org/x/time/rate's.\<close>

definition memory_limiters ::
  "(rat \<Rightarrow> int \<Rightarrow> 'l) \<Rightarrow> (seconds \<Rightarrow> 'l \<Rightarrow> bool \<times> 'l) \<Rightarrow> string \<Rightarrow> string \<Rightarrow> limit \<Rightarrow> gw_request \<Rightarrow> arrival \<Rightarrow>
   'l memoryRateLimiter \<times> 'l memoryRateLimiter \<Rightarrow> bool \<times> 'l memoryRateLimiter \<times> 'l memoryRateLimiter" where
  "memory_limiters NewLimiter limiter_Allow env_public env_private lm req a = (\<lambda>(pub, priv).
     let publicRateLimit = rate_limit_from 200 env_public;
         privateRateLimit = rate_limit_from 100 env_private
     in case lm of
          PrivateLimit \<Rightarrow> (let (ok, priv') = memory_Allow (NewLimiter 100 privateRateLimit) limiter_Allow (rqIP req) (aNow a) priv
                          in (ok, pub, priv'))
        | _ \<Rightarrow> (let (ok, pub') = memory_Allow (NewLimiter 5 publicRateLimit) limiter_Allow (rqIP req) (aNow a) pub
                in (ok, pub', priv)))"

section \<open>A repeated order request\<close>

definition idempotent_request :: "gw_request \<Rightarrow> bool" where
  "idempotent_request req \<longleftrightarrow> rtIdempotent (find_route (rqMethod req) (rqPath req))"

text \<open>These are the requests that place orders.\<close>

lemma match_literals: "match_path (map Lit ls) ss \<longleftrightarrow> ls = ss"
proof (induction ls arbitrary: ss)
  case (Cons l ls)
  then show ?case by (cases ss) auto
next
  case Nil
  show ?case by (cases ss) auto
qed

lemma idempotent_routes:
  "filter rtIdempotent gateway_routes =
     [orders_route ''POST'' [Lit ''orders''], orders_route ''POST'' [Lit ''orders'', Lit ''batch'']]"
  by code_simp

lemma order_paths:
  "match_path (rtPath (orders_route m [Lit ''orders''])) ss \<longleftrightarrow> ss = [''api'', ''v1'', ''orders'']"
  "match_path (rtPath (orders_route m [Lit ''orders'', Lit ''batch''])) ss \<longleftrightarrow> ss = [''api'', ''v1'', ''orders'', ''batch'']"
  using match_literals [of "[''api'', ''v1'', ''orders'']" ss] match_literals [of "[''api'', ''v1'', ''orders'', ''batch'']" ss]
  by (auto simp: orders_route_def api_def)

lemma idempotent_request_iff:
  "idempotent_request req \<longleftrightarrow>
     rqMethod req = ''POST'' \<and> rqPath req \<in> {[''api'', ''v1'', ''orders''], [''api'', ''v1'', ''orders'', ''batch'']}"
proof -
  let ?P = "\<lambda>r. rqMethod req \<in> set (rtMethods r) \<and> match_path (rtPath r) (rqPath req)"
  have "idempotent_request req \<longleftrightarrow> (\<exists>r \<in> set gateway_routes. rtIdempotent r \<and> ?P r)"
  proof
    assume "idempotent_request req"
    then obtain r where "find ?P gateway_routes = Some r" "rtIdempotent r"
      by (auto simp: idempotent_request_def find_route_def no_route_def open_route_def split: option.splits)
    then show "\<exists>r \<in> set gateway_routes. rtIdempotent r \<and> ?P r" by (auto simp: find_Some_iff)
  next
    assume "\<exists>r \<in> set gateway_routes. rtIdempotent r \<and> ?P r"
    then show "idempotent_request req" using find_route_unique by (auto simp: idempotent_request_def)
  qed
  also have "\<dots> \<longleftrightarrow> (\<exists>r \<in> set (filter rtIdempotent gateway_routes). ?P r)" by auto
  also have "\<dots> \<longleftrightarrow> rqMethod req = ''POST'' \<and> rqPath req \<in> {[''api'', ''v1'', ''orders''], [''api'', ''v1'', ''orders'', ''batch'']}"
    unfolding idempotent_routes by (simp add: order_paths) (auto simp: orders_route_def)
  finally show ?thesis .
qed

lemma limit_chain_cases:
  assumes "limit_chain allow lm h a req (l, sw) = (cs, l', sw')"
  shows "h req sw = (cs, sw') \<or> lm \<noteq> NoLimit \<and> cs = [WriteHeader 429, Write ''rate limit exceeded''] \<and> sw' = sw"
  using assms by (auto simp: limit_chain_def RateLimitMiddleware_def Let_def split: if_splits prod.splits)

definition rejected :: response where
  "rejected = client_response [WriteHeader 429, Write ''rate limit exceeded'']"

lemma rejected_status: "fst rejected = 429"
  by (simp add: rejected_def client_response_def blw_run_def blw_call_def Let_def)

definition reply_of :: "response \<Rightarrow> response" where
  "reply_of r = (if fst r = 0 then 200 else fst r, snd r)"

lemma client_response_reply: "client_response [WriteHeader (fst r), Write (snd r)] = reply_of r"
  by (cases r) (simp add: client_response_def blw_run_def blw_call_def Let_def reply_of_def)

context idempotency_store
begin

abbreviation gw where "gw cors allow roundtrip page \<equiv> gateway_serve cors allow get set_entry roundtrip page"

text \<open>What a request does to the store: nothing, unless it places an order.\<close>

lemma gw_other:
  assumes "idempotent_request req \<Longrightarrow> rqKey req \<noteq> key"
    and "gw cors allow roundtrip page req a (l, st, w) = (r, l', st', w')"
  shows "get key x st' = get key x st \<and> (available st \<longrightarrow> available st')"
proof (cases "cors req")
  case None
  let ?rt = "find_route (rqMethod req) (rqPath req)"
  let ?h = "route_handler roundtrip page (rtTarget ?rt)"
  obtain cs where c: "limit_chain allow (rtLimit ?rt) (idempotent_chain get set_entry (rtIdempotent ?rt) ?h a) a req (l, st, w)
      = (cs, l', st', w')"
    using assms(2) None by (auto simp: gateway_serve_def Let_def split: prod.splits)
  from limit_chain_cases [OF c] show ?thesis
  proof
    assume i: "idempotent_chain get set_entry (rtIdempotent ?rt) ?h a req (st, w) = (cs, st', w')"
    show ?thesis
    proof (cases "rtIdempotent ?rt")
      case True
      with i obtain resp where m: "mw (24 * 3600) ?h (rqKey req) req (aGet a) (aSet a) (st, w) = (resp, st', w')"
        by (auto simp: idempotent_chain_def Let_def split: prod.splits)
      have "rqKey req \<noteq> key" using assms(1) True by (simp add: idempotent_request_def)
      then show ?thesis by (rule other_keys [OF _ m])
    qed (use i in \<open>auto simp: idempotent_chain_def Let_def split: prod.splits\<close>)
  qed simp
qed (use assms(2) in \<open>simp add: gateway_serve_def\<close>)

lemma gw_others:
  "(\<And>req a. (req, a) \<in> set rs \<Longrightarrow> idempotent_request req \<Longrightarrow> rqKey req \<noteq> key) \<Longrightarrow>
   gateway_run (gw cors allow roundtrip page) rs (l, st, w) = (l', st', w') \<Longrightarrow>
   get key x st' = get key x st"
proof (induction rs arbitrary: l st w)
  case (Cons r rs)
  obtain req a where r: "r = (req, a)" by (cases r)
  obtain y l1 st1 w1 where g: "gw cors allow roundtrip page req a (l, st, w) = (y, l1, st1, w1)"
    by (cases "gw cors allow roundtrip page req a (l, st, w)")
  have "gateway_run (gw cors allow roundtrip page) rs (l1, st1, w1) = (l', st', w')"
    using Cons.prems(2) r g by simp
  with Cons.IH Cons.prems(1) have "get key x st' = get key x st1" by (meson list.set_intros(2))
  moreover have "idempotent_request req \<Longrightarrow> rqKey req \<noteq> key" using Cons.prems(1) [of req a] r by simp
  ultimately show ?case using gw_other [OF _ g] by simp
qed simp

lemma gw_replay:
  assumes "idempotent_request req" "idempotent_request req2" and key: "rqKey req \<noteq> ''''" "rqKey req2 = rqKey req"
    and "available st" and "get (rqKey req) (aGet a) st = None"
    and valid: "\<And>u req w cs w'. roundtrip u req w = (Some cs, w') \<Longrightarrow> valid_writes cs"
    and "cors req = None" "cors req2 = None"
    and first: "gw cors allow roundtrip page req a (l, st, w) = (r, l1, st1, w1)" "fst r < 400" "snd r \<noteq> ''''"
    and others: "\<And>q x. (q, x) \<in> set rs \<Longrightarrow> idempotent_request q \<Longrightarrow> rqKey q \<noteq> rqKey req"
    and between: "gateway_run (gw cors allow roundtrip page) rs (l1, st1, w1) = (l2, st2, w2)"
    and "aGet a2 \<le> aSet a + 24 * 3600"
    and second: "gw cors allow roundtrip page req2 a2 (l2, st2, w2) = (r2, l3, st3, w3)"
  shows "st3 = st2 \<and> w3 = w2 \<and> (r2 = r \<or> fst r2 = 429)"
proof -
  define h where "h q = route_handler roundtrip page (rtTarget (find_route (rqMethod q) (rqPath q)))" for q :: gw_request
  have idem: "rtIdempotent (find_route (rqMethod q) (rqPath q))" if "q = req \<or> q = req2" for q
    using that assms(1,2) by (auto simp: idempotent_request_def)
  have serve: "(\<exists>r0. mw (24 * 3600) (h q) (rqKey q) q (aGet x) (aSet x) (st', w') = (r0, st'', w'') \<and> y = reply_of r0) \<or>
      y = rejected \<and> st'' = st' \<and> w'' = w'"
    if q: "q = req \<or> q = req2" and g: "gw cors allow roundtrip page q x (l', st', w') = (y, l'', st'', w'')" for q x l' st' w' y l'' st'' w''
  proof -
    let ?rt = "find_route (rqMethod q) (rqPath q)"
    have "cors q = None" using q assms(8,9) by auto
    then obtain cs where c: "limit_chain allow (rtLimit ?rt) (idempotent_chain get set_entry (rtIdempotent ?rt) (h q) x) x q (l', st', w')
        = (cs, l'', st'', w'')" "y = client_response cs"
      using g by (auto simp: gateway_serve_def h_def Let_def split: prod.splits)
    from limit_chain_cases [OF c(1)] c(2) idem [OF q] show ?thesis
      by (auto simp: rejected_def idempotent_chain_def client_response_reply [symmetric] Let_def split: prod.splits)
  qed
  from serve [OF _ first(1)] first(2) rejected_status obtain r0 where
    m: "mw (24 * 3600) (h req) (rqKey req) req (aGet a) (aSet a) (st, w) = (r0, st1, w1)" and r: "r = reply_of r0" by auto
  have vw: "valid_writes (fst (h req req w))"
    using valid by (auto simp: h_def route_handler_def newReverseProxy_def valid_writes_def Let_def
        split: target.splits option.splits prod.splits)
  have "snd r0 \<noteq> ''''" "fst r0 < 400" using r first(2,3) by (auto simp: reply_of_def split: if_splits)
  then obtain e where e: "get (rqKey req) (aGet a2) st1 = Some e" "r0 = (ieStatusCode e, ieBody e)"
    using stored [OF key(1) assms(5,6) vw m _ _ assms(15)] by blast
  have "get (rqKey req) (aGet a2) st2 = Some e" using gw_others [OF others between] e(1) by simp
  from hit [OF key(1) this] key(2) e(2)
  have "mw (24 * 3600) (h req2) (rqKey req2) req2 (aGet a2) (aSet a2) (st2, w2) = (r0, st2, w2)" by simp
  with serve [OF _ second] r show ?thesis by (auto simp: rejected_status)
qed

end


text \<open>An order service that counts what it receives.\<close>

definition demo_roundtrip :: "upstream \<Rightarrow> gw_request \<Rightarrow> nat \<Rightarrow> writer_call list option \<times> nat" where
  "demo_roundtrip u req n = (Some [WriteHeader 202, Write (rqBody req)], Suc n)"

definition demo_post :: gw_request where
  "demo_post = \<lparr>rqMethod = ''POST'', rqPath = [''api'', ''v1'', ''orders''], rqIP = ''10.0.0.1'', rqKey = ''k1'', rqBody = ''buy'',
     rqHost = ''gw'', rqTLS = False, rqForwardedHost = '''', rqForwardedProto = ''''\<rparr>"

definition demo_at :: "seconds \<Rightarrow> arrival" where
  "demo_at t = \<lparr>aUp = True, aNow = t, aSrv = t, aGet = t, aSet = t\<rparr>"

definition demo_serve :: "gw_request \<Rightarrow> seconds \<Rightarrow> redis_numbers \<times> redis_server \<times> nat \<Rightarrow> response \<times> redis_numbers \<times> redis_server \<times> nat" where
  "demo_serve req t = gateway_serve (\<lambda>_. None) (redis_limiters '''' '''') redis_Get redis_Set demo_roundtrip ''metrics'' req (demo_at t)"

lemma demo_first:
  "fst (demo_serve demo_post 0 ([], \<lparr>rdUp = True, rdEntries = []\<rparr>, 0)) = (202, ''buy'') \<and>
   snd (snd (snd (demo_serve demo_post 0 ([], \<lparr>rdUp = True, rdEntries = []\<rparr>, 0)))) = 1"
  by code_simp


section \<open>Both limiters share their buckets\<close>

text \<open>
  The keys name the client only: a client whom the limiter of the public routes has just refused is refused
  by the limiter of the private routes too, whose budget is its own without Redis.
\<close>

lemma shared_bucket:
  assumes "redis_limiters env_public env_private PublicLimit req a st = (False, st')"
  shows "fst (redis_limiters env_public env_private PrivateLimit req a st') = False"
proof -
  define r where "r = NewRedisRateLimiter (rate_limit_from 200 env_public) 1"
  define r' where "r' = NewRedisRateLimiter (rate_limit_from 100 env_private) 1"
  have "0 < (if f < 10 then 10 else f)" for f :: rat by simp
  then have ttl: "0 < bucket_ttl x y" for x y unfolding bucket_ttl_def Let_def .
  have a: "redis_Allow r (rqIP req) (aUp a) (aNow a) (aSrv a) st = (False, st')"
    using assms by (simp add: redis_limiters_def r_def)
  then have "aUp a" by (simp add: redis_Allow_def split: if_splits)
  let ?f = "filled (rlRate r) (rlCapacity r) (tokens_key (rqIP req)) (timestamp_key (rqIP req)) (aNow a) (aSrv a) st"
  have f: "?f < 1" and st: "st' = redis_setex (aSrv a) (timestamp_key (rqIP req)) (bucket_ttl (rlRate r) (rlCapacity r)) (aNow a)
      (redis_setex (aSrv a) (tokens_key (rqIP req)) (bucket_ttl (rlRate r) (rlCapacity r)) ?f st)"
    using a \<open>aUp a\<close> by (auto simp: redis_Allow_def rateLimitScript_def Let_def split: if_splits)
  have "redis_get (aSrv a) (tokens_key (rqIP req)) st' = Some ?f" "redis_get (aSrv a) (timestamp_key (rqIP req)) st' = Some (aNow a)"
    using keys_differ [of "rqIP req"] ttl by (auto simp: st redis_get_def redis_setex_def map_of_alist_upd)
  with f have "filled (rlRate r') (rlCapacity r') (tokens_key (rqIP req)) (timestamp_key (rqIP req)) (aNow a) (aSrv a) st' < 1"
    by (simp add: filled_def Let_def min_def)
  with \<open>aUp a\<close> show ?thesis
    by (simp add: redis_limiters_def r'_def [symmetric] redis_Allow_def rateLimitScript_def Let_def)
qed

lemma memory_buckets_apart:
  "fst (memory_limiters NewLimiter al env_public env_private PrivateLimit req a
          (snd (memory_limiters NewLimiter al env_public env_private PublicLimit req a (pub, priv)))) =
   fst (memory_limiters NewLimiter al env_public env_private PrivateLimit req a (pub, priv))"
  by (simp add: memory_limiters_def Let_def split: prod.split)

text \<open>Without Redis the public limiter refills at another rate than with it.\<close>

lemma memory_public_refill:
  "fst (memory_limiters NewLimiter al '''' '''' PublicLimit req a (\<lparr>limiters = [], accessed = []\<rparr>, priv)) =
     fst (al (aNow a) (NewLimiter 5 200)) \<and>
   rlRate (NewRedisRateLimiter (rate_limit_from 200 '''') 1) = 200"
  by (simp add: memory_limiters_def memory_Allow_def rate_limit_from_def NewRedisRateLimiter_def Let_def split: prod.split)

text \<open>A path without a route is forwarded to the order service without any limit.\<close>

lemma unmatched_forwarded:
  "find_route m path = no_route \<Longrightarrow> cors req = None \<Longrightarrow> rqMethod req = m \<Longrightarrow> rqPath req = path \<Longrightarrow>
     gateway_serve cors allow lookup insert_entry roundtrip page req a (l, st, w) =
       (let (cs, w') = newReverseProxy roundtrip OrderService req w in (client_response cs, l, st, w'))"
  by (simp add: gateway_serve_def no_route_def open_route_def limit_chain_def idempotent_chain_def route_handler_def Let_def
      split: prod.split)

end
