(* ===== verification/Services.thy ===== *)
theory Services
  imports Gateway Consumer
begin

text \<open>
  How the services start and stop: src/internal/infrastructure/db/config.go, db/postgres.go, kafka/config.go,
  kafka/producer.go, redis/client.go and the \<open>main\<close> functions under src/cmd: what they read from the environment,
  what they subscribe to and how long their shutdown waits. A variable that is not set
  reads as the empty string; a fatal log ends the process, which is \<open>None\<close> here. What \<open>pgxpool\<close> and \<open>go-redis\<close>
  parse from a URL is an argument. Durations are in milliseconds.
\<close>

section \<open>PostgreSQL\<close>

record DBConfig =
  dbURL :: string
  MaxOpenConns :: int
  MinOpenConns :: int
  MaxIdleTime :: int
  MaxLifeTime :: int

definition DefaultDBConfig :: "string \<Rightarrow> DBConfig" where
  "DefaultDBConfig url =
     \<lparr>dbURL = url, MaxOpenConns = 50, MinOpenConns = 5, MaxIdleTime = 5 * 60 * 1000, MaxLifeTime = 60 * 60 * 1000\<rparr>"

record pool_config =
  plMaxConns :: int
  plMinConns :: int
  plMaxConnIdleTime :: int
  plMaxConnLifetime :: int

definition int32 :: "int \<Rightarrow> int" where
  "int32 n = (n + 2 ^ 31) mod 2 ^ 32 - 2 ^ 31"

definition NewPostgresPool :: "(string \<Rightarrow> error + pool_config) \<Rightarrow> DBConfig \<Rightarrow> error + pool_config" where
  "NewPostgresPool ParseConfig cfg =
     (if dbURL cfg = '''' then Inl (ErrMsg ''database URL is not set'')
      else case ParseConfig (dbURL cfg) of
        Inl e \<Rightarrow> Inl (ErrWrap ''parse database configuration'' e)
      | Inr p0 \<Rightarrow>
          (let p1 = (if MaxOpenConns cfg > 0 then p0\<lparr>plMaxConns := int32 (MaxOpenConns cfg)\<rparr> else p0);
               p2 = (if MaxIdleTime cfg > 0 then p1\<lparr>plMaxConnIdleTime := MaxIdleTime cfg\<rparr> else p1);
               p3 = (if MaxLifeTime cfg > 0 then p2\<lparr>plMaxConnLifetime := MaxLifeTime cfg\<rparr> else p2)
           in Inr p3))"

text \<open>The connections a configuration asks to keep open are never asked of the pool.\<close>

lemma min_conns_ignored:
  "NewPostgresPool parse (cfg\<lparr>MinOpenConns := n\<rparr>) = NewPostgresPool parse cfg"
  "NewPostgresPool parse cfg = Inr p \<Longrightarrow> \<exists>p0. parse (dbURL cfg) = Inr p0 \<and> plMinConns p = plMinConns p0"
  by (auto simp: NewPostgresPool_def Let_def split: sum.splits if_splits)

section \<open>Kafka\<close>

record kafka_Config =
  Brokers :: "string list"
  ConnectTimeout :: int
  PublishTimeout :: int
  AllowAutoTopicCreation :: bool
  cfResetOffset :: string

definition kafka_DefaultConfig :: kafka_Config where
  "kafka_DefaultConfig =
     \<lparr>Brokers = [''localhost:9092''], ConnectTimeout = 5000, PublishTimeout = 2000, AllowAutoTopicCreation = True,
      cfResetOffset = ''latest''\<rparr>"

text \<open>\<open>strings.ToLower\<close> on ASCII.\<close>

definition to_lower_char :: "char \<Rightarrow> char" where
  "to_lower_char c = (if 65 \<le> (of_char c :: nat) \<and> of_char c \<le> (90 :: nat) then char_of ((of_char c :: nat) + 32) else c)"

definition kafka_from_env :: "(string \<Rightarrow> string) \<Rightarrow> kafka_Config" where
  "kafka_from_env env =
     (let c0 = kafka_DefaultConfig;
          c1 = (if env ''KAFKA_BROKERS'' \<noteq> '''' then c0\<lparr>Brokers := split_on (CHR '','') (env ''KAFKA_BROKERS'')\<rparr> else c0)
      in if env ''KAFKA_RESET_OFFSET'' \<noteq> ''''
         then c1\<lparr>cfResetOffset := map to_lower_char (env ''KAFKA_RESET_OFFSET'')\<rparr> else c1)"

section \<open>Redis\<close>

record redis_Config =
  Addr :: string
  Password :: string
  DB :: int
  PoolSize :: int
  MinIdleConns :: int
  ReadTimeout :: int
  WriteTimeout :: int

definition redis_DefaultConfig :: redis_Config where
  "redis_DefaultConfig =
     \<lparr>Addr = ''localhost:6379'', Password = '''', DB = 0, PoolSize = 100, MinIdleConns = 20, ReadTimeout = 3000, WriteTimeout = 3000\<rparr>"

definition HasPrefix :: "string \<Rightarrow> string \<Rightarrow> bool" where
  "HasPrefix s p \<longleftrightarrow> take (length p) s = p"

text \<open>The options \<open>NewClient\<close> connects with; \<open>ping\<close> is the answer of the server behind them.\<close>

definition redis_options :: "(string \<Rightarrow> error + redis_Config) \<Rightarrow> redis_Config \<Rightarrow> error + redis_Config" where
  "redis_options ParseURL cfg =
     (if HasPrefix (Addr cfg) ''redis://'' \<or> HasPrefix (Addr cfg) ''rediss://''
      then (case ParseURL (Addr cfg) of
              Inl e \<Rightarrow> Inl e
            | Inr opt \<Rightarrow> Inr (opt\<lparr>PoolSize := PoolSize cfg, MinIdleConns := MinIdleConns cfg, ReadTimeout := ReadTimeout cfg,
                                 WriteTimeout := WriteTimeout cfg\<rparr>))
      else Inr cfg)"

definition redis_NewClient ::
  "(string \<Rightarrow> error + redis_Config) \<Rightarrow> (redis_Config \<Rightarrow> error option) \<Rightarrow> redis_Config \<Rightarrow> error + redis_Config" where
  "redis_NewClient ParseURL ping cfg =
     (case redis_options ParseURL cfg of
        Inl e \<Rightarrow> Inl e
      | Inr opt \<Rightarrow> (case ping opt of Some e \<Rightarrow> Inl e | None \<Rightarrow> Inr opt))"

definition redis_from_env :: "(string \<Rightarrow> string) \<Rightarrow> redis_Config" where
  "redis_from_env env =
     (if env ''REDIS_URL'' \<noteq> '''' then redis_DefaultConfig\<lparr>Addr := env ''REDIS_URL''\<rparr> else redis_DefaultConfig)"

lemma redis_plain_address:
  "\<not> HasPrefix (Addr cfg) ''redis://'' \<Longrightarrow> \<not> HasPrefix (Addr cfg) ''rediss://'' \<Longrightarrow> ping cfg = None \<Longrightarrow>
     redis_NewClient ParseURL ping cfg = Inr cfg"
  by (simp add: redis_NewClient_def redis_options_def)

section \<open>The services\<close>

record service =
  svDB :: "DBConfig option"
  svRedis :: "redis_Config option"
  svKafka :: "kafka_Config option"
  svPort :: string

definition client_of :: "error + redis_Config \<Rightarrow> redis_Config option" where
  "client_of r = (case r of Inl e \<Rightarrow> None | Inr opt \<Rightarrow> Some opt)"

text \<open>
  \<open>reach\<close> tells which of the servers can be reached; \<open>redis\<close> is \<open>redis_NewClient\<close> there. A service without its
  database or its Kafka client does not start, one without Redis runs without it.
\<close>

record reach =
  rcPool :: "DBConfig \<Rightarrow> bool"
  rcKafka :: "kafka_Config \<Rightarrow> bool"
  rcRedis :: "redis_Config \<Rightarrow> error + redis_Config"

definition order_service :: "(string \<Rightarrow> string) \<Rightarrow> reach \<Rightarrow> service option" where
  "order_service env w =
     (let url = env ''DATABASE_URL'' in
      if url = '''' then None
      else (let dbCfg = (DefaultDBConfig url)\<lparr>MaxOpenConns := 150, MaxIdleTime := 5 * 60 * 1000\<rparr> in
        if \<not> rcPool w dbCfg then None
        else (let redisClient = client_of (rcRedis w (redis_from_env env));
                  k0 = kafka_from_env env;
                  kafkaCfg = (if env ''GIN_MODE'' = ''release'' then k0\<lparr>AllowAutoTopicCreation := False\<rparr> else k0)
              in if \<not> rcKafka w kafkaCfg then None
                 else Some \<lparr>svDB = Some dbCfg, svRedis = redisClient, svKafka = Some kafkaCfg,
                            svPort = env_or ''8103'' (env ''ORDER_SERVICE_PORT'')\<rparr>)))"

definition matching_engine :: "(string \<Rightarrow> string) \<Rightarrow> reach \<Rightarrow> service option" where
  "matching_engine env w =
     (let url = env ''DATABASE_URL'' in
      if url = '''' then None
      else (let dbCfg = (DefaultDBConfig url)\<lparr>MaxOpenConns := 20\<rparr> in
        if \<not> rcPool w dbCfg then None
        else (let redisClient = client_of (rcRedis w (redis_from_env env));
                  k0 = kafka_from_env env;
                  kafkaCfg = (if env ''KAFKA_ALLOW_AUTO_CREATE'' = ''false'' then k0\<lparr>AllowAutoTopicCreation := False\<rparr>
                              else if env ''KAFKA_ALLOW_AUTO_CREATE'' = ''true'' then k0\<lparr>AllowAutoTopicCreation := True\<rparr>
                              else k0)
              in if \<not> rcKafka w kafkaCfg then None
                 else Some \<lparr>svDB = Some dbCfg, svRedis = redisClient, svKafka = Some kafkaCfg,
                            svPort = env_or ''8101'' (env ''MATCHING_ENGINE_PORT'')\<rparr>)))"

definition market_data_service :: "(string \<Rightarrow> string) \<Rightarrow> reach \<Rightarrow> service option" where
  "market_data_service env w =
     (let kafkaCfg = kafka_from_env env;
          url = env ''DATABASE_URL''
      in if url = '''' then None
         else (let dbCfg = (DefaultDBConfig url)\<lparr>MaxOpenConns := 50\<rparr> in
           if \<not> rcPool w dbCfg then None
           else (let redisClient = client_of (rcRedis w (redis_from_env env))
                 in if \<not> rcKafka w kafkaCfg then None
                    else Some \<lparr>svDB = Some dbCfg, svRedis = redisClient, svKafka = Some kafkaCfg,
                               svPort = env_or ''8102'' (env ''MARKET_DATA_PORT'')\<rparr>)))"

definition simulation_service :: "(string \<Rightarrow> string) \<Rightarrow> string \<times> service" where
  "simulation_service env =
     (env_or ''http://localhost:8100'' (env ''GATEWAY_URL''),
      \<lparr>svDB = None, svRedis = None, svKafka = None, svPort = env_or ''8104'' (env ''SIMULATION_SERVICE_PORT'')\<rparr>)"

text \<open>
  A service that started has a database and Kafka, agrees with the others on brokers and offsets, and the
  consumers' start offset is the end of the log unless the environment says \<open>earliest\<close>.
\<close>

lemma services_started:
  assumes "f \<in> {order_service, matching_engine, market_data_service}" and "f env w = Some sv"
  shows "\<exists>db k. svDB sv = Some db \<and> rcPool w db \<and> dbURL db = env ''DATABASE_URL'' \<and> env ''DATABASE_URL'' \<noteq> '''' \<and>
    svKafka sv = Some k \<and> rcKafka w k \<and> Brokers k = Brokers (kafka_from_env env) \<and>
    cfResetOffset k = cfResetOffset (kafka_from_env env) \<and> svRedis sv = client_of (rcRedis w (redis_from_env env)) \<and> svPort sv \<noteq> ''''"
  using assms
  by (auto simp: order_service_def matching_engine_def market_data_service_def DefaultDBConfig_def env_or_def Let_def
      split: if_splits)

lemma start_offset:
  "reset_offset (cfResetOffset (kafka_from_env env)) =
     (if map to_lower_char (env ''KAFKA_RESET_OFFSET'') = ''earliest'' then AtStart else AtEnd)"
  by (auto simp: kafka_from_env_def kafka_DefaultConfig_def reset_offset_def Let_def)

section \<open>The Kafka producer's client\<close>

record Producer =
  prBrokers :: "string list"
  prAutoCreate :: bool
  prPublishTimeout :: int

text \<open>\<open>client\<close> is the error of \<open>kgo.NewClient\<close>, \<open>ping\<close> that of the brokers.\<close>

definition NewProducer :: "(kafka_Config \<Rightarrow> error option) \<Rightarrow> (kafka_Config \<Rightarrow> error option) \<Rightarrow> kafka_Config \<Rightarrow> error + Producer" where
  "NewProducer client ping cfg =
     (case client cfg of
        Some e \<Rightarrow> Inl (ErrWrap ''create kafka producer'' e)
      | None \<Rightarrow>
          (case ping cfg of
             Some e \<Rightarrow> Inl (ErrWrap ''kafka broker connection'' e)
           | None \<Rightarrow> Inr \<lparr>prBrokers = Brokers cfg, prAutoCreate = AllowAutoTopicCreation cfg,
                           prPublishTimeout = PublishTimeout cfg\<rparr>))"

record topic_request =
  tqTopic :: string
  tqNumPartitions :: int
  tqReplicationFactor :: int

text \<open>
  \<open>request\<close> is the brokers' answer: an error code per topic, 36 being \<open>TOPIC_ALREADY_EXISTS\<close>. The result is the
  error returned and the topics that are only warned about.
\<close>

definition CreateTopics :: "(topic_request list \<Rightarrow> error + (string \<times> int) list) \<Rightarrow> string list \<Rightarrow> error option \<times> string list" where
  "CreateTopics request topics =
     (case request (map (\<lambda>topic. \<lparr>tqTopic = topic, tqNumPartitions = 1, tqReplicationFactor = 1\<rparr>) topics) of
        Inl e \<Rightarrow> (Some (ErrWrap ''CreateTopics request'' e), [])
      | Inr resp \<Rightarrow> (None, map fst (filter (\<lambda>(topic, code). code \<noteq> 0 \<and> code \<noteq> 36) resp)))"

text \<open>Only a failed request is an error; a topic that could not be created is not.\<close>

lemma CreateTopics_error:
  "fst (CreateTopics request topics) = None \<longleftrightarrow>
     (\<exists>resp. request (map (\<lambda>topic. \<lparr>tqTopic = topic, tqNumPartitions = 1, tqReplicationFactor = 1\<rparr>) topics) = Inr resp)"
  by (auto simp: CreateTopics_def split: sum.split)

section \<open>Topics and their consumers\<close>

text \<open>The consumer groups the processes start, with what they subscribe to.\<close>

definition order_subscriptions :: "(string \<times> string list) list" where
  "order_subscriptions = [(''order-service'', [TopicSettlements])]"

definition matching_subscriptions :: "(string \<times> string list) list" where
  "matching_subscriptions = [(''matching-engine'', [TopicOrders])]"

definition market_subscriptions :: "(string \<times> string list) list" where
  "market_subscriptions =
     [(''market-data-orderbook'', [TopicOrderBook]), (''market-data-trades'', [TopicTrades]),
      (''market-data-order-updates'', [TopicOrderUpdates])]"

text \<open>What the leader creates before it consumes.\<close>

definition leader_topics :: "string list" where
  "leader_topics = [TopicOrders, TopicSettlements, TopicTrades, TopicOrderBook, TopicOrderUpdates]"

text \<open>Every topic is created and has exactly one consumer group, and no two consumers share a group.\<close>

lemma topics_wired:
  "let subs = order_subscriptions @ matching_subscriptions @ market_subscriptions in
     set (concat (map snd subs)) = set leader_topics \<and> distinct (concat (map snd subs)) \<and> distinct leader_topics \<and>
     distinct (map fst subs)"
  by code_simp

section \<open>Starting the consumers\<close>

text \<open>The options of the consumer's client; the program commits itself, so automatic commits are off.\<close>

record consumer_client =
  ccBrokers :: "string list"
  ccGroup :: string
  ccTopics :: "string list"
  ccAutoCommit :: bool
  ccReset :: offset

definition NewConsumer ::
  "(consumer_client \<Rightarrow> error option) \<Rightarrow> kafka_Config \<Rightarrow> string \<Rightarrow> string list \<Rightarrow> error + consumer_client" where
  "NewConsumer NewClient cfg groupID topics =
     (let c = \<lparr>ccBrokers = Brokers cfg, ccGroup = groupID, ccTopics = topics, ccAutoCommit = False,
               ccReset = reset_offset (cfResetOffset cfg)\<rparr>
      in case NewClient c of Some err \<Rightarrow> Inl err | None \<Rightarrow> Inr c)"

text \<open>A process starts its consumers one after the other; the first that cannot be created is fatal.\<close>

fun start_consumers ::
  "(consumer_client \<Rightarrow> error option) \<Rightarrow> kafka_Config \<Rightarrow> (string \<times> string list) list \<Rightarrow> consumer_client list option" where
  "start_consumers NewClient cfg [] = Some []"
| "start_consumers NewClient cfg ((groupID, topics) # subs) =
     (case NewConsumer NewClient cfg groupID topics of
        Inl err \<Rightarrow> None
      | Inr c \<Rightarrow> map_option ((#) c) (start_consumers NewClient cfg subs))"

lemma consumers_started:
  assumes "start_consumers NewClient cfg subs = Some cs"
  shows "map (\<lambda>c. (ccGroup c, ccTopics c)) cs = subs \<and>
    (\<forall>c \<in> set cs. \<not> ccAutoCommit c \<and> ccBrokers c = Brokers cfg \<and> ccReset c = reset_offset (cfResetOffset cfg))"
  using assms
proof (induction subs arbitrary: cs)
  case (Cons sub subs)
  obtain g ts where s: "sub = (g, ts)" by (cases sub)
  from Cons.prems obtain c cs' where
    c: "NewConsumer NewClient cfg g ts = Inr c" "start_consumers NewClient cfg subs = Some cs'" "cs = c # cs'"
    unfolding s by (auto split: sum.splits)
  from c(1) have "ccGroup c = g \<and> ccTopics c = ts \<and> \<not> ccAutoCommit c \<and> ccBrokers c = Brokers cfg \<and>
      ccReset c = reset_offset (cfResetOffset cfg)"
    by (auto simp: NewConsumer_def Let_def split: option.splits)
  with Cons.IH [OF c(2)] show ?case unfolding c(3) s by simp
qed simp

section \<open>Shutting down\<close>

text \<open>
  \<open>finished\<close> tells for each consumer when its goroutine ends after the cancellation, if it does. The order service
  and the market data service give them ten seconds and go on; then the HTTP server gets five.
\<close>

fun wait_all :: "int option list \<Rightarrow> int option" where
  "wait_all [] = Some 0"
| "wait_all (None # ts) = None"
| "wait_all (Some t # ts) = map_option (max t) (wait_all ts)"

definition await_consumers :: "int option list \<Rightarrow> bool \<times> int" where
  "await_consumers finished =
     (case wait_all finished of
        Some t \<Rightarrow> if t \<le> 10000 then (True, t) else (False, 10000)
      | None \<Rightarrow> (False, 10000))"

definition graceful_shutdown :: "int option list \<Rightarrow> int option \<Rightarrow> int" where
  "graceful_shutdown finished server =
     snd (await_consumers finished) + (case server of Some t \<Rightarrow> min t 5000 | None \<Rightarrow> 5000)"

lemma wait_all_Some: "wait_all ts = Some t \<Longrightarrow> None \<notin> set ts \<and> 0 \<le> t \<and> (\<forall>x. Some x \<in> set ts \<longrightarrow> x \<le> t)"
  by (induction ts arbitrary: t rule: wait_all.induct) (fastforce simp: max_def split: if_splits)+

text \<open>
  Whatever the consumers and the connections do, these services end within fifteen seconds, and they report a
  complete stop only if every consumer has stopped. (The matching engine waits without a limit.)
\<close>

lemma shutdown_bounded:
  "graceful_shutdown finished server \<le> 15000 \<and>
   (fst (await_consumers finished) \<longrightarrow> (\<forall>t \<in> set finished. \<exists>x. t = Some x \<and> x \<le> 10000))"
proof -
  have "snd (await_consumers finished) \<le> 10000" by (simp add: await_consumers_def split: option.split)
  moreover have "(case server of Some t \<Rightarrow> min t 5000 | None \<Rightarrow> 5000) \<le> (5000 :: int)" by (simp split: option.split)
  moreover have "\<forall>t \<in> set finished. \<exists>x. t = Some x \<and> x \<le> 10000" if "fst (await_consumers finished)"
  proof
    fix t assume t: "t \<in> set finished"
    from that obtain m where m: "wait_all finished = Some m" "m \<le> 10000"
      by (auto simp: await_consumers_def split: option.splits if_splits)
    from wait_all_Some [OF m(1)] t obtain x where "t = Some x" "x \<le> m" by (cases t) auto
    with m(2) show "\<exists>x. t = Some x \<and> x \<le> 10000" by auto
  qed
  ultimately show ?thesis by (simp add: graceful_shutdown_def)
qed

end
