(* ===== verification/Processes.thy ===== *)
theory Processes
  imports Services Api Simulation Election
begin

text \<open>
  The HTTP servers of the processes: the routes, the health pages and the wiring of the handlers in the
  \<open>main\<close> functions under src/cmd and in src/internal/api/handlers.go, and the shutdown of the simulation service.
  Shown: whatever the gateway forwards is served behind it, nothing that falls through its route table reaches a
  route of the order service, and which handlers are mounted without the service they call.
\<close>

section \<open>The handlers and their services\<close>

text \<open>Which of the two services a handler was given; the other is a nil interface.\<close>

record Handler =
  hdOrderSvc :: bool
  hdQuerySvc :: bool

definition NewHandler :: "bool \<Rightarrow> bool \<Rightarrow> Handler" where
  "NewHandler orderSvc querySvc = \<lparr>hdOrderSvc = orderSvc, hdQuerySvc = querySvc\<rparr>"

text \<open>The handlers of these routes call the query service, the others the order service; a nil one panics.\<close>

definition calls_query :: "segment list \<Rightarrow> bool" where
  "calls_query path \<longleftrightarrow> path \<in> {[Lit ''orderbook''], [Lit ''klines''], [Lit ''trades'']}"

definition answers :: "Handler \<Rightarrow> segment list \<Rightarrow> bool" where
  "answers h path = (if calls_query path then hdQuerySvc h else hdOrderSvc h)"

definition order_service_handler :: Handler where
  "order_service_handler = NewHandler True False"

definition market_data_handler :: Handler where
  "market_data_handler = NewHandler False True"

text \<open>
  The market data service mounts only what it can answer. The order service mounts the three public queries
  as well, and exactly those panic.
\<close>

lemma mounted_handlers:
  "list_all (\<lambda>(m, path). answers market_data_handler path) market_data_routes"
  "filter (\<lambda>(m, path). \<not> answers order_service_handler path) RegisterRoutes = market_data_routes"
  by code_simp+

section \<open>The routes of the processes\<close>

definition mounted :: "(string \<times> segment list) list \<Rightarrow> (string \<times> segment list) list" where
  "mounted routes = map (\<lambda>(m, path). (m, api path)) routes"

text \<open>\<open>r.Static\<close> serves \<open>GET\<close> and \<open>HEAD\<close>.\<close>

definition order_service_http :: "(string \<times> segment list) list" where
  "order_service_http =
     [(''GET'', [Lit ''metrics''])] @ mounted RegisterRoutes @
     [(''GET'', [Lit ''health'']), (''GET'', [Lit ''docs'', Wildcard]), (''HEAD'', [Lit ''docs'', Wildcard]),
      (''GET'', [Lit ''swagger'', Wildcard])]"

definition market_data_http :: "(string \<times> segment list) list" where
  "market_data_http =
     [(''GET'', [Lit ''metrics'']), (''GET'', [Lit ''health'']), (''GET'', [Lit ''ws''])] @ mounted market_data_routes"

definition matching_engine_http :: "(string \<times> segment list) list" where
  "matching_engine_http = [(''GET'', [Lit ''metrics'']), (''GET'', [Lit ''health''])]"

definition simulation_http :: "(string \<times> segment list) list" where
  "simulation_http = [(''GET'', [Lit ''metrics'']), (''GET'', [Lit ''health''])] @ mounted simulation_routes"

definition upstream_http :: "upstream \<Rightarrow> (string \<times> segment list) list" where
  "upstream_http u = (case u of OrderService \<Rightarrow> order_service_http | MarketDataService \<Rightarrow> market_data_http
     | SimulationService \<Rightarrow> simulation_http)"

text \<open>Every route the gateway forwards, documents and the socket included, is served by the target for \<open>GET\<close> or its method.\<close>

lemma forwarded_targets_served:
  "list_all (\<lambda>r. case rtTarget r of
       Proxy u \<Rightarrow> list_ex (\<lambda>m. (m, rtPath r) \<in> set (upstream_http u)) (rtMethods r)
     | _ \<Rightarrow> True) gateway_routes"
  by code_simp

lemma order_routes_listed:
  "list_all (\<lambda>(m, p). list_ex (\<lambda>r. m \<in> set (rtMethods r) \<and> rtPath r = p) gateway_routes) order_service_http"
  by code_simp

text \<open>
  What matches no route of the gateway is forwarded to the order service without a limit: no such request
  matches a route there, so the limits and the idempotency cannot be evaded by it.
\<close>

lemma fallthrough_reaches_nothing:
  assumes "\<forall>r \<in> set gateway_routes. \<not> (m \<in> set (rtMethods r) \<and> match_path (rtPath r) path)"
    and "(m, p) \<in> set order_service_http"
  shows "\<not> match_path p path"
  using assms order_routes_listed by (fastforce simp: list_all_iff list_ex_iff)

section \<open>The health pages\<close>

definition order_service_health :: reply where
  "order_service_health = (200, JObj [(''status'', JStr ''ok''), (''service'', JStr ''order-service'')])"

definition market_data_health :: reply where
  "market_data_health = (200, JObj [(''status'', JStr ''ok''), (''service'', JStr ''market-data-service'')])"

definition matching_engine_health :: "Elector \<Rightarrow> reply" where
  "matching_engine_health e = (200, JObj [(''status'', JStr ''ok''), (''service'', JStr ''matching-engine''),
     (''is_leader'', JBool (IsLeader e)), (''instanceID'', JStr (elInstanceID e))])"

definition simulation_health :: "string \<Rightarrow> reply" where
  "simulation_health gatewayURL = (200, JObj [(''status'', JStr ''ok''), (''service'', JStr ''simulation-service''),
     (''gateway_url'', JStr gatewayURL)])"

definition gateway_health :: "string \<Rightarrow> string \<Rightarrow> reply" where
  "gateway_health orderTarget marketTarget = (200, JObj [(''status'', JStr ''ok''), (''service'', JStr ''gateway''),
     (''order_service'', JStr orderTarget), (''market_data_service'', JStr marketTarget)])"

section \<open>The simulation service stops\<close>

text \<open>The run is cancelled and not awaited; the server gets five seconds.\<close>

definition simulation_shutdown :: "simulator \<Rightarrow> int option \<Rightarrow> simulator \<times> int" where
  "simulation_shutdown s server = (snd (sim_Stop s), case server of Some t \<Rightarrow> min t 5000 | None \<Rightarrow> 5000)"

fun run_cancelled :: "run \<Rightarrow> bool" where
  "run_cancelled NoRun = True"
| "run_cancelled (Spawning cfg c) = c"
| "run_cancelled (Trading cfg c ws) = c"

lemma simulation_shutdown_cancels:
  assumes "goroutine s \<noteq> NoRun \<Longrightarrow> running s"
  shows "run_cancelled (goroutine (fst (simulation_shutdown s server))) \<and> snd (simulation_shutdown s server) \<le> 5000"
proof -
  have "run_cancelled (cancel_run g)" for g by (cases g) simp_all
  with assms show ?thesis
    by (cases "goroutine s") (auto simp: simulation_shutdown_def sim_Stop_def split: option.split)
qed

end
