(* ===== verification/System.thy ===== *)
theory System
  imports OrderService_Correct Settlement_Effects Election_Correct
begin

text \<open>
  The exchange as one system: the order service with its outbox and its settlement consumer
  (src/cmd/order-service/main.go) and any number of matching engine instances
  (src/cmd/matching-engine/main.go), behind one database, one Redis and one Kafka cluster. A step is one
  handler of one of the services, run on the shared tables and the shared log as the other steps left them.

  \<^item> Which request arrives, which record a consumer reads and how often it reads it, which instance ticks,
    starts or crashes, what the clocks read, which statements fail and which acknowledgements are lost: all
    of it is arbitrary, so a run of the system is any interleaving of the services under any failures.
  \<^item> A consumer of a topic may be handed any record of that topic that is on the log, in any order and any
    number of times; Kafka's promise is stronger.
  \<^item> The payload of a record is the event whose JSON was sent, so decoding it gives the event back.
\<close>

section \<open>Decoding\<close>

fun payload_type :: "event \<Rightarrow> error + string" where
  "payload_type (EvOrderPlaced e) = Inr (opEventType e)"
| "payload_type (EvOrderCancelRequested e) = Inr (crEventType e)"
| "payload_type (EvOrderCanceled e) = Inr (ocEventType e)"
| "payload_type (EvSettlementRequested e) = Inr (srEventType e)"
| "payload_type (EvTradeExecuted e) = Inr (teEventType e)"
| "payload_type (EvOrderBookUpdated e) = Inr (obuEventType e)"
| "payload_type (EvOrderUpdated e) = Inr (ouEventType e)"

definition as_placed :: "event \<Rightarrow> error + OrderPlacedEvent" where
  "as_placed e = (case e of EvOrderPlaced x \<Rightarrow> Inr x | _ \<Rightarrow> Inl (ErrMsg ''json: another event''))"

definition as_cancel_requested :: "event \<Rightarrow> error + OrderCancelRequestedEvent" where
  "as_cancel_requested e =
     (case e of EvOrderCancelRequested x \<Rightarrow> Inr x | _ \<Rightarrow> Inl (ErrMsg ''json: another event''))"

definition as_settlement :: "event \<Rightarrow> error + SettlementRequestedEvent" where
  "as_settlement e =
     (case e of EvSettlementRequested x \<Rightarrow> Inr x | _ \<Rightarrow> Inl (ErrMsg ''json: another event''))"

definition as_canceled :: "event \<Rightarrow> error + OrderCanceledEvent" where
  "as_canceled e = (case e of EvOrderCanceled x \<Rightarrow> Inr x | _ \<Rightarrow> Inl (ErrMsg ''json: another event''))"

section \<open>The two consumers\<close>

text \<open>
  The settlement consumer publishes one \<open>order.updated\<close> event for each order its transaction wrote, each
  once; a failure is only logged.
\<close>

definition publish_update :: "event \<Rightarrow> session \<Rightarrow> session" where
  "publish_update e s =
     (case e of
        EvOrderUpdated x \<Rightarrow> snd (Publish TopicOrderUpdates (ouSymbol x) e s)
      | _ \<Rightarrow> s)"

definition settlement_consumer ::
  "(uuid \<Rightarrow> string) \<Rightarrow> (decimal \<Rightarrow> decimal) \<Rightarrow> event \<Rightarrow> session \<Rightarrow> session" where
  "settlement_consumer ustr rnd value s =
     (case HandleEvents payload_type as_settlement as_canceled ustr rnd True value s of
        (Inl err, s1) \<Rightarrow> s1
      | (Inr updates, s1) \<Rightarrow> fold publish_update updates s1)"

definition matching_consumer ::
  "Subscriber \<Rightarrow> event \<Rightarrow> Matching \<Rightarrow> ((error + unit) \<times> Matching) option" where
  "matching_consumer = MatchingHandleEvents payload_type as_placed as_cancel_requested"

section \<open>The state\<close>

text \<open>
  \<open>exHot\<close> are the messages whose hot path goroutine has not run yet. \<open>exMinted\<close> is not part of the
  program: it adds up, per currency, what registrations and recharges have put into the accounts.
\<close>

record exchange =
  exSess :: session
  exStore :: redis
  exNodes :: nodes
  exHot :: "Message list"
  exBatcher :: Batcher
  exMinted :: "string \<Rightarrow> decimal"

abbreviation tables :: "exchange \<Rightarrow> DB" where "tables X \<equiv> db (exSess X)"
abbreviation broker :: "exchange \<Rightarrow> kafka_record list" where "broker X \<equiv> kafka (exSess X)"

definition no_batch :: Batcher where
  "no_batch = \<lparr>publishedMsgChan = [], batch = []\<rparr>"

definition new_exchange :: "session \<Rightarrow> redis \<Rightarrow> exchange" where
  "new_exchange s st = \<lparr>exSess = s, exStore = st, exNodes = (\<lambda>_. None), exHot = [], exBatcher = no_batch,
     exMinted = (\<lambda>_. 0)\<rparr>"

definition fresh_tables :: DB where
  "fresh_tables = \<lparr>users = [], accounts = [], orders = [], trades = [], outbox = [], locks = []\<rparr>"

text \<open>The messages a committed call hands to the hot path.\<close>

definition handed :: "Service \<Rightarrow> error + 'a \<times> Message list \<Rightarrow> Message list" where
  "handed svc r = (case r of Inl _ \<Rightarrow> [] | Inr (_, msgs) \<Rightarrow> hot_messages svc msgs)"

definition test_funds :: "(error + 'a) \<Rightarrow> string \<Rightarrow> decimal" where
  "test_funds r c =
     (case r of Inl _ \<Rightarrow> 0
      | Inr _ \<Rightarrow> sum_list (map (\<lambda>(code, amount). if c = code then amount else 0) test_currencies))"

text \<open>Recharging a user without accounts updates no row.\<close>

definition recharged :: "DB \<Rightarrow> uuid \<Rightarrow> (error + 'a) \<Rightarrow> string \<Rightarrow> decimal" where
  "recharged d userID r c =
     (case r of Inl _ \<Rightarrow> 0
      | Inr _ \<Rightarrow> (if c = ''BTC'' \<and> has_account userID c d then 10000 else 0) +
                 (if c = ''USD'' \<and> has_account userID c d then 100000000 else 0))"

section \<open>The steps\<close>

inductive exchange_step ::
  "(uuid \<Rightarrow> string) \<Rightarrow> (decimal \<Rightarrow> decimal) \<Rightarrow> bool \<Rightarrow> exchange \<Rightarrow> exchange \<Rightarrow> bool" for ustr rnd cached where
  weather: "db s' = tables X \<Longrightarrow> kafka s' = broker X \<Longrightarrow> \<not> in_tx s' \<Longrightarrow> \<not> aborted s' \<Longrightarrow>
    exchange_step ustr rnd cached X (X\<lparr>exSess := s'\<rparr>)"
| place: "PlaceOrder ustr rnd svc order (exSess X) = (r, s') \<Longrightarrow>
    exchange_step ustr rnd cached X (X\<lparr>exSess := s', exHot := exHot X @ handed svc r\<rparr>)"
| place_batch: "BatchPlaceOrders ustr rnd svc os (exSess X) = (r, s') \<Longrightarrow>
    exchange_step ustr rnd cached X (X\<lparr>exSess := s', exHot := exHot X @ handed svc r\<rparr>)"
| cancel: "CancelOrder ustr svc orderID userID (exSess X) = (r, s') \<Longrightarrow>
    exchange_step ustr rnd cached X
      (X\<lparr>exSess := s', exHot := exHot X @ handed svc (map_sum id (Pair ()) r)\<rparr>)"
| register: "RegisterAnonymousUser ustr (exSess X) = (r, s') \<Longrightarrow>
    exchange_step ustr rnd cached X (X\<lparr>exSess := s', exMinted := (\<lambda>c. exMinted X c + test_funds r c)\<rparr>)"
| recharge: "RechargeTestUser userID (exSess X) = (r, s') \<Longrightarrow>
    exchange_step ustr rnd cached X
      (X\<lparr>exSess := s', exMinted := (\<lambda>c. exMinted X c + recharged (tables X) userID r c)\<rparr>)"
| hot: "msg \<in> set (exHot X) \<Longrightarrow> hot_path msg (exBatcher X, exSess X) = (b', s') \<Longrightarrow>
    exchange_step ustr rnd cached X (X\<lparr>exSess := s', exHot := remove1 msg (exHot X), exBatcher := b'\<rparr>)"
| receive: "worker_receive (exBatcher X, exSess X) = (b', s') \<Longrightarrow>
    exchange_step ustr rnd cached X (X\<lparr>exSess := s', exBatcher := b'\<rparr>)"
| flush: "worker_tick (exBatcher X, exSess X) = (b', s') \<Longrightarrow>
    exchange_step ustr rnd cached X (X\<lparr>exSess := s', exBatcher := b'\<rparr>)"
| work: "exchange_step ustr rnd cached X (X\<lparr>exSess := process w (exSess X)\<rparr>)"
| settle: "(TopicSettlements, key, value) \<in> set (broker X) \<Longrightarrow>
    exchange_step ustr rnd cached X (X\<lparr>exSess := settlement_consumer ustr rnd value (exSess X)\<rparr>)"
| order_service_crash: "exchange_step ustr rnd cached X (X\<lparr>exHot := [], exBatcher := no_batch\<rparr>)"
| join: "exNodes X i = None \<Longrightarrow>
    exchange_step ustr rnd cached X (X\<lparr>exNodes := (exNodes X)(i \<mapsto> (NewElector global_lock i, new_instance))\<rparr>)"
| elect: "exNodes X i = Some (e, a) \<Longrightarrow>
    tick (onBecomeLeader cached) onLoseLeadership (e, (a, exStore X), exSess X) = (e', (a', st'), s') \<Longrightarrow>
    exchange_step ustr rnd cached X
      (X\<lparr>exSess := s', exStore := st', exNodes := (exNodes X)(i \<mapsto> (e', a'))\<rparr>)"
| stop: "exNodes X i = Some (e, a) \<Longrightarrow> shutdown (e, a, exSess X) = ((e', a', s'), returns) \<Longrightarrow>
    exchange_step ustr rnd cached X (X\<lparr>exSess := s', exNodes := (exNodes X)(i \<mapsto> (e', a'))\<rparr>)"
| crash: "exchange_step ustr rnd cached X (X\<lparr>exNodes := (exNodes X)(i := None)\<rparr>)"
| consume: "exNodes X i = Some (e, a) \<Longrightarrow> (TopicOrders, key, value) \<in> set (broker X) \<Longrightarrow>
    matching_consumer sub value \<lparr>engineManager = inEngines a, store = exStore X, sess = exSess X\<rparr> = Some (r, m') \<Longrightarrow>
    exchange_step ustr rnd cached X (X\<lparr>exSess := sess m', exStore := store m',
      exNodes := (exNodes X)(i \<mapsto> (e, a\<lparr>inEngines := engineManager m'\<rparr>))\<rparr>)"

text \<open>Every state the exchange can reach from empty tables, an empty log and no instances.\<close>

inductive exchange_reachable ::
  "(uuid \<Rightarrow> string) \<Rightarrow> (decimal \<Rightarrow> decimal) \<Rightarrow> bool \<Rightarrow> exchange \<Rightarrow> bool" for ustr rnd cached where
  boot: "db s = fresh_tables \<Longrightarrow> kafka s = [] \<Longrightarrow> exchange_reachable ustr rnd cached (new_exchange s st)"
| step: "exchange_reachable ustr rnd cached X \<Longrightarrow> exchange_step ustr rnd cached X X' \<Longrightarrow>
    exchange_reachable ustr rnd cached X'"

end
