(* ===== verification/System_Tables.thy ===== *)
theory System_Tables
  imports System
begin

text \<open>
  What each handler of the order service does to the shared tables and to the log, in the terms the
  invariant of the whole system needs: the well-formedness of the tables, the identity of the order rows,
  the total of every currency and the events handed to the brokers.
\<close>

section \<open>What a computation hands to the brokers\<close>

definition grows :: "event set \<Rightarrow> session \<Rightarrow> session \<Rightarrow> bool" where
  "grows E s s' \<longleftrightarrow> (\<exists>rs. kafka s' = kafka s @ rs \<and> (\<forall>(t, k, e) \<in> set rs. e \<in> E))"

definition emits :: "event set \<Rightarrow> 'a dbm \<Rightarrow> bool" where
  "emits E m \<longleftrightarrow> (\<forall>s r s'. m s = (r, s') \<longrightarrow> grows E s s')"

named_theorems emitting \<open>computations that hand only given events to the brokers\<close>

lemma grows_same [intro]: "kafka s' = kafka s \<Longrightarrow> grows E s s'"
  by (simp add: grows_def)

lemma grows_snoc: "kafka s' = kafka s @ [(t, k, e)] \<Longrightarrow> e \<in> E \<Longrightarrow> grows E s s'"
  by (simp add: grows_def)

lemma grows_trans [trans]: "grows E s s' \<Longrightarrow> grows E s' s'' \<Longrightarrow> grows E s s''"
  by (fastforce simp: grows_def)

lemma grows_mono: "grows E s s' \<Longrightarrow> E \<subseteq> F \<Longrightarrow> grows F s s'"
  by (fastforce simp: grows_def)

lemma grows_kafka: "grows E s s' \<Longrightarrow> kafka t = kafka s \<Longrightarrow> kafka t' = kafka s' \<Longrightarrow> grows E t t'"
  by (simp add: grows_def)

lemma grows_none: "grows {} s s' \<longleftrightarrow> kafka s' = kafka s"
proof -
  have "(\<forall>(t, k, e) \<in> set rs. e \<in> {}) \<longleftrightarrow> rs = []" for rs :: "kafka_record list"
    by (cases rs) auto
  then show ?thesis by (simp add: grows_def)
qed

lemma emitsD: "emits E m \<Longrightarrow> m s = (r, s') \<Longrightarrow> grows E s s'"
  by (simp add: emits_def)

lemma emits_basic [emitting]:
  "emits E (ret x)" "emits E (fail e)" "emits E now" "emits E NewV7" "emits E (stmt f)" "emits E (pool_stmt f)"
  by (auto simp: emits_def stmt_def pool_stmt_def Let_def split: if_splits sum.splits)

lemma emits_bind [emitting]: "emits E m \<Longrightarrow> (\<And>x. emits E (f x)) \<Longrightarrow> emits E (bind m f)"
  unfolding emits_def bind_def by (fastforce split: prod.splits sum.splits intro: grows_trans)

lemma emits_catch [emitting]: "emits E m \<Longrightarrow> (\<And>e. emits E (h e)) \<Longrightarrow> emits E (catch m h)"
  unfolding emits_def catch_def by (fastforce split: prod.splits sum.splits intro: grows_trans)

lemma emits_wrap [emitting]: "emits E m \<Longrightarrow> emits E (wrap msg m)"
  unfolding wrap_def by (intro emitting)

lemma emits_do_if [emitting]: "emits E m \<Longrightarrow> emits E (do_if b m)"
  by (auto simp: do_if_def intro: emitting)

lemma emits_if [emitting]: "(b \<Longrightarrow> emits E m) \<Longrightarrow> (\<not> b \<Longrightarrow> emits E n) \<Longrightarrow> emits E (if b then m else n)"
  by simp

lemma emits_case_fail [emitting]:
  "(\<And>x. emits E (g x)) \<Longrightarrow> emits E (case r of Inl e \<Rightarrow> fail (f e) | Inr x \<Rightarrow> g x)"
  by (auto split: sum.splits intro: emitting)

lemma emits_case_prod [emitting]: "(\<And>a b. emits E (g a b)) \<Longrightarrow> emits E (case x of (a, b) \<Rightarrow> g a b)"
  by (cases x) simp

lemma emits_case_list [emitting]:
  "emits E m \<Longrightarrow> (\<And>x xs. emits E (g x xs)) \<Longrightarrow> emits E (case l of [] \<Rightarrow> m | x # xs \<Rightarrow> g x xs)"
  by (cases l) simp_all

lemma emits_case_option [emitting]:
  "emits E m \<Longrightarrow> (\<And>x. emits E (g x)) \<Longrightarrow> emits E (case l of None \<Rightarrow> m | Some x \<Rightarrow> g x)"
  by (cases l) simp_all

lemma emits_for_each [emitting]: "(\<And>x. emits E (f x)) \<Longrightarrow> emits E (for_each xs f)"
  by (induction xs) (auto intro!: emitting)

lemma emits_map_each [emitting]: "(\<And>x. emits E (f x)) \<Longrightarrow> emits E (map_each xs f)"
  by (induction xs) (auto intro!: emitting)

lemma emits_ExecTx [emitting]: "emits E m \<Longrightarrow> emits E (ExecTx m)"
  unfolding emits_def ExecTx_def
  by (fastforce simp: Let_def grows_def split: if_splits prod.splits sum.splits)

lemma emits_guarded [emitting]:
  "emits E (BatchCreateOrders os)" "emits E (BatchInsert msgs)" "emits E (estimateMarketBuyFunds svc sy q)"
proof -
  have e: "emits E (stmt (insert_orders os))"
    "emits E (bind now (\<lambda>t. bind (map_each msgs (\<lambda>m. bind NewV7 (\<lambda>i.
       ret (m\<lparr>mID := i, mCreatedAt := t, mStatus := StatusPending\<rparr>)))) (\<lambda>msgs'.
       bind (stmt (insert_messages msgs')) (\<lambda>_. ret msgs'))))"
    by (intro emitting)+
  show "emits E (BatchCreateOrders os)"
    using e(1) by (auto simp: emits_def BatchCreateOrders_def)
  show "emits E (BatchInsert msgs)"
    using e(2) by (auto simp: emits_def BatchInsert_def)
  show "emits E (estimateMarketBuyFunds svc sy q)"
    by (auto simp: emits_def estimateMarketBuyFunds_def Let_def split: option.splits sum.splits if_splits)
qed

lemma order_service_emits [emitting]:
  "emits E (PlaceOrder ustr rnd svc order)" "emits E (BatchPlaceOrders ustr rnd svc os)"
  "emits E (CancelOrder ustr svc oid u)" "emits E (RegisterAnonymousUser ustr)" "emits E (RechargeTestUser u)"
proof -
  have lock: "emits E (lock_stmt t u c x)" for t u c x
    unfolding lock_stmt_def update_accounts_def by (intro emitting)
  have "emits E (calculateLockAmount svc order)" for order
    unfolding calculateLockAmount_def by (intro emitting)
  note lock = lock this
  show "emits E (PlaceOrder ustr rnd svc order)"
    unfolding PlaceOrder_def place_body_def LockFunds_def CreateOrder_def Insert_def Let_def
    by (intro emitting lock)
  have prep: "emits E (prepare_orders ustr rnd svc t xs acc)" for t xs acc
  proof (induction xs arbitrary: acc)
    case (Cons x xs)
    have "emits E (prepare_order ustr rnd svc t x acc)"
      unfolding prepare_order_def Let_def by (intro emitting lock)
    with Cons show ?case by (auto intro!: emitting)
  qed (auto intro: emitting)
  show "emits E (BatchPlaceOrders ustr rnd svc os)"
    unfolding BatchPlaceOrders_def batch_body_def BatchLockFunds_def
    by (intro emitting lock prep)
  show "emits E (CancelOrder ustr svc oid u)"
    unfolding CancelOrder_def cancel_body_def GetOrder_def GetOrderForUpdate_def Insert_def Let_def
    by (intro emitting)
  show "emits E (RegisterAnonymousUser ustr)"
    unfolding RegisterAnonymousUser_def create_test_account_def CreateAccount_def CreateUser_def Let_def
    by (intro emitting)
  show "emits E (RechargeTestUser u)"
    unfolding RechargeTestUser_def UpdateBalance_def update_accounts_def by (intro emitting)
qed

section \<open>Well-formed tables\<close>

text \<open>
  What never changes of an order row, and the part of the tables that only grows: the keys of the
  accounts, the identities of the orders and the users.
\<close>

type_synonym identity = "uuid \<times> string \<times> uuid \<times> OrderSide \<times> OrderType \<times> decimal"

definition identity :: "Order \<Rightarrow> identity" where
  "identity x = (dID x, dSymbol x, dUserID x, dSide x, dType x, dPrice x)"

definition identities :: "DB \<Rightarrow> identity set" where
  "identities d = identity ` set (orders d)"

definition skeleton :: "DB \<Rightarrow> (uuid \<times> string) list \<times> identity list \<times> uuid list" where
  "skeleton d = (map acc_key (accounts d), map identity (orders d), map uID (users d))"

abbreviation opened :: "string set" where "opened \<equiv> {''USD'', ''BTC'', ''ETH''}"

text \<open>
  Every user has an account in each of the three currencies, there is no other account, and the currency
  an order locks is one of the three.
\<close>

definition locks_opened :: "identity \<Rightarrow> bool" where
  "locks_opened = (\<lambda>(oid, sy, u, side, ty, price).
     \<exists>b q. splitSymbol sy = Inr (b, q) \<and> (if side = SideBuy then q else b) \<in> opened)"

definition skeleton_ok :: "(uuid \<times> string) list \<times> identity list \<times> uuid list \<Rightarrow> bool" where
  "skeleton_ok = (\<lambda>(keys, ids, us). distinct (map fst ids) \<and> set keys = set us \<times> opened \<and>
     (\<forall>x \<in> set ids. locks_opened x \<and> fst (snd (snd x)) \<in> set us))"

definition tables_ok :: "DB \<Rightarrow> bool" where
  "tables_ok d \<longleftrightarrow> accounts_ok d \<and> skeleton_ok (skeleton d) \<and> distinct (map tID (trades d))"

lemma skeleton_identities: "skeleton d' = skeleton d \<Longrightarrow> identities d' = identities d"
proof -
  assume "skeleton d' = skeleton d"
  then have "map identity (orders d') = map identity (orders d)" by (simp add: skeleton_def)
  then have "set (map identity (orders d')) = set (map identity (orders d))" by (rule arg_cong)
  then show ?thesis by (simp add: identities_def)
qed

lemma tables_ok_has_account:
  "tables_ok d \<Longrightarrow> has_account u c d \<longleftrightarrow> u \<in> uID ` set (users d) \<and> c \<in> opened"
proof -
  assume "tables_ok d"
  then have "acc_key ` set (accounts d) = uID ` set (users d) \<times> opened"
    by (simp add: tables_ok_def skeleton_ok_def skeleton_def)
  then show ?thesis by (simp add: has_account_def)
qed

section \<open>Sound trades and events\<close>

text \<open>
  A trade is between two orders of different users, of one symbol and opposite sides, at the price of the
  maker, which is a limit order, and within the limit of the taker if it is one.
\<close>

definition trade_sound :: "identity set \<Rightarrow> Trade \<Rightarrow> bool" where
  "trade_sound R t \<longleftrightarrow> (\<exists>u u' side side' ty price.
     (tMakerOrderID t, tSymbol t, u, side, TypeLimit, tPrice t) \<in> R \<and>
     (tTakerOrderID t, tSymbol t, u', side', ty, price) \<in> R \<and> u \<noteq> u' \<and>
     (side = SideBuy) \<noteq> (side' = SideBuy) \<and>
     (ty = TypeLimit \<longrightarrow> (if side' = SideBuy then tPrice t \<le> price else price \<le> tPrice t)))"

definition placed_sound :: "identity set \<Rightarrow> OrderPlacedEvent \<Rightarrow> bool" where
  "placed_sound R e \<longleftrightarrow> (opOrderID e, opSymbol e, opUserID e, opSide e, opType e, opPrice e) \<in> R"

definition request_sound :: "identity set \<Rightarrow> SettlementRequestedEvent \<Rightarrow> bool" where
  "request_sound R e \<longleftrightarrow> (\<forall>t \<in> set (srTrades e). trade_sound R t \<and> tTakerOrderID t = srTakerOrderID e)"

definition event_sound :: "identity set \<Rightarrow> event \<Rightarrow> bool" where
  "event_sound R e =
     (case e of EvOrderPlaced x \<Rightarrow> placed_sound R x | EvSettlementRequested x \<Rightarrow> request_sound R x | _ \<Rightarrow> True)"

lemma trade_sound_mono: "trade_sound R t \<Longrightarrow> R \<subseteq> R' \<Longrightarrow> trade_sound R' t"
  unfolding trade_sound_def by blast

lemma event_sound_mono: "event_sound R e \<Longrightarrow> R \<subseteq> R' \<Longrightarrow> event_sound R' e"
  by (auto simp: event_sound_def placed_sound_def request_sound_def intro: trade_sound_mono split: event.splits)

lemma order_updated_sound [simp]: "event_sound R (order_updated x)"
  by (simp add: event_sound_def order_updated_def)

section \<open>Advancing the tables\<close>

text \<open>
  \<open>advances d d' money\<close>: from well-formed tables \<open>d\<close> to well-formed tables \<open>d'\<close>, with \<open>money\<close> new units
  of each currency, no row of an order or a trade lost or changed in its identity, and only sound trades
  and events added.
\<close>

definition advances :: "DB \<Rightarrow> DB \<Rightarrow> (string \<Rightarrow> decimal) \<Rightarrow> bool" where
  "advances d d' money \<longleftrightarrow> tables_ok d' \<and> (\<forall>c. total c d' = total c d + money c) \<and>
     (\<exists>new. map identity (orders d') = map identity (orders d) @ new) \<and>
     (\<exists>ts. trades d' = trades d @ ts \<and> (\<forall>t \<in> set ts. trade_sound (identities d') t)) \<and>
     (\<forall>m \<in> set (outbox d'). mPayload m \<in> mPayload ` set (outbox d) \<or> event_sound (identities d') (mPayload m))"

lemma advances_identities: "advances d d' money \<Longrightarrow> identities d \<subseteq> identities d'"
  unfolding advances_def identities_def by (metis Un_upper1 set_append set_map)

lemma advances_refl [intro]: "tables_ok d \<Longrightarrow> advances d d (\<lambda>_. 0)"
  by (auto simp: advances_def)

text \<open>A step that moves money between existing accounts and updates existing orders.\<close>

lemma advances_moved:
  assumes "tables_ok d" and "skeleton d' = skeleton d" and "accounts_ok d'"
    and "\<And>c. total c d' = total c d + money c" and "trades d' = trades d @ ts"
    and "distinct (map tID (trades d @ ts))" and "\<forall>t \<in> set ts. trade_sound (identities d) t"
    and "mPayload ` set (outbox d') \<subseteq> mPayload ` set (outbox d)"
  shows "advances d d' money"
proof -
  have "map identity (orders d') = map identity (orders d)" using assms(2) by (simp add: skeleton_def)
  with assms skeleton_identities [OF assms(2)] show ?thesis by (auto simp: advances_def tables_ok_def)
qed

text \<open>A step that leaves users, accounts, orders and trades alone.\<close>

lemma advances_outbox:
  assumes "tables_ok d" and "users d' = users d" "accounts d' = accounts d" "orders d' = orders d" "trades d' = trades d"
    and "\<And>m. m \<in> set (outbox d') \<Longrightarrow> mPayload m \<in> mPayload ` set (outbox d) \<or> event_sound (identities d) (mPayload m)"
  shows "advances d d' (\<lambda>_. 0)"
proof -
  have "skeleton d' = skeleton d" using assms(2-4) by (simp add: skeleton_def)
  with assms skeleton_identities [OF this] show ?thesis
    by (auto simp: advances_def tables_ok_def accounts_ok_def total_def)
qed

section \<open>Placing orders\<close>

lemma moved_keys: "list_all2 (moved g) as bs \<Longrightarrow> map acc_key bs = map acc_key as"
  by (induction rule: list_all2_induct) (auto simp: moved_def)

lemma moved_total:
  assumes "list_all2 (moved g) (accounts d) (accounts d')"
  shows "total c d' = total c d"
  unfolding total_def using assms
  by (induction rule: list_all2_induct) (auto simp: moved_def acc_key_def)

lemma locked_currency_opened:
  assumes "lock_spec x cx" and "has_account (dUserID x) (fst cx) d" and "tables_ok d"
  shows "locks_opened (identity x) \<and> dUserID x \<in> uID ` set (users d)"
proof -
  from assms(1) obtain b q where "splitSymbol (dSymbol x) = Inr (b, q)"
    and "fst cx = (if dSide x = SideBuy then q else b)"
    unfolding lock_spec_def by (metis (no_types))
  moreover from assms(2) have "dUserID x \<in> uID ` set (users d)" "fst cx \<in> opened"
    unfolding tables_ok_has_account [OF assms(3)] by simp_all
  ultimately show ?thesis unfolding locks_opened_def identity_def prod.case by metis
qed

text \<open>Orders of users who could lock the funds, stored with their events.\<close>

lemma orders_advance:
  assumes "tables_ok d" and "list_all2 (moved g) (accounts d) (accounts d')" and "accounts_ok d'"
    and "users d' = users d" "trades d' = trades d" "orders d' = orders d @ os" "outbox d' = outbox d @ msgs"
    and "distinct (map dID (orders d @ os))"
    and "\<And>x. x \<in> set os \<Longrightarrow> locks_opened (identity x) \<and> dUserID x \<in> uID ` set (users d)"
    and "\<And>m. m \<in> set msgs \<Longrightarrow> \<exists>x \<in> set os. \<exists>c a. mPayload m = placed_event x c a"
  shows "advances d d' (\<lambda>_. 0) \<and> (\<forall>m \<in> set msgs. event_sound (identities d') (mPayload m))"
proof -
  have ids: "identities d' = identities d \<union> identity ` set os"
    using assms(6) by (auto simp: identities_def)
  have msgs: "event_sound (identities d') (mPayload m)" if m: "m \<in> set msgs" for m
  proof -
    from assms(10) [OF m] obtain x c a where "x \<in> set os" "mPayload m = placed_event x c a" by blast
    then show ?thesis
      by (auto simp: ids event_sound_def placed_event_def placed_sound_def identity_def)
  qed
  have fst_id: "map fst (map identity xs) = map dID xs" for xs by (simp add: identity_def)
  have "skeleton_ok (skeleton d')"
    using assms(1,8,9) moved_keys [OF assms(2)] assms(4)
    unfolding tables_ok_def skeleton_ok_def skeleton_def assms(6) prod.case fst_id
    by (auto simp: identity_def)
  then have "tables_ok d'" using assms(1,3,5) by (simp add: tables_ok_def)
  with msgs assms(5-7) moved_total [OF assms(2)] ids show ?thesis
    by (auto simp: advances_def)
qed

lemma insert_orders_stored:
  "stmt (insert_orders os) s = (Inr (), s') \<Longrightarrow>
     db s' = (db s)\<lparr>orders := orders (db s) @ os\<rparr> \<and> distinct (map dID (orders (db s) @ os))"
  by (auto simp: stmt_Inr_iff insert_orders_def split: if_splits)

lemma lock_stmt_has_account: "lock_stmt t u c x s = (Inr (), s') \<Longrightarrow> has_account u c (db s)"
  unfolding lock_stmt_Inr has_account_def by (metis imageI)

lemma place_body_advances:
  assumes "place_body ustr svc order c x s = (Inr msgs, s')" and "tables_ok (db s)" and "lock_spec order (c, x)"
  shows "advances (db s) (db s') (\<lambda>_. 0) \<and> (\<forall>m \<in> set msgs. event_sound (identities (db s')) (mPayload m))"
proof -
  from assms(1) obtain s1 s2 where 1: "LockFunds (dUserID order) c x s = (Inr (), s1)"
    and 2: "CreateOrder order s1 = (Inr (), s2)"
    by (auto simp: place_body_def bind_Inr_iff split: if_splits)
  have ok: "accounts_ok (db s)" using assms(2) by (simp add: tables_ok_def)
  note p = conjunct1 [OF place_body_ok [OF assms(1) ok assms(3)], unfolded placed_ok_def]
  from 1 have "lock_stmt (clock s (calls s)) (dUserID order) c x (s\<lparr>calls := Suc (calls s)\<rparr>) = (Inr (), s1)"
    by (simp add: LockFunds_def bind_Inr_iff)
  from lock_stmt_has_account [OF this] have "has_account (dUserID order) (fst (c, x)) (db s)" by simp
  note l = locked_currency_opened [OF assms(3) this assms(2)]
  from LockFunds_moved [OF 1 ok] have "db s1 = (db s)\<lparr>accounts := accounts (db s1)\<rparr>" by blast
  note s1 = db_accounts [OF this]
  have d: "distinct (map dID (orders (db s) @ [order]))"
    using insert_orders_stored [OF 2 [unfolded CreateOrder_def]] s1 by simp
  have u: "users (db s') = users (db s)"
  proof -
    have "frame users (place_body ustr svc order c x)"
      unfolding place_body_def Insert_def Let_def
      by (intro frames) (auto simp: insert_messages_def split: if_splits)
    then show ?thesis using frameD assms(1) by blast
  qed
  from p obtain c' x' where
    "list_all2 (moved (\<lambda>k. if k = (dUserID order, c') then x' else 0)) (accounts (db s)) (accounts (db s'))"
    and m: "if outboxRepo svc \<and> eventBus svc then \<exists>m. msgs = [m] \<and> placed_message order c' x' m else msgs = []"
    by blast
  moreover from m have "\<exists>y \<in> set [order]. \<exists>c a. mPayload m = placed_event y c a" if "m \<in> set msgs" for m
    using that by (auto simp: placed_message_def split: if_splits) blast
  moreover have "accounts_ok (db s')" "trades (db s') = trades (db s)" "orders (db s') = orders (db s) @ [order]"
    "outbox (db s') = outbox (db s) @ msgs"
    using p by blast+
  ultimately show ?thesis
    using orders_advance [OF assms(2) _ _ u _ _ _ d] l by simp
qed

lemma PlaceOrder_advances:
  assumes "PlaceOrder ustr rnd svc order s = (r, s')" and "tables_ok (db s)"
  shows "advances (db s) (db s') (\<lambda>_. 0) \<and>
    (\<forall>m \<in> set (handed svc r). event_sound (identities (db s')) (mPayload m))"
  using assms(1)
proof (cases rule: PlaceOrder_cases)
  case (failed e)
  with assms(2) show ?thesis by (auto simp: handed_def)
next
  case (placed i tm c x msgs t t')
  with place_body_advances [OF placed(3) _ placed(5)] assms(2) show ?thesis
    by (simp add: handed_def hot_messages_def)
qed

lemma lock_loop_has_accounts:
  assumes "for_each ts (\<lambda>(u, c, x). lock_stmt t u c x) s = (Inr (), s')" and "(u, c, x) \<in> set ts"
  shows "has_account u c (db s)"
  using assms
proof (induction ts arbitrary: s)
  case (Cons y ts)
  obtain u1 c1 x1 where y: "y = (u1, c1, x1)" by (cases y)
  from Cons.prems(1) obtain s1 where 1: "lock_stmt t u1 c1 x1 s = (Inr (), s1)"
    and 2: "for_each ts (\<lambda>(u, c, x). lock_stmt t u c x) s1 = (Inr (), s')"
    by (auto simp: bind_Inr_iff y)
  have same: "has_account u c (db s1) = has_account u c (db s)"
    using 1 unfolding lock_stmt_Inr by (auto simp: has_account_update)
  show ?case
  proof (cases "(u, c, x) \<in> set ts")
    case True
    with Cons.IH [OF 2] same show ?thesis by simp
  next
    case False
    with Cons.prems(2) y lock_stmt_has_account [OF 1] show ?thesis by auto
  qed
qed simp

lemma has_key_lock_order:
  assumes "has_key lf u c" shows "\<exists>x. (u, c, x) \<in> set (lock_order ustr lf)"
proof -
  from assms obtain m where m: "map_of lf u = Some m" "c \<in> set (map fst m)" by (auto simp: has_key_def)
  then have "u \<in> set (map fst lf)" by (metis list.set_map map_of_eq_None_iff option.distinct(1))
  then have "u \<in> set (exchange_sort ustr (map fst lf))" "c \<in> set (exchange_sort (\<lambda>c. c) (map fst m))"
    using m(2) by simp_all
  with m(1) show ?thesis
    unfolding lock_order_def set_concat set_map
    by (intro exI [of _ "case map_of m c of None \<Rightarrow> 0 | Some x \<Rightarrow> x"] UN_I [OF imageI])
      (simp_all add: image_iff, rule exI [of _ m], auto)
qed

lemma BatchCreateOrders_distinct:
  "BatchCreateOrders os s = (Inr (), s') \<Longrightarrow> distinct (map dID (orders (db s))) \<Longrightarrow>
     distinct (map dID (orders (db s) @ os))"
  using insert_orders_stored [of os s s'] by (auto simp: BatchCreateOrders_def split: if_splits)

lemma batch_messages_payload:
  assumes "batch_messages svc os cxs msgs" and "m \<in> set msgs"
  shows "\<exists>x \<in> set os. \<exists>c a. mPayload m = placed_event x c a"
proof -
  from assms have "list_all2 (\<lambda>(x, (c, a)) m. placed_message x c a m) (zip os cxs) msgs"
    by (auto simp: batch_messages_def split: if_splits)
  from list_all2_member' [OF this assms(2)] obtain x c a where "(x, c, a) \<in> set (zip os cxs)" "placed_message x c a m"
    by auto
  then show ?thesis by (auto simp: placed_message_def dest: set_zip_leftD)
qed

lemma tables_ok_distinct: "tables_ok d \<Longrightarrow> distinct (map dID (orders d))"
  by (simp add: tables_ok_def skeleton_ok_def skeleton_def identity_def comp_def)

lemma batch_body_advances:
  assumes "batch_body ustr os lf ms s = (Inr msgs, s')" and "tables_ok (db s)"
    and "acc_ok svc cxs (os, lf, ms)" and "keys_ok (os, lf, ms)"
  shows "advances (db s) (db s') (\<lambda>_. 0) \<and> (\<forall>m \<in> set msgs. event_sound (identities (db s')) (mPayload m))"
proof -
  from assms(1) obtain s1 s2 where 1: "BatchLockFunds ustr lf s = (Inr (), s1)"
    and 2: "BatchCreateOrders os s1 = (Inr (), s2)"
    and 3: "(if ms \<noteq> [] then wrap ''batch insert outbox'' (BatchInsert ms) else ret []) s2 = (Inr msgs, s')"
    by (auto simp: batch_body_def bind_Inr_iff)
  note o = assms(3) [unfolded acc_ok_def prod.case]
  have ok: "accounts_ok (db s)" using assms(2) by (simp add: tables_ok_def)
  have l: "list_all2 (moved (lf_get lf)) (accounts (db s)) (accounts (db s1))" "accounts_ok (db s1)"
    and s1: "db s1 = (db s)\<lparr>accounts := accounts (db s1)\<rparr>"
    using BatchLockFunds_moved [OF 1 ok] o by simp_all
  note s1 = db_accounts [OF s1] and s2 = BatchCreateOrders_Inr [OF 2]
  have m: "db s' = (db s2)\<lparr>outbox := outbox (db s2) @ msgs\<rparr>" "batch_messages svc os cxs msgs"
    using 3 o BatchInsert_Inr [of ms s2 msgs s'] batch_messages_numbered [of svc os cxs ms msgs]
    by (auto split: if_splits)
  have d: "distinct (map dID (orders (db s) @ os))"
    using BatchCreateOrders_distinct [OF 2] s1 tables_ok_distinct [OF assms(2)] by simp
  have locked: "locks_opened (identity x) \<and> dUserID x \<in> uID ` set (users (db s))" if x: "x \<in> set os" for x
  proof -
    from assms(4) x obtain cx where cx: "lock_spec x cx" "has_key lf (dUserID x) (fst cx)"
      unfolding keys_ok_def by auto
    then obtain y where y: "(dUserID x, fst cx, y) \<in> set (lock_order ustr lf)" using has_key_lock_order by blast
    from 1 have "for_each (lock_order ustr lf) (\<lambda>(u, c, x). lock_stmt (clock s (calls s)) u c x)
        (s\<lparr>calls := Suc (calls s)\<rparr>) = (Inr (), s1)" by (simp add: BatchLockFunds_def bind_now)
    from lock_loop_has_accounts [OF this y] locked_currency_opened [OF cx(1) _ assms(2)] show ?thesis by simp
  qed
  have t: "accounts (db s') = accounts (db s1)" "users (db s') = users (db s)" "trades (db s') = trades (db s)"
    "orders (db s') = orders (db s) @ os" "outbox (db s') = outbox (db s) @ msgs"
    using s1 s2 m(1) by simp_all
  have "accounts_ok (db s')" using l(2) t(1) by (simp add: accounts_ok_def)
  from orders_advance [OF assms(2) l(1) [folded t(1)] this t(2-5) d locked batch_messages_payload [OF m(2)]]
  show ?thesis .
qed

lemma BatchPlaceOrders_advances:
  assumes "BatchPlaceOrders ustr rnd svc os s = (r, s')" and "tables_ok (db s)"
  shows "advances (db s) (db s') (\<lambda>_. 0) \<and>
    (\<forall>m \<in> set (handed svc r). event_sound (identities (db s')) (mPayload m))"
  using assms(1)
proof (cases rule: BatchPlaceOrders_cases)
  case (failed e)
  with assms(2) show ?thesis by (auto simp: handed_def)
next
  case empty
  with assms(2) show ?thesis by (auto simp: handed_def hot_messages_def)
next
  case (placed os lf ms cxs msgs t t')
  with batch_body_advances [OF placed(3) _ placed(5,6)] assms(2) show ?thesis
    by (simp add: handed_def hot_messages_def)
qed

section \<open>Cancelling, registering, recharging\<close>

lemma CancelOrder_advances:
  assumes "CancelOrder ustr svc oid userID s = (r, s')" and "tables_ok (db s)"
  shows "advances (db s) (db s') (\<lambda>_. 0) \<and>
    (\<forall>m \<in> set (handed svc (map_sum id (Pair ()) r)). event_sound (identities (db s')) (mPayload m))"
proof (cases r)
  case (Inl e)
  with CancelOrder_ok [OF assms(1)] assms(2) show ?thesis by (auto simp: handed_def)
next
  case (Inr msgs)
  with CancelOrder_ok [OF assms(1)] obtain x where
    d: "db s' = (db s)\<lparr>outbox := outbox (db s) @ msgs\<rparr>"
    and m: "if outboxRepo svc then \<exists>m. msgs = [m] \<and> mPayload m = cancel_request x \<and> mTopic m = TopicOrders \<and>
           mPartitionKey m = dSymbol x else msgs = []" by auto
  from m have sound: "event_sound R (mPayload m)" if "m \<in> set msgs" for m R
    using that by (auto simp: cancel_request_def event_sound_def split: if_splits)
  have "advances (db s) (db s') (\<lambda>_. 0)"
    by (rule advances_outbox [OF assms(2)]) (auto simp: d sound)
  with sound Inr show ?thesis by (simp add: handed_def hot_messages_def)
qed

text \<open>A new user gets exactly the three accounts, each with its test funds.\<close>

definition opens :: "uuid \<Rightarrow> DB \<Rightarrow> Account list \<Rightarrow> (string \<times> decimal) list \<Rightarrow> DB \<Rightarrow> bool" where
  "opens u d accs cs d' \<longleftrightarrow> d' = d\<lparr>accounts := accounts d @ accs\<rparr> \<and> map acc_key accs = map (\<lambda>(c, x). (u, c)) cs \<and>
     map (\<lambda>a. (aBalance a, aLocked a)) accs = map (\<lambda>(c, x). (x, 0)) cs"

lemma create_test_accounts_opens:
  assumes "map_each cs (create_test_account u t) s = (Inr accs, s')" and "distinct (map fst cs)"
    and "\<And>c. c \<in> fst ` set cs \<Longrightarrow> (u, c) \<notin> acc_key ` set (accounts (db s))"
  shows "opens u (db s) accs cs (db s')"
  using assms
proof (induction cs arbitrary: s accs)
  case (Cons cx cs)
  obtain c x where cx: "cx = (c, x)" by (cases cx)
  let ?a = "\<lparr>aID = fresh s (calls s), aUserID = u, aCurrency = c, aBalance = x, aLocked = 0,
                aCreatedAt = t, aUpdatedAt = t\<rparr>"
  from Cons.prems(1) obtain accs' s1 where accs: "accs = ?a # accs'"
    and 1: "CreateAccount ?a (s\<lparr>calls := Suc (calls s)\<rparr>) = (Inr (), s1)"
    and 2: "map_each cs (create_test_account u t) s1 = (Inr accs', s')"
    by (auto simp: bind_Inr_iff create_test_account_def cx Let_def)
  have key: "acc_key ?a = (u, c)" by (simp add: acc_key_def)
  have "find (\<lambda>b. acc_key b = acc_key ?a) (accounts (db s)) = None"
    using Cons.prems(3) [of c] unfolding key by (auto simp: find_None_iff' cx image_iff)
  with 1 have d1: "db s1 = (db s)\<lparr>accounts := accounts (db s) @ [?a]\<rparr>"
    by (auto simp: CreateAccount_def stmt_Inr_iff split: if_splits)
  have new: "(u, c') \<notin> acc_key ` set (accounts (db s1))" if c': "c' \<in> fst ` set cs" for c'
    using Cons.prems(2,3) c' unfolding d1 by (auto simp: cx key)
  from Cons.IH [OF 2 _ new] Cons.prems(2) d1 show ?case
    by (simp add: opens_def accs cx key)
qed (simp add: opens_def)

lemma register_advances:
  assumes "RegisterAnonymousUser ustr s = (r, s')" and "tables_ok (db s)"
  shows "advances (db s) (db s') (test_funds r)"
  using assms(1)
proof (cases rule: RegisterAnonymousUser_cases)
  case (failed e)
  with assms(2) show ?thesis by (auto simp: advances_def test_funds_def)
next
  case (opened user tm accs t1 t')
  let ?u = "uID user"
  have keys: "acc_key ` set (accounts (db s)) = uID ` set (users (db s)) \<times> opened"
    using assms(2) by (simp add: tables_ok_def skeleton_ok_def skeleton_def)
  have "opens ?u (db t1) accs test_currencies (db t')"
    by (rule create_test_accounts_opens [OF opened(4)]) (use keys opened(2,3) in \<open>auto simp: test_currencies_def\<close>)
  then have d: "db s' = (db s)\<lparr>users := users (db s) @ [user], accounts := accounts (db s) @ accs\<rparr>"
    and k: "map acc_key accs = [(?u, ''USD''), (?u, ''BTC''), (?u, ''ETH'')]"
    and b: "map (\<lambda>a. (aBalance a, aLocked a)) accs = [(1000000, 0), (100, 0), (1000, 0)]"
    using opened(3,5) by (auto simp: opens_def test_currencies_def)
  from k b obtain x y z where accs: "accs = [x, y, z]" by (cases accs) (auto simp: map_eq_Cons_conv)
  have new: "(?u, c) \<notin> acc_key ` set (accounts (db s))" for c
    using opened(2) unfolding keys by auto
  have "accounts_ok (db s')"
    using assms(2) k b new [of "''USD''"] new [of "''BTC''"] new [of "''ETH''"]
    by (auto simp: tables_ok_def accounts_ok_def d accs)
  moreover have "skeleton_ok (skeleton (db s'))"
  proof -
    have "set (map acc_key (accounts (db s'))) = set (map uID (users (db s'))) \<times> opened"
      unfolding d by (simp add: image_Un keys, simp only: flip: set_map, simp add: k)
    then show ?thesis using assms(2) by (simp add: tables_ok_def skeleton_ok_def skeleton_def d)
  qed
  moreover have "total c (db s') = total c (db s) + test_funds r c" for c
    using k b opened(1) by (auto simp: total_def d accs test_funds_def test_currencies_def acc_key_def)
  ultimately show ?thesis
    using assms(2) by (auto simp: advances_def tables_ok_def d identities_def)
qed

lemma UpdateBalance_keys:
  assumes "UpdateBalance u c x s = (Inr (), s')"
  shows "skeleton (db s') = skeleton (db s) \<and> trades (db s') = trades (db s) \<and> outbox (db s') = outbox (db s)"
  using assms unfolding UpdateBalance_Inr skeleton_def by (auto simp: map_update_where_same)

lemma UpdateBalance_total:
  assumes "UpdateBalance u c x s = (Inr (), s')" and "accounts_ok (db s)"
  shows "total c' (db s') = total c' (db s) + (if c' = c \<and> has_account u c (db s) then x else 0)"
proof (cases "has_account u c (db s)")
  case True
  with pg.credit_law [OF assms, of u c'] show ?thesis by simp
next
  case False
  then have "acc_key a \<noteq> (u, c)" if "a \<in> set (accounts (db s))" for a
    using that by (force simp: has_account_def)
  then have "accounts (db s') = accounts (db s)"
    using assms(1) unfolding UpdateBalance_Inr by (auto intro: update_where_none)
  with False show ?thesis by (simp add: total_def)
qed

lemma recharge_advances:
  assumes "RechargeTestUser u s = (r, s')" and "tables_ok (db s)"
  shows "advances (db s) (db s') (recharged (db s) u r)"
  using ExecTx_db [OF assms(1) [unfolded RechargeTestUser_def]]
proof (elim disjE exE conjE)
  fix e assume "r = Inl e" "db s' = db s"
  with assms(2) show ?thesis by (auto simp: advances_def recharged_def)
next
  fix x t t' assume h: "r = Inr x" "db t = db s"
    "bind (UpdateBalance u ''BTC'' 10000) (\<lambda>_. UpdateBalance u ''USD'' 100000000) t = (Inr x, t')" "db s' = db t'"
  from h(3) obtain t1 where 1: "UpdateBalance u ''BTC'' 10000 t = (Inr (), t1)"
    and 2: "UpdateBalance u ''USD'' 100000000 t1 = (Inr (), t')" by (auto simp: bind_Inr_iff)
  have ok: "accounts_ok (db t)" using assms(2) h(2) by (simp add: tables_ok_def)
  note k1 = pg.credit_law [OF 1 ok] and t1 = UpdateBalance_total [OF 1 ok]
  then have ok1: "accounts_ok (db t1)" by blast
  note k2 = pg.credit_law [OF 2 ok1] and t2 = UpdateBalance_total [OF 2 ok1]
  show ?thesis
  proof (rule advances_moved [OF assms(2), where ts = "[]"])
    show "skeleton (db s') = skeleton (db s)" "trades (db s') = trades (db s) @ []"
      "mPayload ` set (outbox (db s')) \<subseteq> mPayload ` set (outbox (db s))"
      using UpdateBalance_keys [OF 1] UpdateBalance_keys [OF 2] h(2,4) by simp_all
    show "accounts_ok (db s')" using k2 h(4) by simp
    show "total c (db s') = total c (db s) + recharged (db s) u r c" for c
      using t1 [of c] t2 [of c] k1 [of u "''USD''"] h(1,2,4) by (auto simp: recharged_def)
    show "distinct (map tID (trades (db s) @ []))" using assms(2) by (simp add: tables_ok_def)
  qed simp
qed

end
