(* ===== verification/System_Handlers.thy ===== *)
theory System_Handlers
  imports System_Tables
begin

text \<open>
  What the outbox, the settlement consumer and the matching instances do to the shared tables, to the log
  and to the books of an instance, in the terms of \<open>System_Tables\<close>.
\<close>

section \<open>The outbox\<close>

lemma ProduceSync_grows:
  "wrap msg (ProduceSync topic key e) s = (r, s') \<Longrightarrow> db s' = db s \<and> grows {e} s s'"
  by (auto simp: wrap_ProduceSync Let_def grows_def split: if_splits)

lemma PublishRaw_grows: "PublishRaw topic key e s = (r, s') \<Longrightarrow> db s' = db s \<and> grows {e} s s'"
  unfolding PublishRaw_def by (rule ProduceSync_grows)

lemma Publish_grows: "Publish topic key e s = (r, s') \<Longrightarrow> db s' = db s \<and> grows {e} s s'"
  unfolding Publish_def by (rule ProduceSync_grows)

lemma mark_advances:
  assumes "MarkPublishedBatch ids s = (r, s')" and "tables_ok (db s)"
  shows "advances (db s) (db s') (\<lambda>_. 0) \<and> grows E s s'"
  using mark_batch [OF assms(1)] by (auto intro!: advances_outbox [OF assms(2)] advances_refl assms(2))

lemma flushBatch_advances:
  assumes "flushBatch (b, s) = (b', s')" and "tables_ok (db s)"
  shows "advances (db s) (db s') (\<lambda>_. 0) \<and> grows E s s'"
proof (cases "batch b = []")
  case True
  with assms show ?thesis by (auto simp: flushBatch_def)
next
  case False
  obtain r t where m: "MarkPublishedBatch (batch b) s = (r, t)" by (cases "MarkPublishedBatch (batch b) s")
  with False assms(1) have "s' = t" by (auto simp: flushBatch_def)
  with mark_advances [OF m assms(2)] show ?thesis by simp
qed

lemma worker_receive_advances:
  assumes "worker_receive (b, s) = (b', s')" and "tables_ok (db s)"
  shows "advances (db s) (db s') (\<lambda>_. 0) \<and> grows E s s'"
proof (cases "publishedMsgChan b")
  case Nil
  with assms show ?thesis by (auto simp: worker_receive_def)
next
  case (Cons i js)
  with assms show ?thesis
    by (auto simp: worker_receive_def Let_def split: if_splits dest: flushBatch_advances)
qed

lemma hot_path_grows:
  assumes "hot_path msg (b, s) = (b', s')"
  shows "db s' = db s \<and> grows {mPayload msg} s s'"
proof -
  obtain r t where p: "PublishRaw (mTopic msg) (mPartitionKey msg) (mPayload msg) s = (r, t)"
    by (cases "PublishRaw (mTopic msg) (mPartitionKey msg) (mPayload msg) s")
  with assms have "s' = t" by (auto simp: hot_path_def split: sum.splits if_splits)
  with PublishRaw_grows [OF p] show ?thesis by simp
qed

text \<open>All tables but the outbox.\<close>

definition others :: "DB \<Rightarrow> DB" where
  "others d = d\<lparr>outbox := []\<rparr>"

lemma others_outbox [simp]: "others (d\<lparr>outbox := ms\<rparr>) = others d"
  by (simp add: others_def)

lemma others_same: "others d' = others d \<Longrightarrow> users d' = users d \<and> accounts d' = accounts d \<and> orders d' = orders d \<and>
    trades d' = trades d"
  by (cases d; cases d') (simp add: others_def)

lemma frame_increment [frames]: "frame others (IncrementRetry i)"
  and frame_mark [frames]: "frame others (MarkPublishedBatch ids)"
  and frame_fetch [frames]: "frame others (FetchPending n g)"
  and frame_count [frames]: "frame others CountPending"
  unfolding IncrementRetry_def MarkPublishedBatch_def FetchPending_def CountPending_def
  by (intro frames; auto)+

lemma frame_publish_one [frames]: "frame others (publish_one msg)"
proof (rule frameI)
  fix s r s' assume h: "publish_one msg s = (r, s')"
  obtain q t where p: "PublishRaw (mTopic msg) (mPartitionKey msg) (mPayload msg) s = (q, t)"
    by (cases "PublishRaw (mTopic msg) (mPartitionKey msg) (mPayload msg) s")
  have f: "frame others (bind (wrap ''increment retry_count'' (IncrementRetry (mID msg))) (\<lambda>_. ret []) :: uuid list dbm)"
    by (intro frames)
  show "others (db s') = others (db s)"
    using h p PublishRaw_grows [OF p] frameD [OF f, of t r s'] by (auto simp: publish_one_def split: sum.splits)
qed

lemma frame_publish_loop [frames]: "frame others (publish_loop msgs)"
  by (induction msgs) (auto intro!: frames)

lemma emits_publish_one: "emits {mPayload msg} (publish_one msg)"
  unfolding emits_def
proof (intro allI impI)
  fix s r s' assume h: "publish_one msg s = (r, s')"
  obtain q t where p: "PublishRaw (mTopic msg) (mPartitionKey msg) (mPayload msg) s = (q, t)"
    by (cases "PublishRaw (mTopic msg) (mPartitionKey msg) (mPayload msg) s")
  have e: "emits E (bind (wrap ''increment retry_count'' (IncrementRetry (mID msg))) (\<lambda>_. ret []) :: uuid list dbm)" for E
    unfolding IncrementRetry_def by (intro emitting)
  show "grows {mPayload msg} s s'"
  proof (cases q)
    case (Inl err)
    with h p have "bind (wrap ''increment retry_count'' (IncrementRetry (mID msg))) (\<lambda>_. ret []) t = (r, s')"
      by (simp add: publish_one_def)
    from emitsD [OF e this] show ?thesis using PublishRaw_grows [OF p] by (blast intro: grows_trans)
  next
    case (Inr u)
    with h p PublishRaw_grows [OF p] show ?thesis by (simp add: publish_one_def)
  qed
qed

lemma emits_mono: "emits E m \<Longrightarrow> E \<subseteq> F \<Longrightarrow> emits F m"
  by (auto simp: emits_def intro: grows_mono)

lemma emits_publish_loop: "mPayload ` set msgs \<subseteq> E \<Longrightarrow> emits E (publish_loop msgs)"
  by (induction msgs) (auto intro!: emitting emits_mono [OF emits_publish_one])

lemma process_advances:
  assumes "tables_ok (db s)"
  shows "advances (db s) (db (process w s)) (\<lambda>_. 0) \<and> grows (mPayload ` set (outbox (db s))) s (process w s)"
proof
  let ?E = "mPayload ` set (outbox (db s))"
  obtain c s0 where c: "CountPending s = (c, s0)" by (cases "CountPending s")
  obtain r s1 where e: "ExecTx (process_body w) s0 = (r, s1)" by (cases "ExecTx (process_body w) s0")
  have res: "process w s = s1" by (simp add: process_def WithTx_def c e)
  have "frame others (ExecTx (process_body w))"
    unfolding process_body_def by (intro frames)
  from frameD [OF this e] frameD [OF frame_count c] have "others (db s1) = others (db s)" by simp
  note o = others_same [OF this]
  obtain rest gone where "list_all2 same_message (outbox (db s)) rest"
    and "outbox (db (process w s)) = filter (\<lambda>m. \<not> gone m) rest"
    by (rule process_effect [of s w]) blast
  then have "mPayload m \<in> ?E" if "m \<in> set (outbox (db s1))" for m
    using that list_all2_member' [of same_message "outbox (db s)" rest m] by (force simp: res same_message_def)
  with o show "advances (db s) (db (process w s)) (\<lambda>_. 0)"
    unfolding res by (intro advances_outbox [OF assms]) auto
  have "frame id CountPending" "emits ?E CountPending"
    unfolding CountPending_def by (intro frames emitting; simp)+
  from frameD [OF this(1) c] emitsD [OF this(2) c] have s0: "db s0 = db s" "grows ?E s s0" by simp_all
  have "grows ?E s0 s1"
  proof -
    let ?t = "s0\<lparr>calls := Suc (calls s0), in_tx := True, aborted := False\<rparr>"
    obtain q t where b: "process_body w ?t = (q, t)" by (cases "process_body w ?t")
    have "kafka s1 = kafka s0 \<or> kafka s1 = kafka t"
      using e b by (auto simp: ExecTx_def Let_def split: if_splits sum.splits)
    moreover have "grows ?E ?t t"
    proof -
      let ?f = "wrap ''read pending'' (FetchPending (wBatchSize w) 5000)"
      obtain fm t1 where f: "?f ?t = (fm, t1)" by (cases "?f ?t")
      have "emits ?E ?f" unfolding FetchPending_def by (intro emitting)
      from emitsD [OF this f] have 1: "grows ?E ?t t1" .
      show ?thesis
      proof (cases fm)
        case (Inl err)
        with b f 1 show ?thesis by (simp add: process_body_def bind_def)
      next
        case (Inr msgs)
        with f have "set msgs \<subseteq> set (outbox (db s))"
          by (auto simp: FetchPending_def bind_Inr_iff stmt_Inr_iff s0(1) dest!: in_set_takeD)
        then have "emits ?E (bind (publish_loop msgs) (\<lambda>successfulIDs. if successfulIDs = [] then ret ()
            else wrap ''mark published'' (MarkPublishedBatch successfulIDs)))"
          unfolding MarkPublishedBatch_def by (intro emitting emits_publish_loop) auto
        moreover from b f Inr have "bind (publish_loop msgs) (\<lambda>successfulIDs. if successfulIDs = [] then ret ()
            else wrap ''mark published'' (MarkPublishedBatch successfulIDs)) t1 = (q, t)"
          by (simp add: process_body_def bind_def)
        ultimately show ?thesis using 1 emitsD grows_trans by blast
      qed
    qed
    ultimately show ?thesis by (auto simp: grows_def)
  qed
  with s0(2) show "grows ?E s (process w s)" unfolding res by (rule grows_trans)
qed

section \<open>The settlement consumer\<close>

lemma skeleton_simps [simp]:
  "skeleton (d\<lparr>trades := ts\<rparr>) = skeleton d" "skeleton (d\<lparr>outbox := ms\<rparr>) = skeleton d"
  "skeleton (d\<lparr>locks := ls\<rparr>) = skeleton d"
  by (simp_all add: skeleton_def)

lemma skeleton_accounts:
  "(\<And>a. acc_key (f a) = acc_key a) \<Longrightarrow> skeleton (d\<lparr>accounts := update_where P f (accounts d)\<rparr>) = skeleton d"
  by (simp add: skeleton_def map_update_where_same)

lemma skeleton_orders:
  "(\<And>x. identity (f x) = identity x) \<Longrightarrow> skeleton (d\<lparr>orders := update_where P f (orders d)\<rparr>) = skeleton d"
  by (simp add: skeleton_def map_update_where_same)

lemma identity_saved [simp]: "identity (saved x u y) = identity y"
  by (simp add: identity_def saved_def)

lemma skeleton_frames:
  "frame skeleton (UnlockFunds u c x)" "frame skeleton (UpdateBalance u c x)" "frame skeleton (UpdateOrder order)"
  "frame skeleton (CreateTrade t)"
proof -
  have upd: "frame skeleton (update_accounts P f)" if "\<And>a. acc_key (f a) = acc_key a" for P f
    unfolding update_accounts_def
    by (rule frame_stmt) (auto simp: skeleton_accounts [OF that] split: if_splits)
  show "frame skeleton (UnlockFunds u c x)" "frame skeleton (UpdateBalance u c x)"
    unfolding UnlockFunds_def UpdateBalance_def
    by (intro frame_bind frame_now frame_ret upd; simp)+
  show "frame skeleton (UpdateOrder order)"
    unfolding UpdateOrder_def
    by (rule frame_stmt) (auto simp: skeleton_orders identity_def)
  show "frame skeleton (CreateTrade t)" by (rule trade_frames) simp
qed

lemma settlement_frames:
  "frame skeleton (apply_update up)" "frame skeleton (save_order lk oid)"
  unfolding apply_update_def save_order_def Let_def
  by (intro frame_bind frame_do_if frame_wrap frame_now frame_ret deref_frame skeleton_frames)+

lemma create_trades_distinct:
  assumes "for_each ts (\<lambda>t. wrap msg (CreateTrade t)) s = (Inr (), s')" and "distinct (map tID (trades (db s)))"
  shows "distinct (map tID (trades (db s')))"
  by (rule for_each_invariant [OF assms(1), where R = "\<lambda>s. distinct (map tID (trades (db s)))"])
    (use assms(2) in \<open>auto simp: CreateTrade_def stmt_Inr_iff split: if_splits\<close>)

text \<open>Two opposite orders of a symbol have locked both of its currencies, so everybody has both accounts.\<close>

lemma sound_request_parties_ready:
  assumes "tables_ok d" and "request_sound (identities d) ev" and "srTrades ev \<noteq> []"
  shows "parties_ready ids (srTakerOrderID ev) d"
proof -
  have rows: "locks_opened (identity x) \<and> dUserID x \<in> uID ` set (users d)" if "x \<in> set (orders d)" for x
    using assms(1) that by (auto simp: tables_ok_def skeleton_ok_def skeleton_def identity_def)
  from assms(2,3) obtain t where t: "trade_sound (identities d) t" "tTakerOrderID t = srTakerOrderID ev"
    by (cases "srTrades ev") (auto simp: request_sound_def)
  from t(1) obtain u u' side side' ty price where
    R: "(tMakerOrderID t, tSymbol t, u, side, TypeLimit, tPrice t) \<in> identities d"
      "(tTakerOrderID t, tSymbol t, u', side', ty, price) \<in> identities d" and "(side = SideBuy) \<noteq> (side' = SideBuy)"
    unfolding trade_sound_def by blast
  moreover from R obtain m k where m: "m \<in> set (orders d)" "dSymbol m = tSymbol t" "dSide m = side"
    and k: "k \<in> set (orders d)" "dID k = tTakerOrderID t" "dSymbol k = tSymbol t" "dSide k = side'"
    unfolding identities_def identity_def by (elim imageE) simp
  ultimately have sides: "(dSide m = SideBuy) \<noteq> (dSide k = SideBuy)" by simp
  from rows [OF m(1)] rows [OF k(1)] m(2) k(3) sides obtain b q where
    bq: "splitSymbol (tSymbol t) = Inr (b, q)" "b \<in> opened" "q \<in> opened"
    unfolding locks_opened_def identity_def by (auto split: if_splits)
  have "dSymbol y = tSymbol t" if "y \<in> set (orders d)" "dID y = srTakerOrderID ev" for y
  proof -
    have "inj_on dID (set (orders d))"
      using tables_ok_distinct [OF assms(1)] by (simp add: distinct_map)
    from inj_onD [OF this _ that(1) k(1)] that(2) k(2) t(2) have "y = k" by simp
    with k(3) show ?thesis by simp
  qed
  with bq rows show ?thesis
    unfolding parties_ready_def tables_ok_has_account [OF assms(1)] by auto
qed

lemma settlement_body_advances:
  assumes "settlement_body ustr rnd event s = (Inr upd, s')" and "in_tx s" and "uuid_text ustr"
    and "tables_ok (db s)" and "request_sound (identities (db s)) event"
  shows "advances (db s) (db s') (\<lambda>_. 0)"
proof -
  let ?ids = "settlement_ids ustr event" and ?tk = "srTakerOrderID event"
  from assms(1,2) obtain rows lk ups tk2 refund s2 s3 s4 s5 where
    rows: "list_all2 (row_of (db s)) ?ids rows" and
    loop: "settle_trades rnd ?tk (srTrades event) (map_of (zip ?ids rows), []) s2 = (Inr (lk, ups), s3)" "db s2 = db s" and
    save: "map_each ?ids (save_order (lk(?tk \<mapsto> tk2))) s3 = (Inr upd, s4)" and
    ins: "for_each (srTrades event) (\<lambda>t. wrap ''create trade'' (CreateTrade t)) s4 = (Inr (), s5)" and
    app: "for_each (aggregateAndSortAccountUpdates ustr (ups @ refund_updates rnd event tk2 refund)) apply_update s5
       = (Inr (), s')"
    by (rule settlement_body_InrE)
  let ?app = "for_each (aggregateAndSortAccountUpdates ustr (ups @ refund_updates rnd event tk2 refund)) apply_update"
  have "dom (map_of (zip ?ids rows)) \<subseteq> set ?ids" by (simp add: map_of_zip_rows(1) [OF rows])
  from settle_trades_keeps [OF loop(1) lk_of_rows [OF rows] this, of "''USD''"] loop(2)
  have s3: "db s3 = db s" by simp
  have "frame skeleton (map_each ?ids (save_order (lk(?tk \<mapsto> tk2))))"
    "frame skeleton (for_each (srTrades event) (\<lambda>t. wrap ''create trade'' (CreateTrade t)))" "frame skeleton ?app"
    by (intro frame_map_each frame_for_each frame_wrap settlement_frames skeleton_frames)+
  from frameD [OF this(1) save] frameD [OF this(2) ins] frameD [OF this(3) app]
  have sk: "skeleton (db s') = skeleton (db s)" using s3 by simp
  have "frame outbox (map_each ?ids (save_order (lk(?tk \<mapsto> tk2))))"
    "frame outbox (for_each (srTrades event) (\<lambda>t. wrap ''create trade'' (CreateTrade t)))" "frame outbox ?app"
    "frame trades (map_each ?ids (save_order (lk(?tk \<mapsto> tk2))))" "frame trades ?app"
    by (intro frames; simp)+
  from frameD [OF this(1) save] frameD [OF this(2) ins] frameD [OF this(3) app]
    frameD [OF this(4) save] frameD [OF this(5) app] s3 create_trades [OF ins]
  have ob: "outbox (db s') = outbox (db s)" and tr: "trades (db s') = trades (db s5)" "trades (db s4) = trades (db s)"
    "trades (db s') = trades (db s) @ srTrades event" by simp_all
  have ok: "accounts_ok (db s)" using assms(4) by (simp add: tables_ok_def)
  have ready: "srTrades event \<noteq> [] \<longrightarrow> parties_ready (set ?ids) ?tk (db s)"
    using sound_request_parties_ready [OF assms(4,5)] by blast
  note money = settlement_body_conserves [OF assms(1-3) ok ready]
  show ?thesis
  proof (rule advances_moved [OF assms(4) sk])
    show "accounts_ok (db s')" using money by blast
    show "total c (db s') = total c (db s) + 0" for c using money by simp
    show "trades (db s') = trades (db s) @ srTrades event" by (rule tr(3))
    show "distinct (map tID (trades (db s) @ srTrades event))"
      using create_trades_distinct [OF ins] assms(4) unfolding tr(3) [symmetric] tr(1,2) by (simp add: tables_ok_def)
    show "\<forall>t \<in> set (srTrades event). trade_sound (identities (db s)) t"
      using assms(5) by (simp add: request_sound_def)
    show "mPayload ` set (outbox (db s')) \<subseteq> mPayload ` set (outbox (db s))" using ob by simp
  qed
qed

lemma settlement_advances:
  assumes "handleSettlementRequested ustr rnd bus event s = (r, s')" and "uuid_text ustr"
    and "tables_ok (db s)" and "request_sound (identities (db s)) event"
  shows "advances (db s) (db s') (\<lambda>_. 0)"
  using assms(1)
proof (rule handle_cases)
  fix upd t t'
  assume "db t = db s" "in_tx t" "settlement_body ustr rnd event t = (Inr upd, t')" "db s' = db t'"
  with settlement_body_advances [of ustr rnd event t upd t'] assms(2-4) show ?thesis by simp
qed (use assms(3) in auto)

lemma canceled_advances:
  assumes "handleOrderCanceled bus event s = (r, s')" and "tables_ok (db s)"
  shows "advances (db s) (db s') (\<lambda>_. 0)"
  using assms(1)
proof (rule canceled_cases)
  fix out t t'
  assume t: "db t = db s" "in_tx t" "canceled_body event t = (Inr out, t')" "db s' = db t'"
  from t(3,2) show ?thesis
  proof (rule canceled_body_InrE)
    fix x c amount s1 s2 u
    assume unl: "do_if (amount > 0) (UnlockFunds (dUserID x) c amount) s1 = (Inr (), s2)" and s1: "db s1 = db t"
      and t': "db t' = (db s2)\<lparr>orders := update_where (\<lambda>z. dID z = ocOrderID event)
         (saved (x\<lparr>dStatus := StatusCanceled\<rparr>) u) (orders (db s2))\<rparr>"
    have ok: "accounts_ok (db s1)" using assms(2) s1 t(1) by (simp add: tables_ok_def)
    have money: "accounts_ok (db s2) \<and> total c' (db s2) = total c' (db s1)" for c'
      using unl ok pg.unlock_law [of "dUserID x" c amount s1 s2 c'] by (auto simp: do_if_def split: if_splits)
    have "frame skeleton (do_if (amount > 0) (UnlockFunds (dUserID x) c amount))"
      "frame trades (do_if (amount > 0) (UnlockFunds (dUserID x) c amount))"
      "frame outbox (do_if (amount > 0) (UnlockFunds (dUserID x) c amount))"
      by (intro frame_do_if skeleton_frames, (intro frames; simp)+)
    note f = frameD [OF this(1) unl] frameD [OF this(2) unl] frameD [OF this(3) unl]
    have "skeleton (db s') = skeleton (db s2)"
      unfolding t(4) t' by (rule skeleton_orders) simp
    with f t s1 t' money assms(2) show ?thesis
      by (intro advances_moved [OF assms(2), where ts = "[]"])
        (auto simp: accounts_ok_def total_def tables_ok_def)
  qed (use t assms(2) in auto)
qed (use assms(2) in auto)

lemma emits_settle_trades: "emits E (settle_trades rnd tk ts st)"
proof (induction ts arbitrary: st)
  case (Cons t ts)
  have "emits E (settle_trade rnd tk t st)"
    unfolding settle_trade_def deref_def Let_def by (cases st) (auto intro!: emitting split: option.splits)
  with Cons show ?case by (auto intro!: emitting)
qed (auto intro: emitting)

lemma emits_fence: "emits E (fence token)" and emits_lock_order_row: "emits E (lock_order_row oid)"
  and emits_deref: "emits E (deref lk oid)" and emits_UnlockFunds: "emits E (UnlockFunds u c x)"
  unfolding fence_def ValidateFencingTokenTx_def lock_order_row_def GetOrderForUpdate_def deref_def
    UnlockFunds_def update_accounts_def
  by (intro emitting)+

lemma emits_settlement_body: "emits E (settlement_body ustr rnd event)"
  unfolding settlement_body_def Let_def TradeExistsByID_def save_order_def UpdateOrder_def CreateTrade_def
    apply_update_def UpdateBalance_def update_accounts_def
  by (intro emitting emits_fence emits_lock_order_row emits_deref emits_settle_trades emits_UnlockFunds)

lemma emits_handlers:
  "emits E (handleSettlementRequested ustr rnd bus event)" "emits E (handleOrderCanceled bus cev)"
  unfolding handleSettlementRequested_def executeSettlementTx_def handleOrderCanceled_def canceled_body_def Let_def
    TradeExistsByID_def GetOrder_def UpdateOrder_def
  by (intro emitting emits_settlement_body emits_fence emits_lock_order_row emits_UnlockFunds)+

lemma publish_updates_grow:
  "db (fold publish_update es s) = db s \<and> grows {e. event_sound R e} s (fold publish_update es s)"
proof (induction es arbitrary: s)
  case (Cons e es)
  have one: "db (publish_update e s) = db s \<and> grows {e. event_sound R e} s (publish_update e s)"
  proof (cases e)
    case (EvOrderUpdated x)
    obtain r t where p: "Publish TopicOrderUpdates (ouSymbol x) e s = (r, t)"
      by (cases "Publish TopicOrderUpdates (ouSymbol x) e s")
    with EvOrderUpdated have "publish_update e s = t" by (simp add: publish_update_def)
    moreover have "{e} \<subseteq> {e. event_sound R e}" using EvOrderUpdated by (simp add: event_sound_def)
    ultimately show ?thesis using Publish_grows [OF p] by (blast intro: grows_mono)
  qed (auto simp: publish_update_def)
  show ?case
    using one Cons.IH [of "publish_update e s"] by (auto intro: grows_trans)
qed auto

lemma settlement_consumer_advances:
  assumes "tables_ok (db s)" and "uuid_text ustr" and "event_sound (identities (db s)) value"
  shows "advances (db s) (db (settlement_consumer ustr rnd value s)) (\<lambda>_. 0) \<and>
    grows {e. event_sound R e} s (settlement_consumer ustr rnd value s)"
proof -
  let ?h = "HandleEvents payload_type as_settlement as_canceled ustr rnd True value"
  obtain r s1 where h: "?h s = (r, s1)" by (cases "?h s")
  have "advances (db s) (db s1) (\<lambda>_. 0)"
    using h assms settlement_advances [of ustr rnd True _ s r s1] canceled_advances [of True _ s r s1]
    by (auto simp: HandleEvents_def as_settlement_def as_canceled_def event_sound_def
        split: sum.splits if_splits event.splits)
  moreover have "emits {e. event_sound R e} ?h"
    unfolding HandleEvents_def by (intro emitting emits_handlers)
  note emitsD [OF this h]
  ultimately show ?thesis
    using h publish_updates_grow [of _ s1 R] by (auto simp: settlement_consumer_def split: sum.splits intro: grows_trans)
qed

end
