(* ===== verification/System_Books.thy ===== *)
theory System_Books
  imports System_Handlers
begin

text \<open>
  The books of the matching instances against the order table: every resting order stands for a row of
  its symbol, side, user and price, so every trade the engine makes is sound. Nothing is assumed of the
  books beyond that; a redelivered event may put an order into a book twice.
\<close>

section \<open>Books that stand for rows\<close>

definition resting_sound :: "identity set \<Rightarrow> string \<Rightarrow> EOrder \<Rightarrow> bool" where
  "resting_sound R sy x \<longleftrightarrow> (\<exists>side. (eID x, sy, eUserID x, side, TypeLimit, ePrice x) \<in> R \<and>
     (side = SideBuy \<longleftrightarrow> eSide x = eSideBuy))"

definition book_sound :: "identity set \<Rightarrow> string \<Rightarrow> OrderBook \<Rightarrow> bool" where
  "book_sound R sy ob \<longleftrightarrow> obSymbol ob = sy \<and>
     (\<forall>x \<in> set (bids ob). resting_sound R sy x \<and> eSide x = eSideBuy) \<and>
     (\<forall>x \<in> set (asks ob). resting_sound R sy x \<and> eSide x \<noteq> eSideBuy)"

definition registry_sound :: "identity set \<Rightarrow> EngineManager \<Rightarrow> bool" where
  "registry_sound R mgr \<longleftrightarrow> (\<forall>(sy, ob) \<in> set mgr. book_sound R sy ob)"

text \<open>An incoming order against its row.\<close>

definition taker_sound :: "identity set \<Rightarrow> string \<Rightarrow> EOrder \<Rightarrow> bool" where
  "taker_sound R sy x \<longleftrightarrow> (\<exists>side ty price. (eID x, sy, eUserID x, side, ty, price) \<in> R \<and>
     (side = SideBuy \<longleftrightarrow> eSide x = eSideBuy) \<and>
     (if ty = TypeLimit then eType x = eTypeLimit \<and> ePrice x = price else eType x = eTypeMarket))"

lemma resting_sound_mono: "resting_sound R sy x \<Longrightarrow> R \<subseteq> R' \<Longrightarrow> resting_sound R' sy x"
  unfolding resting_sound_def by blast

lemma registry_sound_mono: "registry_sound R mgr \<Longrightarrow> R \<subseteq> R' \<Longrightarrow> registry_sound R' mgr"
  unfolding registry_sound_def book_sound_def by (fast intro: resting_sound_mono)

lemma resting_sound_same:
  "resting_sound R sy x \<Longrightarrow> eID y = eID x \<Longrightarrow> eUserID y = eUserID x \<Longrightarrow> ePrice y = ePrice x \<Longrightarrow>
   eSide y = eSide x \<Longrightarrow> resting_sound R sy y"
  by (simp add: resting_sound_def)

lemma set_put_engine: "set (put_engine mgr s e) \<subseteq> insert (s, e) (set mgr)"
  unfolding put_engine_def by (induction mgr) auto

lemma registry_sound_put: "registry_sound R mgr \<Longrightarrow> book_sound R s e \<Longrightarrow> registry_sound R (put_engine mgr s e)"
  unfolding registry_sound_def using set_put_engine [of mgr s e] by blast

lemma book_sound_new: "book_sound R s (NewEngine s)"
  by (simp add: book_sound_def NewEngine_def NewOrderBook_def)

lemma registry_sound_GetEngine:
  assumes "registry_sound R mgr" and "GetEngine mgr s = (mgr', e)"
  shows "registry_sound R mgr' \<and> book_sound R s e"
proof (cases "map_of mgr s")
  case None
  with assms registry_sound_put [OF assms(1) book_sound_new] book_sound_new show ?thesis
    by (auto simp: GetEngine_def Let_def)
next
  case (Some e0)
  from map_of_SomeD [OF Some] assms Some show ?thesis by (auto simp: GetEngine_def registry_sound_def)
qed

lemma book_sound_AddOrder: "book_sound R s e \<Longrightarrow> resting_sound R s x \<Longrightarrow> book_sound R s (AddOrder e x)"
  by (auto simp: book_sound_def AddOrder_def)

lemma splice_order_subset: "set (fst (splice_order oid xs)) \<subseteq> set xs"
  by (induction xs) (auto split: prod.splits)

lemma book_sound_Cancel: "book_sound R s e \<Longrightarrow> book_sound R s (fst (Cancel e oid side))"
  using splice_order_subset [of oid "bids e"] splice_order_subset [of oid "asks e"]
  by (auto simp: book_sound_def Cancel_def RemoveOrder_def split: prod.splits)

section \<open>Matching\<close>

lemma stay_sound:
  assumes "\<forall>x \<in> set ms. resting_sound R s x \<and> P (eSide x)" and "y \<in> set (stay (fill u ok q ms))"
  shows "resting_sound R s y \<and> P (eSide y)"
proof -
  from fill_stay_from [OF assms(2)] obtain m where "m \<in> set ms" "eID y = eID m" "ePrice y = ePrice m"
    "eUserID y = eUserID m" "eSide y = eSide m" by blast
  with assms(1) resting_sound_same [of R s m y] show ?thesis by simp
qed

lemma Process_book_sound:
  assumes "Process ids clk e order = (e', order', ts)" and "book_sound R s e" and "taker_sound R s order"
  shows "book_sound R s e'"
proof -
  obtain fs r ms where f: "sweep e order = (fs, r, ms)" by (cases "sweep e order")
  have rest: "resting_sound R s (order\<lparr>eQuantity := r\<rparr>)" if "eType order \<noteq> eTypeMarket"
    using assms(3) that by (auto simp: taker_sound_def resting_sound_def split: if_splits)
  have ms: "ms = stay (fill (eUserID order) (accepts order) (eQuantity order) (opposite e order))"
    using f by (simp add: sweep_def)
  have stay: "\<forall>y \<in> set ms. resting_sound R s y \<and> eSide y \<noteq> eSideBuy" if "eSide order = eSideBuy"
  proof
    fix y assume y: "y \<in> set ms"
    have "\<forall>x \<in> set (opposite e order). resting_sound R s x \<and> eSide x \<noteq> eSideBuy"
      using assms(2) that by (simp add: opposite_def book_sound_def)
    from stay_sound [OF this y [unfolded ms]] show "resting_sound R s y \<and> eSide y \<noteq> eSideBuy" .
  qed
  have stay': "\<forall>y \<in> set ms. resting_sound R s y \<and> eSide y = eSideBuy" if "eSide order \<noteq> eSideBuy"
  proof
    fix y assume y: "y \<in> set ms"
    have "\<forall>x \<in> set (opposite e order). resting_sound R s x \<and> eSide x = eSideBuy"
      using assms(2) that by (simp add: opposite_def book_sound_def)
    from stay_sound [OF this y [unfolded ms]] show "resting_sound R s y \<and> eSide y = eSideBuy" .
  qed
  show ?thesis
  proof (cases "eSide order = eSideBuy")
    case True
    with stay assms(2) have "book_sound R s (e\<lparr>asks := ms\<rparr>)" by (simp add: book_sound_def)
    with Process_buy [OF True f [unfolded sweep_buy [OF True]], of ids clk] assms(1) rest show ?thesis
      by (auto intro: book_sound_AddOrder split: if_splits)
  next
    case False
    with stay' assms(2) have "book_sound R s (e\<lparr>bids := ms\<rparr>)" by (simp add: book_sound_def)
    with Process_sell [OF False f [unfolded sweep_sell [OF False]], of ids clk] assms(1) rest show ?thesis
      by (auto intro: book_sound_AddOrder split: if_splits)
  qed
qed

lemma Process_trade_sound:
  assumes "Process ids clk e order = (e', order', ts)" and "book_sound R s e" and "taker_sound R s order"
    and "t \<in> set ts"
  shows "trade_sound R t \<and> tTakerOrderID t = eID order"
proof -
  have "t \<in> set (trades_of ids clk (obSymbol e) (eID order) 0 (fills (sweep e order)))"
    using Process_trades [of ids clk e order] assms(1,4) by simp
  from trades_of_member [OF this] obtain m x i where m: "(m, x) \<in> set (fills (sweep e order))"
    and t: "t = new_trade ids clk s (eID order) m x i"
    using assms(2) by (auto simp: book_sound_def)
  from fill_trades_accepted [OF m [unfolded sweep_def]] have acc: "m \<in> set (opposite e order)"
    "eUserID m \<noteq> eUserID order" "accepts order m" by auto
  from acc(1) assms(2) have rm: "resting_sound R s m" and side: "(eSide m = eSideBuy) \<noteq> (eSide order = eSideBuy)"
    by (auto simp: book_sound_def opposite_def split: if_splits)
  from rm obtain sm where sm: "(eID m, s, eUserID m, sm, TypeLimit, ePrice m) \<in> R" "sm = SideBuy \<longleftrightarrow> eSide m = eSideBuy"
    by (auto simp: resting_sound_def)
  from assms(3) obtain so ty p where so: "(eID order, s, eUserID order, so, ty, p) \<in> R"
    "so = SideBuy \<longleftrightarrow> eSide order = eSideBuy"
    "if ty = TypeLimit then eType order = eTypeLimit \<and> ePrice order = p else eType order = eTypeMarket"
    by (auto simp: taker_sound_def)
  have "ty = TypeLimit \<longrightarrow> (if so = SideBuy then ePrice m \<le> p else p \<le> ePrice m)"
    using acc(3) so(2,3) by (auto simp: accepts_def accepts_buy_def accepts_sell_def split: if_splits)
  moreover have "(sm = SideBuy) \<noteq> (so = SideBuy)" using side sm(2) so(2) by simp
  moreover have t': "tMakerOrderID t = eID m" "tTakerOrderID t = eID order" "tSymbol t = s" "tPrice t = ePrice m"
    by (simp_all add: t new_trade_def)
  ultimately have "trade_sound R t"
    unfolding trade_sound_def t' using sm(1) so(1) acc(2)
    by (intro exI [of _ "eUserID m"] exI [of _ "eUserID order"] exI [of _ sm] exI [of _ so] exI [of _ ty] exI [of _ p]) simp
  with t'(2) show ?thesis by simp
qed

lemma placed_taker_sound:
  "placed_sound R ev \<Longrightarrow> taker_sound R (opSymbol ev) (convertToMatchingOrder ev)"
  unfolding taker_sound_def placed_sound_def
  by (rule exI [of _ "opSide ev"], rule exI [of _ "opType ev"], rule exI [of _ "opPrice ev"])
    (auto simp: convertToMatchingOrder_def NewOrder_def NewMarketOrder_def Let_def)

lemma process_event_sound:
  assumes "process_event ev m = (eng, matchOrder, ts, m1)" and "registry_sound R (engineManager m)" and "placed_sound R ev"
  shows "registry_sound R (engineManager m1)"
    and "event_sound R (settlement_event ev matchOrder ts tok)"
proof -
  obtain ids clk where P: "Process ids clk (snd (GetEngine (engineManager m) (opSymbol ev))) (convertToMatchingOrder ev)
      = (eng, matchOrder, ts)"
    and m1: "engineManager m1 = put_engine (fst (GetEngine (engineManager m) (opSymbol ev))) (opSymbol ev) eng"
    using process_event_Process [OF assms(1)] by blast
  note g = registry_sound_GetEngine [OF assms(2) prod.collapse [symmetric], of "opSymbol ev"]
  note tk = placed_taker_sound [OF assms(3)]
  show "registry_sound R (engineManager m1)"
    unfolding m1 using g Process_book_sound [OF P _ tk] by (blast intro: registry_sound_put)
  show "event_sound R (settlement_event ev matchOrder ts tok)"
    using g Process_trade_sound [OF P _ tk]
    by (auto simp: event_sound_def settlement_event_def request_sound_def)
qed

section \<open>What the consumer puts on the log\<close>

abbreviation sound_events :: "identity set \<Rightarrow> event set" where
  "sound_events R \<equiv> {e. event_sound R e}"

lemma publish_retry_grows:
  assumes "publish_retry stop topic key e s = Some (r, s')" and "event_sound R e"
  shows "grows (sound_events R) s s'"
  using publish_retry_Some [OF assms(1)] assms(2) unfolding retried_def grows_def by fastforce

lemma publish_each_grows:
  assumes "publish_each stop topic key es s = Some (r, s')" and "\<forall>e \<in> set es. event_sound R e"
  shows "grows (sound_events R) s s'"
  using assms
proof (induction es arbitrary: s)
  case (Cons e es)
  then obtain r1 s1 where p: "publish_retry stop topic key e s = Some (r1, s1)"
    by (auto split: option.splits)
  have 1: "grows (sound_events R) s s1" using publish_retry_grows [OF p] Cons.prems(2) by simp
  show ?case
  proof (cases r1)
    case (Inl err)
    with Cons.prems(1) p 1 show ?thesis by simp
  next
    case (Inr u)
    with Cons p have "grows (sound_events R) s1 s'" by simp
    with 1 show ?thesis by (rule grows_trans)
  qed
qed auto

lemma OnOrderBookUpdate_grows:
  fixes m :: Matching
  shows "engineManager (OnOrderBookUpdate sub symbol sn m) = engineManager m \<and>
    db (sess (OnOrderBookUpdate sub symbol sn m)) = db (sess m) \<and>
    grows (sound_events R) (sess m) (sess (OnOrderBookUpdate sub symbol sn m))"
proof -
  obtain tok s1 where tok: "load_token sub (sess m) = (tok, s1)" by (cases "load_token sub (sess m)")
  let ?sn = "sn\<lparr>snFencingToken := tok\<rparr>"
  obtain r st0 t0 where set0: "SetOrderBookSnapshot ?sn (store m, s1) = (r, st0, t0)"
    by (cases "SetOrderBookSnapshot ?sn (store m, s1)") auto
  then have 2: "kafka t0 = kafka s1"
    by (auto simp: SetOrderBookSnapshot_def Let_def split: if_splits prod.splits)
  define s2 where "s2 = (if subCache sub then t0 else s1)"
  let ?e = "EvOrderBookUpdated \<lparr>obuEventType = EventOrderBookUpdated, obuSymbol = symbol, obuSnapshot = Some ?sn\<rparr>"
  obtain q t where p: "Publish TopicOrderBook symbol ?e s2 = (q, t)" by (cases "Publish TopicOrderBook symbol ?e s2")
  have "kafka s2 = kafka (sess m)" using 2 tok by (auto simp: s2_def load_token_def)
  moreover have "grows (sound_events R) s2 t"
    using Publish_grows [OF p] by (auto intro: grows_mono simp: event_sound_def)
  moreover have "sess (OnOrderBookUpdate sub symbol sn m) = (if subBus sub then t else s2)"
    using p by (cases "subCache sub") (simp_all add: OnOrderBookUpdate_def tok set0 Let_def s2_def)
  ultimately have "grows (sound_events R) (sess m) (sess (OnOrderBookUpdate sub symbol sn m))"
    by (auto simp: grows_def)
  with OnOrderBookUpdate_effect [OF refl, of sub symbol sn m] show ?thesis by simp
qed

lemma publish_settlement_grows:
  assumes "publish_settlement sub ev matchOrder ts s = Some (r, s')"
    and "\<And>tok. event_sound R (settlement_event ev matchOrder ts tok)"
  shows "grows (sound_events R) s s'"
proof -
  let ?tok = "subToken sub (calls s)" and ?s1 = "s\<lparr>calls := Suc (calls s)\<rparr>"
  obtain r1 s2 where p: "publish_retry (ctxDone sub) TopicSettlements (opSymbol ev)
      (settlement_event ev matchOrder ts ?tok) ?s1 = Some (r1, s2)"
    using assms(1) by (auto simp: publish_settlement_def load_token_def split: option.splits)
  have 1: "grows (sound_events R) s s2"
    using publish_retry_grows [OF p assms(2)] by (simp add: grows_def)
  have trades: "\<forall>e \<in> set (map (trade_event (opSymbol ev)) ts). event_sound R e"
    by (auto simp: event_sound_def trade_event_def)
  show ?thesis
  proof (cases r1)
    case (Inl e)
    with assms(1) p 1 show ?thesis by (simp add: publish_settlement_def load_token_def)
  next
    case (Inr u)
    with assms(1) p have "publish_each (ctxDone sub) TopicTrades (opSymbol ev) (map (trade_event (opSymbol ev)) ts) s2 = Some (r, s')"
      by (simp add: publish_settlement_def load_token_def)
    from grows_trans [OF 1 publish_each_grows [OF this trades]] show ?thesis .
  qed
qed

text \<open>A session of the matching service with a sound registry and a log that grew by sound events.\<close>

definition stays_sound :: "identity set \<Rightarrow> Matching \<Rightarrow> Matching \<Rightarrow> bool" where
  "stays_sound R m m' \<longleftrightarrow> registry_sound R (engineManager m') \<and> grows (sound_events R) (sess m) (sess m')"

lemma OnOrderBookUpdate_sound:
  "stays_sound R m m' \<Longrightarrow> stays_sound R m (OnOrderBookUpdate sub symbol sn m')"
  using OnOrderBookUpdate_grows [of sub symbol sn m' R] unfolding stays_sound_def by (auto intro: grows_trans)

lemma handleOrderPlaced_sound:
  assumes "handleOrderPlaced sub ev m = Some (r, m')" and "registry_sound R (engineManager m)" and "placed_sound R ev"
  shows "stays_sound R m m'"
proof -
  obtain eng mo ts m1 where p: "process_event ev m = (eng, mo, ts, m1)" by (rule prod_cases4)
  note snd = process_event_sound [OF p assms(2,3)]
  have m1: "stays_sound R m m1"
    using snd(1) process_event_effect(2) [OF p] by (auto simp: stays_sound_def)
  show ?thesis
  proof (cases "needsSettlement ev mo ts \<and> subBus sub")
    case False
    with assms(1) p have "m' = OnOrderBookUpdate sub (opSymbol ev) (GetOrderBookSnapshot eng 20) m1"
      by (auto simp: handleOrderPlaced_def)
    with OnOrderBookUpdate_sound [OF m1] show ?thesis by simp
  next
    case True
    then obtain r1 s2 where q: "publish_settlement sub ev mo ts (sess m1) = Some (r1, s2)"
      using assms(1) p by (auto simp: handleOrderPlaced_def split: option.splits)
    have m2: "stays_sound R m (m1\<lparr>sess := s2\<rparr>)"
      using m1 publish_settlement_grows [OF q snd(2)] by (auto simp: stays_sound_def intro: grows_trans)
    show ?thesis
    proof (cases r1)
      case (Inl e)
      with assms(1) p q True m2 show ?thesis by (auto simp: handleOrderPlaced_def)
    next
      case (Inr u)
      with assms(1) p q True have "m' = OnOrderBookUpdate sub (opSymbol ev) (GetOrderBookSnapshot eng 20) (m1\<lparr>sess := s2\<rparr>)"
        by (auto simp: handleOrderPlaced_def)
      with OnOrderBookUpdate_sound [OF m2] show ?thesis by simp
    qed
  qed
qed

lemma handleOrderCancelRequested_sound:
  assumes "handleOrderCancelRequested sub ev m = Some (r, m')" and "registry_sound R (engineManager m)"
  shows "stays_sound R m m'"
proof -
  let ?side = "if crSide ev = SideBuy then eSideBuy else eSideSell"
  obtain mgr0 e0 where g: "GetEngine (engineManager m) (crSymbol ev) = (mgr0, e0)"
    by (cases "GetEngine (engineManager m) (crSymbol ev)")
  obtain e' canceled where c: "Cancel e0 (crOrderID ev) ?side = (e', canceled)"
    by (cases "Cancel e0 (crOrderID ev) ?side")
  let ?m1 = "m\<lparr>engineManager := put_engine mgr0 (crSymbol ev) e'\<rparr>"
  have "book_sound R (crSymbol ev) e'"
    using book_sound_Cancel [of R "crSymbol ev" e0 "crOrderID ev" ?side] registry_sound_GetEngine [OF assms(2) g] c by simp
  then have m1: "stays_sound R m ?m1"
    using registry_sound_GetEngine [OF assms(2) g] by (auto simp: stays_sound_def intro: registry_sound_put)
  let ?sn = "GetOrderBookSnapshot e' 20"
  show ?thesis
  proof (cases "canceled \<and> subBus sub")
    case False
    with assms(1) g c have "m' = ?m1 \<or> m' = OnOrderBookUpdate sub (crSymbol ev) ?sn ?m1"
      unfolding handleOrderCancelRequested_def by (auto simp: Let_def split: if_splits)
    with m1 OnOrderBookUpdate_sound [OF m1, of sub "crSymbol ev" ?sn] show ?thesis by auto
  next
    case True
    let ?e = "canceled_event ev (subToken sub (calls (sess m)))" and ?s1 = "(sess m)\<lparr>calls := Suc (calls (sess m))\<rparr>"
    obtain r1 s2 where p: "publish_retry (ctxDone sub) TopicSettlements (crSymbol ev) ?e ?s1 = Some (r1, s2)"
      and m': "m' = ?m1\<lparr>sess := s2\<rparr> \<or> m' = OnOrderBookUpdate sub (crSymbol ev) ?sn (?m1\<lparr>sess := s2\<rparr>)"
      using assms(1) g c True unfolding handleOrderCancelRequested_def
      by (auto simp: Let_def load_token_def split: if_splits option.splits sum.splits)
    have "event_sound R ?e" by (simp add: event_sound_def canceled_event_def)
    from publish_retry_grows [OF p this] m1 have m2: "stays_sound R m (?m1\<lparr>sess := s2\<rparr>)"
      by (simp add: stays_sound_def grows_def)
    with m' OnOrderBookUpdate_sound [OF m2, of sub "crSymbol ev" ?sn] show ?thesis by auto
  qed
qed

lemma matching_consumer_sound:
  assumes "matching_consumer sub value m = Some (r, m')" and "registry_sound R (engineManager m)" and "event_sound R value"
  shows "stays_sound R m m' \<and> db (sess m') = db (sess m)"
proof
  note run = assms(1) [unfolded matching_consumer_def]
  show "db (sess m') = db (sess m)" using MatchingHandleEvents_run [OF run] by blast
  let ?m1 = "m\<lparr>sess := (sess m)\<lparr>calls := Suc (calls (sess m))\<rparr>\<rparr>"
  have m1: "stays_sound R m ?m1" using assms(2) by (auto simp: stays_sound_def)
  have lift: "stays_sound R m m'" if "stays_sound R ?m1 m'" using that by (simp add: stays_sound_def grows_def)
  have h: "stays_sound R m m'" if "handleOrderPlaced sub ev ?m1 = Some (r, m')" "value = EvOrderPlaced ev" for ev
    using handleOrderPlaced_sound [OF that(1)] assms(2,3) that(2) by (auto simp: event_sound_def intro!: lift)
  have c: "stays_sound R m m'" if "handleOrderCancelRequested sub ev ?m1 = Some (r, m')" for ev
    using handleOrderCancelRequested_sound [OF that] assms(2) by (auto intro!: lift)
  show "stays_sound R m m'"
    using run m1 h c unfolding MatchingHandleEvents_def load_token_def Let_def prod.case as_placed_def as_cancel_requested_def
    by (auto split: if_splits sum.splits event.splits)
qed

section \<open>Elections\<close>

text \<open>The election writes the locks only.\<close>

definition but_locks :: "DB \<Rightarrow> DB" where
  "but_locks d = d\<lparr>locks := []\<rparr>"

lemma but_locks_update [simp]: "but_locks (d\<lparr>locks := ls\<rparr>) = but_locks d"
  by (simp add: but_locks_def)

lemma but_locks_advances:
  assumes "but_locks d' = but_locks d" and "tables_ok d"
  shows "advances d d' (\<lambda>_. 0) \<and> identities d' = identities d"
proof -
  have "users d' = users d" "accounts d' = accounts d" "orders d' = orders d" "trades d' = trades d" "outbox d' = outbox d"
    using assms(1) by (cases d; cases d'; simp add: but_locks_def)+
  with advances_outbox [OF assms(2) this(1-4)] show ?thesis by (simp add: identities_def)
qed

lemma frame_pool_stmt: "(\<And>d x d'. f d = Inr (x, d') \<Longrightarrow> p d' = p d) \<Longrightarrow> frame p (pool_stmt f)"
  unfolding frame_def pool_stmt_def by (auto simp: Let_def split: if_splits sum.splits prod.splits)

lemma election_frames:
  "frame but_locks (AcquireLock part i)" "frame but_locks (ExtendLease part i tok)" "frame but_locks (ReleaseLock part i)"
  unfolding AcquireLock_def ExtendLease_def ReleaseLock_def
  by (intro frames frame_pool_stmt;
      auto simp: upsert_lock_def extend_stmt_def release_stmt_def Let_def split: if_splits option.splits)+

lemma election_emits:
  "emits E (AcquireLock part i)" "emits E (ExtendLease part i tok)" "emits E (ReleaseLock part i)"
  unfolding AcquireLock_def ExtendLease_def ReleaseLock_def
  by (intro emitting)+

lemma restored_sound:
  assumes "dType x = TypeLimit" and "identity x \<in> R"
  shows "resting_sound R (dSymbol x) (restored_order x)"
  using assms unfolding resting_sound_def restored_order_def identity_def
  by (intro exI [of _ "dSide x"]) simp

lemma restore_sound:
  assumes "RestoreEngineSnapshot mgr s = (r, s')" and "registry_sound (identities (db s)) mgr"
  shows "db s' = db s \<and> kafka s' = kafka s \<and>
    (case r of Inl e \<Rightarrow> True | Inr mgr' \<Rightarrow> registry_sound (identities (db s)) mgr')"
proof -
  let ?R = "identities (db s)"
  have fold: "registry_sound ?R (fold restore_one os m)" if "registry_sound ?R m" "set os \<subseteq> set (orders (db s))" for os m
    using that
  proof (induction os arbitrary: m)
    case (Cons x os)
    have "registry_sound ?R (restore_one x m)"
    proof (cases "dType x = TypeLimit")
      case True
      obtain mgr' eng where g: "GetEngine m (dSymbol x) = (mgr', eng)" by (cases "GetEngine m (dSymbol x)")
      have "identity x \<in> ?R" using Cons.prems(2) by (simp add: identities_def)
      from book_sound_AddOrder [OF _ restored_sound [OF True this]] registry_sound_GetEngine [OF Cons.prems(1) g]
      show ?thesis using True g by (simp add: restore_one_def RestoreOrder_def registry_sound_put)
    qed (use Cons.prems(1) in \<open>simp add: restore_one_def\<close>)
    with Cons show ?case by simp
  qed simp
  have "emits {} (RestoreEngineSnapshot mgr)"
    unfolding RestoreEngineSnapshot_def GetActiveOrders_def by (intro emitting)
  from emitsD [OF this assms(1)] have k: "kafka s' = kafka s" by (simp add: grows_none)
  have "case r of Inl e \<Rightarrow> True | Inr mgr' \<Rightarrow> registry_sound ?R mgr'"
  proof (cases r)
    case (Inr mgr')
    with assms(1) obtain os where "mgr' = fold restore_one os mgr" "set os \<subseteq> set (orders (db s))"
      by (auto simp: RestoreEngineSnapshot_def GetActiveOrders_def bind_Inr_iff stmt_Inr_iff)
    with fold [OF assms(2)] Inr show ?thesis by simp
  qed simp
  with k RestoreEngineSnapshot_db [OF assms(1)] show ?thesis by simp
qed

lemma sync_sound:
  assumes "registry_sound R (engineManager m)"
  shows "stays_sound R m (snd (SyncRecoveredOrderBooks sub depth m))"
proof -
  have "stays_sound R m0 (fold (\<lambda>symbol m. let (mgr, eng) = GetEngine (engineManager m) symbol in
      OnOrderBookUpdate sub symbol (GetOrderBookSnapshot eng depth) (m\<lparr>engineManager := mgr\<rparr>)) xs m1)"
    if "stays_sound R m0 m1" for xs m0 m1
    using that
  proof (induction xs arbitrary: m1)
    case (Cons x xs)
    obtain mgr eng where g: "GetEngine (engineManager m1) x = (mgr, eng)" by (cases "GetEngine (engineManager m1) x")
    have "stays_sound R m0 (m1\<lparr>engineManager := mgr\<rparr>)"
      using Cons.prems registry_sound_GetEngine [OF _ g, of R] by (simp add: stays_sound_def)
    from OnOrderBookUpdate_sound [OF this] Cons.IH g show ?case by simp
  qed simp
  from this [of m m] assms show ?thesis by (auto simp: SyncRecoveredOrderBooks_def Let_def stays_sound_def)
qed

lemma onBecomeLeader_sound:
  assumes "onBecomeLeader cached e ((a, st), s) = ((a', st'), s')"
  shows "registry_sound (identities (db s)) (inEngines a') \<and> grows (sound_events (identities (db s))) s s'"
proof -
  let ?R = "identities (db s)"
  let ?a1 = "a\<lparr>inEngines := Reset (inEngines a), inToken := FencingToken e\<rparr>"
  obtain r s1 where r: "RestoreEngineSnapshot (inEngines ?a1) s = (r, s1)" by (cases "RestoreEngineSnapshot (inEngines ?a1) s")
  let ?sub = "\<lparr>subBus = True, subCache = cached, subToken = (\<lambda>_. inToken ?a1), ctxDone = (\<lambda>_. False)\<rparr>"
  let ?start = "\<lparr>engineManager = case r of Inl _ \<Rightarrow> inEngines ?a1 | Inr mgr \<Rightarrow> mgr, store = st,
      sess = s1\<lparr>calls := Suc (calls s1)\<rparr>\<rparr>"
  let ?m = "snd (SyncRecoveredOrderBooks ?sub 20 ?start)"
  have reset: "registry_sound ?R (inEngines ?a1)" by (simp add: registry_sound_def Reset_def)
  note rs = restore_sound [OF r reset]
  then have "registry_sound ?R (engineManager ?start)" using reset by (cases r) auto
  note sync = sync_sound [OF this, of ?sub 20, unfolded stays_sound_def]
  have m: "registry_sound ?R (engineManager ?m)" using sync by (rule conjunct1)
  have k: "grows (sound_events ?R) s (sess ?m)"
    by (rule grows_kafka [OF conjunct2 [OF sync]]) (use rs in simp_all)
  have "inEngines a' = engineManager ?m" "kafka s' = kafka (sess ?m)"
    using assms r by (auto simp: onBecomeLeader_def Let_def split: if_splits)
  with m k show ?thesis by (simp add: grows_def)
qed

lemma tick_sound:
  assumes "tick (onBecomeLeader cached) onLoseLeadership (e, (a, st), s) = (e', (a', st'), s')"
    and "registry_sound (identities (db s)) (inEngines a)"
  shows "but_locks (db s') = but_locks (db s) \<and> registry_sound (identities (db s)) (inEngines a') \<and>
    grows (sound_events (identities (db s))) s s'"
proof (cases "elLeader e")
  case True
  obtain r s1 where r: "ExtendLease (elPartition e) (elInstanceID e) (elToken e) s = (r, s1)"
    by (cases "ExtendLease (elPartition e) (elInstanceID e) (elToken e) s")
  have "s' = s1 \<and> inEngines a' = inEngines a"
    using assms(1) True r by (auto simp: tick_def onLoseLeadership_def Let_def split: sum.splits if_splits)
  with assms(2) frameD [OF election_frames(2) r] emitsD [OF election_emits(2) r] show ?thesis by simp
next
  case False
  obtain r s1 where r: "AcquireLock (elPartition e) (elInstanceID e) s = (r, s1)"
    by (cases "AcquireLock (elPartition e) (elInstanceID e) s")
  note f = frameD [OF election_frames(1) r] emitsD [OF election_emits(1) r]
  have ids: "identities (db s1) = identities (db s)"
    using f(1) by (cases "db s1"; cases "db s") (simp add: but_locks_def identities_def)
  show ?thesis
  proof (cases "\<exists>t. r = Inr (t, True)")
    case True
    then obtain t where t: "r = Inr (t, True)" ..
    with False assms(1) r have b: "onBecomeLeader cached e' ((a, st), s1) = ((a', st'), s')"
      by (auto simp: tick_def Let_def)
    from onBecomeLeader_effect [OF b] onBecomeLeader_sound [OF b] f show ?thesis
      unfolding ids by (auto intro: grows_trans)
  next
    case lost: False
    then have "a' = a \<and> s' = s1"
      using False assms(1) r by (auto simp: tick_def Let_def split: sum.splits if_splits)
    with f assms(2) show ?thesis by simp
  qed
qed

lemma shutdown_sound:
  assumes "shutdown (e, a, s) = ((e', a', s'), returns)"
  shows "but_locks (db s') = but_locks (db s) \<and> a' = a \<and> grows E s s'"
proof (cases "elLeader e")
  case True
  obtain r s1 where r: "ReleaseLock (elPartition e) (elInstanceID e) s = (r, s1)"
    by (cases "ReleaseLock (elPartition e) (elInstanceID e) s")
  with True assms have "s' = s1" "a' = a" by (auto simp: shutdown_def run_done_def)
  with frameD [OF election_frames(3) r] emitsD [OF election_emits(3) r] show ?thesis by simp
next
  case False
  with assms show ?thesis by (auto simp: shutdown_def run_done_def)
qed

end
