(* ===== verification/System_Correct.thy ===== *)
theory System_Correct
  imports System_Books
begin

text \<open>
  The invariant of the whole exchange and what follows from it: money is conserved end to end, and every
  recorded trade is a sound trade between two recorded orders, in every state any interleaving of the
  services can reach under any failures.
\<close>

section \<open>The invariant\<close>

definition exchange_ok :: "exchange \<Rightarrow> bool" where
  "exchange_ok X \<longleftrightarrow> tables_ok (tables X) \<and> (\<forall>c. total c (tables X) = exMinted X c) \<and>
     (\<forall>t \<in> set (trades (tables X)). trade_sound (identities (tables X)) t) \<and>
     (\<forall>m \<in> set (outbox (tables X)) \<union> set (exHot X). event_sound (identities (tables X)) (mPayload m)) \<and>
     (\<forall>(topic, key, e) \<in> set (broker X). event_sound (identities (tables X)) e) \<and>
     (\<forall>i e a. exNodes X i = Some (e, a) \<longrightarrow> registry_sound (identities (tables X)) (inEngines a))"

lemma exchange_okD:
  assumes "exchange_ok X"
  shows "tables_ok (tables X)"
    and "(topic, key, e) \<in> set (broker X) \<Longrightarrow> event_sound (identities (tables X)) e"
    and "m \<in> set (exHot X) \<Longrightarrow> event_sound (identities (tables X)) (mPayload m)"
    and "m \<in> set (outbox (tables X)) \<Longrightarrow> event_sound (identities (tables X)) (mPayload m)"
    and "exNodes X i = Some (el, a) \<Longrightarrow> registry_sound (identities (tables X)) (inEngines a)"
  using assms unfolding exchange_ok_def by auto

text \<open>Orders, trades and the log are histories: a step only appends to them.\<close>

definition extends :: "exchange \<Rightarrow> exchange \<Rightarrow> bool" where
  "extends X X' \<longleftrightarrow> (\<exists>os. map identity (orders (tables X')) = map identity (orders (tables X)) @ os) \<and>
     (\<exists>ts. trades (tables X') = trades (tables X) @ ts) \<and> (\<exists>rs. broker X' = broker X @ rs)"

lemma extends_refl: "extends X X"
  by (simp add: extends_def)

lemma extends_trans: "extends X Y \<Longrightarrow> extends Y Z \<Longrightarrow> extends X Z"
  by (auto simp: extends_def)

text \<open>Every step advances the tables, adds sound events to the log and keeps the books sound.\<close>

lemma exchange_okI:
  assumes "exchange_ok X" and "advances (tables X) (tables X') money"
    and "grows (sound_events (identities (tables X'))) (exSess X) (exSess X')"
    and "\<And>c. exMinted X' c = exMinted X c + money c"
    and "\<And>m. m \<in> set (exHot X') \<Longrightarrow> m \<in> set (exHot X) \<or> event_sound (identities (tables X')) (mPayload m)"
    and "\<And>i e a. exNodes X' i = Some (e, a) \<Longrightarrow>
      exNodes X i = Some (e, a) \<or> registry_sound (identities (tables X')) (inEngines a)"
  shows "exchange_ok X' \<and> extends X X'"
  unfolding exchange_ok_def
proof (intro conjI)
  show "extends X X'"
    using assms(2,3) unfolding extends_def advances_def grows_def by blast
  let ?R = "identities (tables X)" and ?R' = "identities (tables X')"
  have sub: "?R \<subseteq> ?R'" by (rule advances_identities [OF assms(2)])
  have ok: "tables_ok (tables X')" using assms(2) by (simp add: advances_def)
  show "tables_ok (tables X')" by (rule ok)
  show "\<forall>c. total c (tables X') = exMinted X' c"
    using assms(1,2,4) by (simp add: advances_def exchange_ok_def)
  show "\<forall>t \<in> set (trades (tables X')). trade_sound ?R' t"
    using assms(1,2) trade_sound_mono [OF _ sub] unfolding advances_def exchange_ok_def by auto
  have ob: "event_sound ?R' (mPayload m)" if m: "m \<in> set (outbox (tables X'))" for m
  proof -
    from m assms(2) have "mPayload m \<in> mPayload ` set (outbox (tables X)) \<or> event_sound ?R' (mPayload m)"
      by (simp add: advances_def)
    with exchange_okD(4) [OF assms(1)] event_sound_mono [OF _ sub] show ?thesis by force
  qed
  with assms(5) exchange_okD(3) [OF assms(1)] event_sound_mono [OF _ sub]
  show "\<forall>m \<in> set (outbox (tables X')) \<union> set (exHot X'). event_sound ?R' (mPayload m)" by blast
  from assms(3) obtain rs where "broker X' = broker X @ rs" "\<forall>(t, k, e) \<in> set rs. event_sound ?R' e"
    by (auto simp: grows_def)
  with exchange_okD(2) [OF assms(1)] event_sound_mono [OF _ sub]
  show "\<forall>(topic, key, e) \<in> set (broker X'). event_sound ?R' e" by fastforce
  show "\<forall>i e a. exNodes X' i = Some (e, a) \<longrightarrow> registry_sound ?R' (inEngines a)"
    using assms(6) exchange_okD(5) [OF assms(1)] registry_sound_mono [OF _ sub] by blast
qed

text \<open>A step of the order service, its outbox or its settlement consumer leaves the nodes alone.\<close>

lemma exchange_ok_service:
  fixes b :: Batcher
  assumes "exchange_ok X" and "advances (tables X) (db s') money"
    and "grows (sound_events (identities (db s'))) (exSess X) s'"
    and "\<And>m. m \<in> set hot \<Longrightarrow> m \<in> set (exHot X) \<or> event_sound (identities (db s')) (mPayload m)"
  defines "X' \<equiv> X\<lparr>exSess := s', exHot := hot, exBatcher := b, exMinted := (\<lambda>c. exMinted X c + money c)\<rparr>"
  shows "exchange_ok X' \<and> extends X X'"
  using assms by (intro exchange_okI [OF assms(1), where money = money]) (simp_all add: X'_def)

text \<open>A step of an instance writes at most the locks.\<close>

lemma exchange_ok_instance:
  fixes st' :: redis and i :: string and e' :: Elector
  assumes "exchange_ok X" and "but_locks (db s') = but_locks (tables X)"
    and "grows (sound_events (identities (tables X))) (exSess X) s'"
    and "registry_sound (identities (tables X)) (inEngines a')"
  defines "X' \<equiv> X\<lparr>exSess := s', exStore := st', exNodes := (exNodes X)(i \<mapsto> (e', a'))\<rparr>"
  shows "exchange_ok X' \<and> extends X X'"
proof -
  note adv = but_locks_advances [OF assms(2) exchange_okD(1) [OF assms(1)]]
  show ?thesis
    using assms(3,4) adv
    by (intro exchange_okI [OF assms(1), where money = "\<lambda>_. 0"]) (auto simp: X'_def split: if_splits)
qed

lemma exchange_ok_same:
  assumes "exchange_ok X" and "tables X' = tables X" "broker X' = broker X" "exMinted X' = exMinted X"
    and "set (exHot X') \<subseteq> set (exHot X)"
    and "\<And>i e a. exNodes X' i = Some (e, a) \<Longrightarrow> exNodes X i = Some (e, a) \<or> inEngines a = []"
  shows "exchange_ok X' \<and> extends X X'"
proof (rule exchange_okI [OF assms(1), where money = "\<lambda>_. 0"])
  show "advances (tables X) (tables X') (\<lambda>_. 0)"
    unfolding assms(2) by (rule advances_refl) (rule exchange_okD(1) [OF assms(1)])
  show "exNodes X i = Some (e, a) \<or> registry_sound (identities (tables X')) (inEngines a)"
    if "exNodes X' i = Some (e, a)" for i e a
    using assms(6) [OF that] by (auto simp: registry_sound_def)
qed (use assms(3-5) in auto)

section \<open>Every step keeps it\<close>

lemma exchange_step_ok:
  assumes "exchange_step ustr rnd cached X X'" and "exchange_ok X" and "uuid_text ustr"
  shows "exchange_ok X' \<and> extends X X'"
  using assms(1)
proof cases
  case (weather s')
  then show ?thesis by (intro exchange_ok_same [OF assms(2)]) auto
next
  case (place svc order r s')
  note a = PlaceOrder_advances [OF place(2) exchange_okD(1) [OF assms(2)]]
  note g = emitsD [OF order_service_emits(1) place(2)]
  from exchange_ok_service [OF assms(2) conjunct1 [OF a] g, of "exHot X @ handed svc r" "exBatcher X"] a
  show ?thesis unfolding place(1) by auto
next
  case (place_batch svc os r s')
  note a = BatchPlaceOrders_advances [OF place_batch(2) exchange_okD(1) [OF assms(2)]]
  note g = emitsD [OF order_service_emits(2) place_batch(2)]
  from exchange_ok_service [OF assms(2) conjunct1 [OF a] g, of "exHot X @ handed svc r" "exBatcher X"] a
  show ?thesis unfolding place_batch(1) by auto
next
  case (cancel svc orderID userID r s')
  note a = CancelOrder_advances [OF cancel(2) exchange_okD(1) [OF assms(2)]]
  note g = emitsD [OF order_service_emits(3) cancel(2)]
  from exchange_ok_service [OF assms(2) conjunct1 [OF a] g,
      of "exHot X @ handed svc (map_sum id (Pair ()) r)" "exBatcher X"] a
  show ?thesis unfolding cancel(1) by auto
next
  case (register r s')
  note a = register_advances [OF register(2) exchange_okD(1) [OF assms(2)]]
  note g = emitsD [OF order_service_emits(4) register(2)]
  from exchange_ok_service [OF assms(2) a g, of "exHot X" "exBatcher X"] show ?thesis unfolding register(1) by auto
next
  case (recharge userID r s')
  note a = recharge_advances [OF recharge(2) exchange_okD(1) [OF assms(2)]]
  note g = emitsD [OF order_service_emits(5) recharge(2)]
  from exchange_ok_service [OF assms(2) a g, of "exHot X" "exBatcher X"] show ?thesis unfolding recharge(1) by auto
next
  case (hot msg b' s')
  note h = hot_path_grows [OF hot(3)]
  have sound: "event_sound (identities (tables X)) (mPayload msg)" by (rule exchange_okD(3) [OF assms(2) hot(2)])
  have g: "grows (sound_events (identities (db s'))) (exSess X) s'"
    by (rule grows_mono [OF conjunct2 [OF h]]) (use h sound in auto)
  have a: "advances (tables X) (db s') (\<lambda>_. 0)" using h exchange_okD(1) [OF assms(2)] by auto
  from exchange_ok_service [OF assms(2) a g, of "remove1 msg (exHot X)" b'] show ?thesis
    unfolding hot(1) using set_remove1_subset [of msg "exHot X"] by auto
next
  case (receive b' s')
  note a = worker_receive_advances [OF receive(2) exchange_okD(1) [OF assms(2)]]
  from exchange_ok_service [OF assms(2) conjunct1 [OF a] conjunct2 [OF a], where hot = "exHot X" and b = b']
  show ?thesis unfolding receive(1) by auto
next
  case (flush b' s')
  note a = flushBatch_advances [OF flush(2) [unfolded worker_tick_def] exchange_okD(1) [OF assms(2)]]
  from exchange_ok_service [OF assms(2) conjunct1 [OF a] conjunct2 [OF a], where hot = "exHot X" and b = b']
  show ?thesis unfolding flush(1) by auto
next
  case (work w)
  note a = process_advances [OF exchange_okD(1) [OF assms(2)], of w]
  have sub: "identities (tables X) \<subseteq> identities (db (process w (exSess X)))" using a by (blast dest: advances_identities)
  have g: "grows (sound_events (identities (db (process w (exSess X))))) (exSess X) (process w (exSess X))"
    by (rule grows_mono [OF conjunct2 [OF a]]) (use exchange_okD(4) [OF assms(2)] event_sound_mono [OF _ sub] in auto)
  from exchange_ok_service [OF assms(2) conjunct1 [OF a] g, of "exHot X" "exBatcher X"] show ?thesis unfolding work by auto
next
  case (settle key v)
  note a = settlement_consumer_advances [OF exchange_okD(1) [OF assms(2)] assms(3) exchange_okD(2) [OF assms(2) settle(2)]]
  from exchange_ok_service [OF assms(2) conjunct1 [OF a] conjunct2 [OF a], where hot = "exHot X" and b = "exBatcher X"]
  show ?thesis unfolding settle(1) by auto
next
  case order_service_crash
  then show ?thesis by (intro exchange_ok_same [OF assms(2)]) auto
next
  case (join i)
  then show ?thesis
    by (intro exchange_ok_same [OF assms(2)]) (auto simp: new_instance_def NewEngineManager_def split: if_splits)
next
  case (elect i e a e' a' st' s')
  from tick_sound [OF elect(3) exchange_okD(5) [OF assms(2) elect(2)]] show ?thesis
    unfolding elect(1) by (intro exchange_ok_instance [OF assms(2)]) auto
next
  case (stop i e a e' a' s' returns)
  from shutdown_sound [OF stop(3)] exchange_okD(5) [OF assms(2) stop(2)]
    exchange_ok_instance [OF assms(2), where s' = s' and a' = a' and st' = "exStore X" and i = i and e' = e'] show ?thesis
    unfolding stop(1) by auto
next
  case (crash i)
  then show ?thesis by (intro exchange_ok_same [OF assms(2)]) (auto split: if_splits)
next
  case (consume i e a key v sub r m')
  have reg: "registry_sound (identities (tables X))
      (engineManager \<lparr>engineManager = inEngines a, store = exStore X, sess = exSess X\<rparr>)"
    using exchange_okD(5) [OF assms(2) consume(2)] by simp
  note c = matching_consumer_sound [OF consume(4) reg exchange_okD(2) [OF assms(2) consume(3)]]
  show ?thesis
    unfolding consume(1)
    by (rule exchange_ok_instance [OF assms(2)]) (use c in \<open>simp_all add: stays_sound_def\<close>)
qed

lemma exchange_invariant:
  assumes "exchange_reachable ustr rnd cached X" and "uuid_text ustr"
  shows "exchange_ok X"
  using assms(1)
proof (induction rule: exchange_reachable.induct)
  case (boot s st)
  then show ?case
    by (simp add: exchange_ok_def new_exchange_def fresh_tables_def tables_ok_def skeleton_ok_def skeleton_def
        accounts_ok_def total_def)
next
  case (step X X')
  show ?case by (rule conjunct1 [OF exchange_step_ok [OF step.hyps(2) step.IH assms(2)]])
qed

section \<open>What the exchange guarantees\<close>

text \<open>A sound trade, seen from the rows.\<close>

lemma trade_sound_rows:
  assumes "trade_sound (identities d) t"
  shows "\<exists>maker \<in> set (orders d). \<exists>taker \<in> set (orders d).
    dID maker = tMakerOrderID t \<and> dID taker = tTakerOrderID t \<and>
    dSymbol maker = tSymbol t \<and> dSymbol taker = tSymbol t \<and> dUserID maker \<noteq> dUserID taker \<and>
    (dSide maker = SideBuy) \<noteq> (dSide taker = SideBuy) \<and> dType maker = TypeLimit \<and> tPrice t = dPrice maker \<and>
    (dType taker = TypeLimit \<longrightarrow>
       (if dSide taker = SideBuy then tPrice t \<le> dPrice taker else dPrice taker \<le> tPrice t))"
proof -
  from assms obtain u u' side side' ty price where
    R: "(tMakerOrderID t, tSymbol t, u, side, TypeLimit, tPrice t) \<in> identities d"
      "(tTakerOrderID t, tSymbol t, u', side', ty, price) \<in> identities d" and
    c: "u \<noteq> u'" "(side = SideBuy) \<noteq> (side' = SideBuy)"
      "ty = TypeLimit \<longrightarrow> (if side' = SideBuy then tPrice t \<le> price else price \<le> tPrice t)"
    unfolding trade_sound_def by blast
  from R(1) obtain x where
    x: "(tMakerOrderID t, tSymbol t, u, side, TypeLimit, tPrice t) = identity x" "x \<in> set (orders d)"
    unfolding identities_def by (rule imageE)
  from R(2) obtain y where
    y: "(tTakerOrderID t, tSymbol t, u', side', ty, price) = identity y" "y \<in> set (orders d)"
    unfolding identities_def by (rule imageE)
  have fx: "dID x = tMakerOrderID t" "dSymbol x = tSymbol t" "dUserID x = u" "dSide x = side" "dType x = TypeLimit"
    "dPrice x = tPrice t" and
    fy: "dID y = tTakerOrderID t" "dSymbol y = tSymbol t" "dUserID y = u'" "dSide y = side'" "dType y = ty" "dPrice y = price"
    using x(1) y(1) by (simp_all add: identity_def)
  show ?thesis
    by (rule bexI [OF _ x(2)], rule bexI [OF _ y(2)]) (simp only: fx fy c(1,2) simp_thms refl, rule c(3))
qed

lemma reachable_conserves_money:
  assumes "exchange_reachable ustr rnd cached X" and "uuid_text ustr"
  shows "accounts_ok (tables X) \<and> (\<forall>c. total c (tables X) = exMinted X c)"
  using exchange_invariant [OF assms] by (simp add: exchange_ok_def tables_ok_def)

lemma reachable_trade_sound:
  assumes "exchange_reachable ustr rnd cached X" and "uuid_text ustr" and "t \<in> set (trades (tables X))"
  shows "trade_sound (identities (tables X)) t"
  using exchange_invariant [OF assms(1,2)] assms(3) by (simp add: exchange_ok_def)

text \<open>
  C1: the exchange conserves money, end to end. In every state that any interleaving of order requests,
  registrations, recharges, the outbox, the settlement consumer and any number of matching engine
  instances can reach from empty tables, with records redelivered and reordered, statements failing,
  acknowledgements lost, instances crashing and leaders changing at any point, no account is negative,
  no user has two accounts of a currency, and the total of every currency over all accounts is exactly what
  registrations and recharges have put in.
\<close>

theorem exchange_conserves_money:
  assumes "exchange_reachable ustr rnd cached X" and "uuid_text ustr"
  shows "accounts_ok (tables X) \<and> (\<forall>c. total c (tables X) = exMinted X c)"
  using assms by (rule reachable_conserves_money)

text \<open>
  C2: every trade the exchange records is a legitimate one, end to end. In every reachable state, however
  the services interleave and fail, every row of the trade table is between two orders of the order table
  that belong to different users, are of the trade's symbol and of opposite sides; the maker is a limit
  order and the trade is at exactly its price, and within the taker's limit if the taker is a limit order.
\<close>

theorem exchange_trades_sound:
  assumes "exchange_reachable ustr rnd cached X" and "uuid_text ustr" and "t \<in> set (trades (tables X))"
  shows "\<exists>maker \<in> set (orders (tables X)). \<exists>taker \<in> set (orders (tables X)).
    dID maker = tMakerOrderID t \<and> dID taker = tTakerOrderID t \<and>
    dSymbol maker = tSymbol t \<and> dSymbol taker = tSymbol t \<and> dUserID maker \<noteq> dUserID taker \<and>
    (dSide maker = SideBuy) \<noteq> (dSide taker = SideBuy) \<and> dType maker = TypeLimit \<and> tPrice t = dPrice maker \<and>
    (dType taker = TypeLimit \<longrightarrow>
       (if dSide taker = SideBuy then tPrice t \<le> dPrice taker else dPrice taker \<le> tPrice t))"
  by (rule trade_sound_rows [OF reachable_trade_sound [OF assms]])

lemma reachable_run:
  assumes "(exchange_step ustr rnd cached)\<^sup>*\<^sup>* X X'" and "exchange_reachable ustr rnd cached X" and "uuid_text ustr"
  shows "exchange_reachable ustr rnd cached X' \<and> extends X X'"
  using assms(1)
proof (induction rule: rtranclp_induct)
  case base
  with assms(2) extends_refl show ?case by blast
next
  case (step Y Z)
  then have Y: "exchange_reachable ustr rnd cached Y" and XY: "extends X Y" by simp_all
  have "exchange_ok Y" by (rule exchange_invariant [OF Y assms(3)])
  from exchange_step_ok [OF step.hyps(2) this assms(3)] have YZ: "extends Y Z" ..
  show ?case
    using exchange_reachable.step [OF Y step.hyps(2)] extends_trans [OF XY YZ] by simp
qed

text \<open>
  C3: history is only appended to. From any reachable state, any further run of the exchange leaves every
  row of an order in its place with its identifier, symbol, user, side, type and price, leaves every
  recorded trade exactly as it is, and leaves every record on the log; new rows, trades and records are
  added behind them.
\<close>

theorem exchange_history_permanent:
  assumes "exchange_reachable ustr rnd cached X" and "uuid_text ustr" and "(exchange_step ustr rnd cached)\<^sup>*\<^sup>* X X'"
  shows "\<exists>os ts rs. map identity (orders (tables X')) = map identity (orders (tables X)) @ os \<and>
    trades (tables X') = trades (tables X) @ ts \<and> broker X' = broker X @ rs"
  using reachable_run [OF assms(3,1,2)] unfolding extends_def by blast

end
