(* ===== verification/System_Demo.thy ===== *)
theory System_Demo
  imports System_Correct
begin

text \<open>
  Runs of the whole exchange that the simplifier evaluates: the steps of \<open>System\<close> as functions, the
  theorems applied to a run in which two users trade, and the run behind a recorded finding.
\<close>

section \<open>The steps as functions\<close>

text \<open>
  A text for identifiers that fits the columns: sixteen characters of eight bits each. The small
  identifiers of the runs need only the first, which keeps the runs quick to evaluate.
\<close>

definition text_char :: "uuid \<Rightarrow> nat \<Rightarrow> char" where
  "text_char u i = Char (bit u (8 * i)) (bit u (8 * i + 1)) (bit u (8 * i + 2)) (bit u (8 * i + 3))
     (bit u (8 * i + 4)) (bit u (8 * i + 5)) (bit u (8 * i + 6)) (bit u (8 * i + 7))"

definition nul :: char where
  "nul = Char False False False False False False False False"

definition short_text :: "uuid \<Rightarrow> string" where
  "short_text u = (if u < 256
     then [text_char u 0, nul, nul, nul, nul, nul, nul, nul, nul, nul, nul, nul, nul, nul, nul, nul]
     else map (text_char u) [0..<16])"

lemma text_char_inj:
  assumes c: "text_char u i = text_char v i" and i: "n div 8 = i"
  shows "bit u n = bit v n"
proof -
  have bits: "bit u (8 * i + j) = bit v (8 * i + j)" if "j \<in> {0, 1, 2, 3, 4, 5, 6, 7}" for j
    using that c unfolding text_char_def char.inject by (elim insertE) simp_all
  have small: "m \<in> {0, 1, 2, 3, 4, 5, 6, 7}" if "m < 8" for m :: nat
    using that by (simp only: insert_iff empty_iff) arith
  have "n mod 8 < 8" by (rule mod_less_divisor) simp
  from bits [OF small [OF this]] have "bit u (8 * i + n mod 8) = bit v (8 * i + n mod 8)" .
  moreover have "8 * i + n mod 8 = n" using i by (metis mult_div_mod_eq)
  ultimately show ?thesis by simp
qed

lemma small_uuid_bit:
  assumes "(u :: uuid) < 256" and "8 \<le> n"
  shows "\<not> bit u n"
proof -
  from assms(1) have "unat u < 2 ^ 8" by (simp add: word_less_nat_alt)
  then have "take_bit 8 (unat u) = unat u" by (rule take_bit_nat_eq_self)
  with assms(2) have "\<not> bit (unat u) n" by (metis bit_take_bit_iff not_le)
  then show ?thesis using bit_imp_le_length [of u n] by (auto simp: bit_unsigned_iff)
qed

lemma short_text_chars: "short_text u = map (text_char u) [0..<16]"
proof (cases "u < 256")
  case True
  have "text_char u i = nul" if "1 \<le> i" for i
    using that small_uuid_bit [OF True] by (simp add: text_char_def nul_def)
  with True show ?thesis by (simp add: short_text_def upt_rec)
qed (simp add: short_text_def)

lemma short_uuid_text: "uuid_text short_text"
proof -
  have "u = v" if e: "short_text u = short_text v" for u v
  proof (rule bit_word_eqI)
    fix n assume n: "n < LENGTH(128)"
    from e have "map (text_char u) [0..<16] ! (n div 8) = map (text_char v) [0..<16] ! (n div 8)"
      unfolding short_text_chars by (rule arg_cong)
    moreover have "n div 8 < 16" using n by simp
    ultimately have "text_char u (n div 8) = text_char v (n div 8)" by (simp only: nth_map length_upt nth_upt) simp
    then show "bit u n = bit v n" by (rule text_char_inj) (rule refl)
  qed
  then show ?thesis by (auto simp: uuid_text_def inj_def short_text_chars)
qed

definition do_register :: "exchange \<Rightarrow> exchange" where
  "do_register X = (let (r, s') = RegisterAnonymousUser short_text (exSess X) in
     X\<lparr>exSess := s', exMinted := (\<lambda>c. exMinted X c + test_funds r c)\<rparr>)"

definition do_place :: "Service \<Rightarrow> Order \<Rightarrow> exchange \<Rightarrow> exchange" where
  "do_place svc order X = (let (r, s') = PlaceOrder short_text (\<lambda>x. x) svc order (exSess X) in
     X\<lparr>exSess := s', exHot := exHot X @ handed svc r\<rparr>)"

definition do_hot :: "exchange \<Rightarrow> exchange" where
  "do_hot X = (case exHot X of [] \<Rightarrow> X
     | msg # _ \<Rightarrow> (let (b', s') = hot_path msg (exBatcher X, exSess X) in
         X\<lparr>exSess := s', exHot := remove1 msg (exHot X), exBatcher := b'\<rparr>))"

definition do_join :: "string \<Rightarrow> exchange \<Rightarrow> exchange" where
  "do_join i X = (case exNodes X i of Some _ \<Rightarrow> X
     | None \<Rightarrow> X\<lparr>exNodes := (exNodes X)(i \<mapsto> (NewElector global_lock i, new_instance))\<rparr>)"

definition do_tick :: "string \<Rightarrow> exchange \<Rightarrow> exchange" where
  "do_tick i X = (case exNodes X i of None \<Rightarrow> X
     | Some (e, a) \<Rightarrow>
         (let (e', (a', st'), s') = tick (onBecomeLeader True) onLoseLeadership (e, (a, exStore X), exSess X)
          in X\<lparr>exSess := s', exStore := st', exNodes := (exNodes X)(i \<mapsto> (e', a'))\<rparr>))"

definition do_crash :: "string \<Rightarrow> exchange \<Rightarrow> exchange" where
  "do_crash i X = X\<lparr>exNodes := (exNodes X)(i := None)\<rparr>"

text \<open>The consumer of an instance sees its token; the k-th record of the log is handled.\<close>

definition node_subscriber :: "Instance \<Rightarrow> Subscriber" where
  "node_subscriber a = \<lparr>subBus = True, subCache = True, subToken = (\<lambda>_. inToken a), ctxDone = (\<lambda>_. False)\<rparr>"

definition do_consume :: "string \<Rightarrow> nat \<Rightarrow> exchange \<Rightarrow> exchange" where
  "do_consume i k X = (case exNodes X i of None \<Rightarrow> X
     | Some (e, a) \<Rightarrow>
         (case drop k (broker X) of [] \<Rightarrow> X
          | (topic, key, v) # _ \<Rightarrow>
             if topic \<noteq> TopicOrders then X
             else case matching_consumer (node_subscriber a) v
                   \<lparr>engineManager = inEngines a, store = exStore X, sess = exSess X\<rparr> of
                 None \<Rightarrow> X
               | Some (r, m') \<Rightarrow> X\<lparr>exSess := sess m', exStore := store m',
                   exNodes := (exNodes X)(i \<mapsto> (e, a\<lparr>inEngines := engineManager m'\<rparr>))\<rparr>))"

definition do_settle :: "nat \<Rightarrow> exchange \<Rightarrow> exchange" where
  "do_settle k X = (case drop k (broker X) of [] \<Rightarrow> X
     | (topic, key, v) # _ \<Rightarrow>
         if topic \<noteq> TopicSettlements then X
         else X\<lparr>exSess := settlement_consumer short_text (\<lambda>x. x) v (exSess X)\<rparr>)"

definition do_wait :: "(nat \<Rightarrow> millis) \<Rightarrow> exchange \<Rightarrow> exchange" where
  "do_wait clk X = X\<lparr>exSess := (exSess X)\<lparr>clock := clk, in_tx := False, aborted := False\<rparr>\<rparr>"

abbreviation exchange_run :: "exchange \<Rightarrow> exchange \<Rightarrow> bool" where
  "exchange_run \<equiv> (exchange_step short_text (\<lambda>x. x) True)\<^sup>*\<^sup>*"

lemma do_run:
  shows "exchange_run X (do_register X)" "exchange_run X (do_place svc order X)" "exchange_run X (do_hot X)"
    "exchange_run X (do_join i X)" "exchange_run X (do_tick i X)" "exchange_run X (do_crash i X)"
    "exchange_run X (do_consume i k X)" "exchange_run X (do_settle k X)" "exchange_run X (do_wait clk X)"
proof -
  note by_step = r_into_rtranclp [where r = "exchange_step short_text (\<lambda>x. x) True"]
  show "exchange_run X (do_register X)"
    unfolding do_register_def by (auto split: prod.splits intro!: by_step exchange_step.register)
  show "exchange_run X (do_place svc order X)"
    unfolding do_place_def by (auto split: prod.splits intro!: by_step exchange_step.place)
  show "exchange_run X (do_hot X)"
  proof (cases "exHot X")
    case Nil
    then show ?thesis by (simp add: do_hot_def)
  next
    case (Cons msg msgs)
    obtain b' s' where h: "hot_path msg (exBatcher X, exSess X) = (b', s')" by (cases "hot_path msg (exBatcher X, exSess X)")
    from Cons have "msg \<in> set (exHot X)" by simp
    from by_step [OF exchange_step.hot [OF this h]] Cons h show ?thesis by (simp add: do_hot_def)
  qed
  show "exchange_run X (do_join i X)"
    unfolding do_join_def by (auto split: option.splits intro!: by_step exchange_step.join)
  show "exchange_run X (do_tick i X)"
    unfolding do_tick_def by (auto split: option.splits prod.splits intro!: by_step exchange_step.elect)
  show "exchange_run X (do_crash i X)"
    unfolding do_crash_def by (auto intro!: by_step exchange_step.crash)
  have "k < length (broker X) \<and> (topic, key, v) \<in> set (broker X)" if "drop k (broker X) = (topic, key, v) # rs" for topic key v rs
    using that by (metis drop_eq_Nil in_set_dropD leI list.distinct(1) list.set_intros(1))
  note at = this [THEN conjunct2]
  show "exchange_run X (do_consume i k X)"
    unfolding do_consume_def
    by (auto split: option.splits list.splits prod.splits dest!: at intro!: by_step exchange_step.consume)
  show "exchange_run X (do_settle k X)"
    unfolding do_settle_def
    by (auto split: list.splits prod.splits dest!: at intro!: by_step exchange_step.settle)
  show "exchange_run X (do_wait clk X)"
    unfolding do_wait_def by (auto intro!: by_step exchange_step.weather)
qed

lemma do_runs:
  assumes "exchange_run X Y"
  shows "exchange_run X (do_register Y)" "exchange_run X (do_place svc order Y)" "exchange_run X (do_hot Y)"
    "exchange_run X (do_join i Y)" "exchange_run X (do_tick i Y)" "exchange_run X (do_crash i Y)"
    "exchange_run X (do_consume i k Y)" "exchange_run X (do_settle k Y)" "exchange_run X (do_wait clk Y)"
  by (rule rtranclp_trans [OF assms do_run(1)] rtranclp_trans [OF assms do_run(2)] rtranclp_trans [OF assms do_run(3)]
      rtranclp_trans [OF assms do_run(4)] rtranclp_trans [OF assms do_run(5)] rtranclp_trans [OF assms do_run(6)]
      rtranclp_trans [OF assms do_run(7)] rtranclp_trans [OF assms do_run(8)] rtranclp_trans [OF assms do_run(9)])+

section \<open>Two users trade\<close>

definition boot_exchange :: exchange where
  "boot_exchange = new_exchange \<lparr>db = fresh_tables, kafka = [], calls = 0, in_tx = False, aborted = False,
     outage = (\<lambda>_. False), lost_ack = (\<lambda>_. False), clock = int, fresh = (\<lambda>n. of_nat (100 + n))\<rparr> []"

definition limit_order :: "nat \<Rightarrow> OrderSide \<Rightarrow> decimal \<Rightarrow> decimal \<Rightarrow> exchange \<Rightarrow> Order" where
  "limit_order k side price qty X =
     \<lparr>dID = 0, dUserID = uID (users (tables X) ! k), dSymbol = ''BTC-USD'', dSide = side, dType = TypeLimit,
      dPrice = price, dQuantity = qty, dFilledQuantity = 0, dStatus = 0, dCreatedAt = 0, dUpdatedAt = 0\<rparr>"

definition do_limit :: "nat \<Rightarrow> OrderSide \<Rightarrow> decimal \<Rightarrow> decimal \<Rightarrow> exchange \<Rightarrow> exchange" where
  "do_limit k side price qty X = do_hot (do_place demo_service (limit_order k side price qty X) X)"

text \<open>
  Two users register, the instance \<open>''a''\<close> leads, the first user sells 2 at 100, the second bids 110 for 3,
  and \<open>''a''\<close> matches both orders. The log then holds the two orders, the first book update, the
  settlement, the trade and the second book update; the settlement consumer may read the fourth record.
\<close>

definition open_exchange :: exchange where
  "open_exchange = do_tick ''a'' (do_join ''a'' (do_register (do_register boot_exchange)))"

definition matched_exchange :: exchange where
  "matched_exchange = do_consume ''a'' 1 (do_consume ''a'' 0
     (do_limit 1 SideBuy 110 3 (do_limit 0 SideSell 100 2 open_exchange)))"

definition settled_exchange :: exchange where
  "settled_exchange = do_settle 3 matched_exchange"

lemma open_exchange_reachable: "exchange_reachable short_text (\<lambda>x. x) True open_exchange"
proof -
  have "exchange_reachable short_text (\<lambda>x. x) True boot_exchange"
    unfolding boot_exchange_def by (rule exchange_reachable.boot) simp_all
  moreover have "exchange_run boot_exchange open_exchange" unfolding open_exchange_def by (intro do_runs rtranclp.rtrancl_refl)
  ultimately show ?thesis using reachable_run short_uuid_text by blast
qed

lemma settled_exchange_run: "exchange_run open_exchange settled_exchange"
  unfolding settled_exchange_def matched_exchange_def do_limit_def by (intro do_runs rtranclp.rtrancl_refl)

lemma settled_exchange_reachable: "exchange_reachable short_text (\<lambda>x. x) True settled_exchange"
  using reachable_run [OF settled_exchange_run open_exchange_reachable short_uuid_text] by (rule conjunct1)

definition trade_view :: "exchange \<Rightarrow> (nat \<times> decimal \<times> decimal) list \<times> decimal list" where
  "trade_view X = (map (\<lambda>t. (length (broker X), tPrice t, tQuantity t)) (trades (tables X)),
     map (\<lambda>c. exMinted X c) [''USD'', ''BTC''])"

lemma settled_exchange_view: "trade_view settled_exchange = ([(8, 100, 2)], [2000000, 200])"
  by code_simp

theorem exchange_conserves_money_witness:
  "accounts_ok (tables settled_exchange) \<and> total ''USD'' (tables settled_exchange) = 2000000 \<and>
   total ''BTC'' (tables settled_exchange) = 200"
  using exchange_conserves_money [OF settled_exchange_reachable short_uuid_text] settled_exchange_view
  by (simp add: trade_view_def)

theorem exchange_trades_sound_witness:
  "\<exists>t \<in> set (trades (tables settled_exchange)). tPrice t = 100 \<and> tQuantity t = 2 \<and>
    (\<exists>maker \<in> set (orders (tables settled_exchange)). \<exists>taker \<in> set (orders (tables settled_exchange)).
      dID maker = tMakerOrderID t \<and> dID taker = tTakerOrderID t \<and> dUserID maker \<noteq> dUserID taker \<and>
      dType maker = TypeLimit \<and> dPrice maker = 100)"
proof -
  from settled_exchange_view obtain t where t: "t \<in> set (trades (tables settled_exchange))" "tPrice t = 100" "tQuantity t = 2"
    by (auto simp: trade_view_def)
  from exchange_trades_sound [OF settled_exchange_reachable short_uuid_text t(1)] t show ?thesis by metis
qed

theorem exchange_history_permanent_witness:
  "\<exists>os ts rs. map identity (orders (tables settled_exchange)) = map identity (orders (tables open_exchange)) @ os \<and>
    trades (tables settled_exchange) = trades (tables open_exchange) @ ts \<and> broker settled_exchange = broker open_exchange @ rs"
  by (rule exchange_history_permanent [OF open_exchange_reachable short_uuid_text settled_exchange_run])

section \<open>A failover loses a settlement\<close>

text \<open>
  The leader crashes after the settlement it published is on the log and before the order service has read
  it. The next leader's token fences the settlement off as stale: the trade, which was announced, is never
  recorded, and the cold start puts both orders back into one crossed book, which nothing matches again.
\<close>

definition failed_over_exchange :: exchange where
  "failed_over_exchange = do_settle 3 (do_tick ''b'' (do_join ''b''
     (do_wait (\<lambda>n. 100000 + int n) (do_crash ''a'' matched_exchange))))"

definition book_prices :: "string \<Rightarrow> exchange \<Rightarrow> (decimal list \<times> decimal list) list" where
  "book_prices i X = (case exNodes X i of None \<Rightarrow> []
     | Some (e, a) \<Rightarrow> map (\<lambda>(symbol, ob). (map ePrice (bids ob), map ePrice (asks ob))) (inEngines a))"

definition lost_view :: "exchange \<Rightarrow> (bool \<times> nat \<times> nat list) \<times> (decimal list \<times> decimal list) list" where
  "lost_view X = ((list_ex (\<lambda>(topic, key, e). topic = TopicTrades) (broker X), length (trades (tables X)),
     map (\<lambda>x. unat (dStatus x)) (orders (tables X))), book_prices ''b'' X)"

lemma failover_loses_settlement: "lost_view failed_over_exchange = ((True, 0, [1, 1]), [([110], [100])])"
  by code_simp

end
