(* ===== verification/Spec2Isabelle.thy ===== *)
theory Spec2Isabelle
  imports Engine_Correct Settlement_Demo OrderService_Correct Outbox Cache Matching_Demo
    Election_Correct Consumer RateLimiter MarketData Api_Correct Collectors Funds Simulation Gateway Processes System_Demo
begin

text \<open>
  A model of the exchange backend, translated from the Go sources under src/, and its correctness.

  The program is five processes behind one database, one Redis and one Kafka cluster. The gateway limits
  and deduplicates requests and forwards them. The order service locks funds, stores an order and its event
  in one transaction, and the outbox publishes the event. The matching engine, of which the instance that
  holds the leader lock consumes, matches the event in memory and publishes what has to be settled. The
  order service consumes that and moves money, orders and trades in one transaction. The market data service
  serves the cached order book and pushes updates to WebSocket clients; a simulator places orders through
  the gateway.

  \<^bold>\<open>Theories and sources\<close> (paths under src/internal unless they start with cmd/):

  \<^item> Prelude: decimals, identifiers, lists, stable sorting, tables of rows, the rule collections.
  \<^item> OrderBook, Engine, Engine_Correct: matching/engine/types.go, orderbook.go, engine.go, manager.go. A book
    is two lists in price-time order. \<open>price_ladder\<close> is the contract of one side of it and \<open>match_side\<close> extends
    it with matching; both are interpreted for bids and asks. Shown: the book invariant and the uncrossed
    book under every operation, refinement of a greedy specification over the price-time order, conservation
    of quantity, soundness of trades, cancellation, the estimate of market buys as the cost of executing.
  \<^item> Domain: domain/models.go and events.go; the Go enums keep their 16 bits. Shown: round trips of the enums.
  \<^item> Tx, Repository: repository/*.go and the statements of the tables in sql/schema.sql. Every statement,
    clock reading and generated identifier takes a position of the session, at which the connection may fail
    or the reply may be lost. \<open>transaction_runner\<close> and \<open>ledger\<close> are the contracts of \<open>ExecTx\<close> and of the account
    statements, interpreted on the PostgreSQL methods.
  \<^item> Settlement, Settlement_Correct, Settlement_Effects, Settlement_Demo: order/event_subscribers.go. Shown:
    money is conserved, an event takes effect at most once, orders get their quantities and statuses, stale
    leaders and errors change nothing, cancellation releases what is left, once.
  \<^item> Outbox: infrastructure/outbox/*.go and the hot path of order/service.go. Shown: no committed event is
    lost in any interleaving of hot path, batch deletion and worker; a pass drains what is due.
  \<^item> OrderService, OrderService_Correct: order/service.go and account_service.go. Shown: placing, batch
    placing, cancelling and registering are all or nothing and lock what they should; the estimate agrees with
    the engine's.
  \<^item> Funds and this theory: the funds of one order from its lock through the engine to its settlement.
  \<^item> System, System_Tables, System_Handlers, System_Books, System_Correct, System_Demo: the exchange as one
    step relation \<open>exchange_step\<close>: requests to the order service, its hot path, outbox worker and settlement
    consumer, and any number of engine instances electing, matching, stopping and crashing, over the shared
    tables, log and cache, with every failure a session allows. \<open>emitting\<close> and \<open>grows\<close> say what a handler may
    add to the log, \<open>advances\<close> what it may do to the tables, \<open>registry_sound\<close> what the books hold. Shown in
    every reachable state: money is conserved end to end, every recorded trade is sound, history is only
    appended to. A run evaluated step by step shows a settlement lost by a failover.
  \<^item> Cache, Matching, Matching_Correct, Matching_Demo: repository/cache_repository.go,
    matching/event_subscribers.go, initializer.go. Shown: the newest snapshot wins, an event is matched once
    and published at least once, settlement first; orders are accounted for; a cold start rebuilds the books.
  \<^item> Election, Election_Correct: infrastructure/election/*.go and the callbacks of cmd/matching-engine/main.go.
    Shown over every run of a cluster: of two instances that hold a token at most one is effective, tokens are
    never reused, an expired lease is taken.
  \<^item> Consumer: infrastructure/kafka/consumer.go. Shown: at least once, in order, and no commit past an
    unhandled record.
  \<^item> Middleware, RateLimiter, Gateway: middleware/*.go, cmd/gateway/main.go, api/handlers.go.
    \<open>idempotency_store\<close> is the contract of both stores, \<open>token_bucket\<close> that of the Redis script. Shown: a request
    repeated under its key is answered from the store, alone and through the whole chain of the gateway; the
    bound of the limiter; the route table is disjoint and every forwarded route exists.
  \<^item> MarketData, WebSocket, Metrics, Collectors: marketdata/*.go, api/websocket_handler.go,
    infrastructure/metrics/metrics.go. Shown: the hub never panics and sends every client a gapless stream; the
    gauge of connections is the number of clients; requests are counted once; registering panics exactly when
    a pool is registered twice, and every recording names a declared collector with all its labels.
  \<^item> Api, Api_Correct: api/order_handlers.go, validator.go, account_handlers.go, market_handlers.go. Shown: what
    the API accepts is well typed and stored as sent; every other answer changes nothing.
  \<^item> Simulation: simulation/*.go. Shown: the bounds of a run's counter in every interleaving of its workers.
  \<^item> Services: infrastructure/db, kafka/config.go, kafka/producer.go, redis/client.go and the configuration, the
    subscriptions and the shutdown of the cmd/ processes. Shown: a service starts only with its database and
    brokers, every topic has one consumer group, the shutdown is bounded.
  \<^item> Processes: the routes, handlers and health pages of the cmd/ processes and api/handlers.go. Shown: what the
    gateway forwards is served, what falls through its table reaches no route of the order service.

  \<^bold>\<open>How the code is read.\<close> A struct is a record, an enum a 16 bit word, an error a value of \<open>error\<close>, a
  fallible method a function in \<open>dbm\<close>, the session monad. Goroutines are step relations whose steps are the
  channel operations, statements or locked sections of the code, and the invariants are proved by rule
  induction. The matching loops terminate by the length of the ladder. The loops that may run for ever
  (publishing with retries, consuming a record) are \<open>partial_function (option)\<close>: \<open>None\<close> is not returning, and
  when they return is a theorem; no fuel is used anywhere.

  \<^bold>\<open>What is assumed of the outside.\<close>

  \<^item> A \<open>decimal.Decimal\<close> is its exact value and rounding is an argument. \<open>uuid.NewV7\<close> does not fail; identifiers
    and clocks are streams of the session. Encoding to JSON and back is the identity on the payloads.
  \<^item> PostgreSQL: statements and constraints as documented; transactions are serial, a failed commit has not
    committed, a statement outside a transaction whose reply is lost has taken effect. Locks of rows are
    not modelled beyond their order.
  \<^item> Redis runs a script atomically; Lua numbers are exact for tokens below \<open>2 ^ 53\<close> and rational arithmetic
    stands for \<open>float64\<close> in the limiter and the simulator. A key lives until its TTL ends.
  \<^item> Kafka keeps the order of a partition; an acknowledged record is on the log, an unacknowledged one may be.
  \<^item> Symbols and other text compared by the code are ASCII.

  \<^bold>\<open>Not modelled\<close>: logging; the exposition format of Prometheus; opening and closing connections; constructors that only
  store their arguments; frames and deadlines of WebSocket
  connections; gin's router beyond matching a route, CORS; interface declarations. The code under test
  directories, the front end and the deployment files are not part of the model.
\<close>

section \<open>From the lock to the settlement\<close>

text \<open>
  C4: the funds of an order are accounted for across the services. Take an order as \<open>PlaceOrder\<close> stores it,
  with the amount \<open>x\<close> of currency \<open>c\<close> it locked, the event it emits, the trades the matching engine makes of
  that event on a well formed book and the settlement the matching service requests; the makers the
  settlement consumer locks are the engine's. If the numbers have at most eight decimals, then what
  settling unlocks for the taker, refund included, and what a cancellation of the rest would still
  release add up to exactly \<open>x\<close>; what stays reserved is reserved for an order that rests in the book with
  exactly the unfilled quantity. The one exception is a market buy that costs more than was locked: its
  settlement asks to unlock the whole cost.
\<close>

theorem locked_funds_accounted:
  assumes "lock_spec d (c, x)" "dFilledQuantity d = 0" "dStatus d = StatusNew" "0 < dQuantity d"
    "dType d = TypeLimit \<or> dType d = TypeMarket" "dType d = TypeLimit \<longrightarrow> 0 < dPrice d"
    and "placed_event d c x = EvOrderPlaced ev" and "process_event ev m = (eng, mo, ts, m1)"
    and "book_ok (snd (GetEngine (engineManager m) (dSymbol d)))"
    and "mirrors lk d (opposite (snd (GetEngine (engineManager m) (dSymbol d))) (convertToMatchingOrder ev))"
    and "settlement_event ev mo ts tok = EvSettlementRequested sr"
    and "settle_trades rnd (dID d) ts (lk, []) s = (Inr (lk', ups), s')" "lk' (dID d) = Some d1"
    "taker_outcome sr d1 = (d2, refund)"
    and "\<And>q. eight_decimals q \<Longrightarrow> rnd q = q" and "eight_decimals x" "\<forall>t \<in> set ts. eight_decimals (trade_cost d t)"
  shows "(if market_buy d \<and> x < trade_value ts
      then unlocked (dUserID d) c (ups @ refund_updates rnd sr d2 refund) = trade_value ts
      else unlocked (dUserID d) c (ups @ refund_updates rnd sr d2 refund) + reserved d2 = x) \<and>
    (reserved d2 \<noteq> 0 \<longrightarrow> (\<exists>y \<in> set (own_side eng (dSide d)). eID y = dID d \<and> eQuantity y = dQuantity d - dFilledQuantity d2))"
  using assms by (rule lock_accounting)

theorem locked_funds_accounted_witness:
  "\<exists>lk' ups d1. fst demo_settle_run = Inr (lk', ups) \<and> lk' 12 = Some d1 \<and>
     (case taker_outcome demo_request_event d1 of (d2, refund) \<Rightarrow>
        unlocked 1 ''USD'' (ups @ refund_updates (\<lambda>x. x) demo_request_event d2 refund) + reserved d2 = 330)"
proof -
  obtain lk' ups s' d1 where run: "demo_settle_run = (Inr (lk', ups), s')" "lk' 12 = Some d1" using demo_settle_run_ok by blast
  obtain eng mo ts m1 where p: "process_event demo_placed_event demo_engines = (eng, mo, ts, m1)"
    by (cases "process_event demo_placed_event demo_engines")
  have ts: "ts = demo_trades" "mo = fst (snd demo_matched)" using p by (simp_all add: demo_trades_def demo_matched_def)
  obtain d2 refund where out: "taker_outcome demo_request_event d1 = (d2, refund)" by (cases "taker_outcome demo_request_event d1")
  have d: "lock_spec demo_taker (''USD'', 330)" "dID demo_taker = 12" "dUserID demo_taker = 1" "dSymbol demo_taker = ''BTC-USD''"
    "dFilledQuantity demo_taker = 0" "dStatus demo_taker = StatusNew" "0 < dQuantity demo_taker" "dType demo_taker = TypeLimit"
    "0 < dPrice demo_taker" "dSide demo_taker = SideBuy" "dPrice demo_taker = 110"
    by (simp_all add: demo_taker_def demo_order_def lock_spec_def demo_split)
  have ev: "placed_event demo_taker ''USD'' 330 = EvOrderPlaced demo_placed_event"
    by (simp add: demo_placed_event_def placed_event_def)
  have eng: "snd (GetEngine (engineManager demo_engines) ''BTC-USD'') = (NewOrderBook ''BTC-USD'')\<lparr>asks := [NewOrder 11 2 eSideSell 100 2]\<rparr>"
    by (simp add: GetEngine_def demo_engines_def)
  have book: "book_ok (snd (GetEngine (engineManager demo_engines) (dSymbol demo_taker)))"
    by (simp add: eng d book_ok_def NewOrderBook_def NewOrder_def resting_ok_def)
  have lk: "mirrors demo_locked demo_taker (opposite (snd (GetEngine (engineManager demo_engines) (dSymbol demo_taker)))
      (convertToMatchingOrder demo_placed_event))"
    by (auto simp: eng d mirrors_def opposite_def NewOrderBook_def NewOrder_def demo_locked_def demo_order_def)
  have sr: "settlement_event demo_placed_event mo ts 7 = EvSettlementRequested demo_request_event"
    by (simp add: ts demo_request_event_def settlement_event_def)
  obtain t where t: "demo_trades = [t]" "tQuantity t = 2" using demo_trades_eval by auto
  have tr: "\<forall>t \<in> set ts. eight_decimals (trade_cost demo_taker t)"
    unfolding ts(1) t(1) by (simp add: t(2) trade_cost_def d eight_decimals_def)
  have "settle_trades (\<lambda>x. x) (dID demo_taker) ts (demo_locked, []) demo_session = (Inr (lk', ups), s')"
    using run(1) by (simp add: demo_settle_run_def ts d)
  from locked_funds_accounted [OF d(1,5-7) _ _ ev p book lk sr this _ out, unfolded d] run(2) d tr
  have "unlocked 1 ''USD'' (ups @ refund_updates (\<lambda>x. x) demo_request_event d2 refund) + reserved d2 = 330"
    by (simp add: market_buy_def eight_decimals_def)
  then have "case taker_outcome demo_request_event d1 of (d2, refund) \<Rightarrow>
      unlocked 1 ''USD'' (ups @ refund_updates (\<lambda>x. x) demo_request_event d2 refund) + reserved d2 = 330"
    unfolding out by simp
  moreover have "fst demo_settle_run = Inr (lk', ups)" unfolding run(1) by simp
  ultimately show ?thesis using run(2) by (intro exI [of _ lk'] exI [of _ ups] exI [of _ d1] conjI)
qed

end
